(* ===== verification/RtPrelude.thy ===== *)
theory RtPrelude
  imports Main "HOL-Library.Signed_Division"
begin

text \<open>
  The prelude of the development: C integers at their width, the C library's number
  parser and string comparisons as far as the rt-tests sources use them, sequences of
  fallible calls with an early error return, transition systems with their invariants,
  and the contract of the running latency statistics that most of the programs keep.
\<close>

unbundle bit_operations_syntax

section \<open>C integers\<close>

named_theorems c_int \<open>conversions between C integer types on values that fit\<close>

abbreviation s32 :: "int \<Rightarrow> int" where "s32 \<equiv> signed_take_bit 31"
abbreviation s64 :: "int \<Rightarrow> int" where "s64 \<equiv> signed_take_bit 63"
abbreviation u32 :: "int \<Rightarrow> int" where "u32 \<equiv> take_bit 32"
abbreviation u64 :: "int \<Rightarrow> int" where "u64 \<equiv> take_bit 64"

text \<open>Conversion to a type that can hold the value leaves it unchanged.\<close>

lemma s32_fits [c_int]: "- 2147483648 \<le> x \<Longrightarrow> x < 2147483648 \<Longrightarrow> s32 x = x"
  by (simp add: signed_take_bit_int_eq_self_iff)

lemma s64_fits [c_int]:
  "- 9223372036854775808 \<le> x \<Longrightarrow> x < 9223372036854775808 \<Longrightarrow> s64 x = x"
  by (simp add: signed_take_bit_int_eq_self_iff)

lemma u32_fits [c_int]: "0 \<le> x \<Longrightarrow> x < 4294967296 \<Longrightarrow> u32 x = x"
  by (simp add: take_bit_int_eq_self_iff)

lemma u64_fits [c_int]: "0 \<le> x \<Longrightarrow> x < 18446744073709551616 \<Longrightarrow> u64 x = x"
  by (simp add: take_bit_int_eq_self_iff)

lemma u64_range: "0 \<le> u64 x" "u64 x < 18446744073709551616"
  by (simp_all add: take_bit_int_less_exp [where n = 64, simplified])

lemma u64_pos: "u64 x \<noteq> 0 \<Longrightarrow> 0 < u64 x"
  by (rule le_neq_trans [OF u64_range(1) not_sym])

text \<open>How far an unsigned counter is behind another, after one more step.\<close>

lemma u64_diff_step:
  assumes "u64 (c - r) \<noteq> 0"
  shows "u64 (c - u64 (r + 1)) = u64 (c - r) - 1"
proof -
  have "u64 (c - u64 (r + 1)) = u64 (u64 (c - r) - 1)"
    by (simp add: take_bit_eq_mod mod_diff_right_eq mod_diff_left_eq diff_diff_eq)
  also have "\<dots> = u64 (c - r) - 1"
    using u64_pos [OF assms] u64_range(2) [of "c - r"] by (intro u64_fits) linarith+
  finally show ?thesis .
qed

lemma s32_range: "- 2147483648 \<le> s32 x" "s32 x < 2147483648"
  using signed_take_bit_int_greater_eq_minus_exp [of 31 x] signed_take_bit_int_less_exp [of 31 x]
  by simp_all

lemma s64_range: "- 9223372036854775808 \<le> s64 x" "s64 x < 9223372036854775808"
  using signed_take_bit_int_greater_eq_minus_exp [of 63 x] signed_take_bit_int_less_exp [of 63 x]
  by simp_all

text \<open>A negative C integer converted to a 64-bit unsigned type.\<close>

lemma u64_neg:
  assumes "- 18446744073709551616 \<le> x" and "x < 0"
  shows "u64 x = x + 18446744073709551616"
proof -
  have "u64 x = (x + 18446744073709551616) mod 18446744073709551616"
    by (simp add: take_bit_eq_mod)
  also have "\<dots> = x + 18446744073709551616"
    using assms by (intro mod_pos_pos_trivial) auto
  finally show ?thesis .
qed

text \<open>C's division truncates towards zero; for a positive divisor it is off by less than one.\<close>

lemma sdiv_bounds:
  assumes "0 < (b :: int)"
  shows "\<bar>a - b * (a sdiv b)\<bar> < b"
proof -
  have "a - b * (a sdiv b) = a smod b"
    by (rule minus_mult_sdiv_eq_smod)
  moreover have "\<bar>a smod b\<bar> < b"
  proof (cases "0 \<le> a")
    case True
    then show ?thesis using assms by (simp add: signed_modulo_int_def sgn_if)
  next
    case False
    then have "\<bar>a\<bar> = - a" by simp
    then show ?thesis using assms by (auto simp: signed_modulo_int_def sgn_if)
  qed
  ultimately show ?thesis by simp
qed

lemma sdiv_nonneg: "0 \<le> a \<Longrightarrow> 0 < b \<Longrightarrow> a sdiv b = (a :: int) div b"
  by (auto simp: signed_divide_int_def sgn_if)

section \<open>The C library: strings and numbers\<close>

definition isspace :: "char \<Rightarrow> bool" where
  "isspace c \<longleftrightarrow> of_char c \<in> {32 :: nat, 9, 10, 11, 12, 13}"

definition digit_val :: "char \<Rightarrow> int option" where
  "digit_val c = (let n = (of_char c :: int) in if 48 \<le> n \<and> n \<le> 57 then Some (n - 48) else None)"

text \<open>Reads the longest run of digits; the second component is what is left.\<close>

fun read_digits :: "int \<Rightarrow> string \<Rightarrow> int \<times> string" where
  "read_digits acc [] = (acc, [])"
| "read_digits acc (c # cs) =
     (case digit_val c of Some d \<Rightarrow> read_digits (10 * acc + d) cs | None \<Rightarrow> (acc, c # cs))"

definition LONG_MAX :: int where "LONG_MAX = 9223372036854775807"
definition LONG_MIN :: int where "LONG_MIN = - 9223372036854775808"
definition ULONG_MAX :: int where "ULONG_MAX = 18446744073709551615"

text \<open>
  \<open>strtol (s, \<dots>, 10)\<close>: the value (clipped to the range of \<open>long\<close>), the rest of the
  string, and whether the value was out of range (\<open>errno == ERANGE\<close>).
\<close>

definition strtol10 :: "string \<Rightarrow> int \<times> string \<times> bool" where
  "strtol10 s =
     (let t = dropWhile isspace s;
          neg = (t \<noteq> [] \<and> hd t = CHR ''-'');
          u = (if t \<noteq> [] \<and> (hd t = CHR ''-'' \<or> hd t = CHR ''+'') then tl t else t)
      in if u = [] \<or> digit_val (hd u) = None then (0, s, False)
         else let (n, r) = read_digits 0 u;
                  v = (if neg then - n else n)
              in if v > LONG_MAX then (LONG_MAX, r, True)
                 else if v < LONG_MIN then (LONG_MIN, r, True)
                 else (v, r, False))"

text \<open>
  \<open>strtoul (s, \<dots>, 10)\<close>: a leading minus sign negates the value in the unsigned type.
\<close>

definition strtoul10 :: "string \<Rightarrow> int \<times> string \<times> bool" where
  "strtoul10 s =
     (let t = dropWhile isspace s;
          neg = (t \<noteq> [] \<and> hd t = CHR ''-'');
          u = (if t \<noteq> [] \<and> (hd t = CHR ''-'' \<or> hd t = CHR ''+'') then tl t else t)
      in if u = [] \<or> digit_val (hd u) = None then (0, s, False)
         else let (n, r) = read_digits 0 u
              in if n > ULONG_MAX then (ULONG_MAX, r, True)
                 else (if neg then u64 (- n) else n, r, False))"

text \<open>\<open>atoi\<close> is \<open>strtol\<close> converted to \<open>int\<close>.\<close>

definition atoi :: "string \<Rightarrow> int" where
  "atoi s = s32 (fst (strtol10 s))"

lemma atoi_range: "- 2147483648 \<le> atoi s" "atoi s < 2147483648"
  by (simp_all add: atoi_def s32_range)

text \<open>The format \<open>%d\<close> for a number that is not negative.\<close>

fun dec :: "nat \<Rightarrow> string" where
  "dec n = (if n < 10 then [char_of (48 + n)] else dec (n div 10) @ [char_of (48 + n mod 10)])"

declare dec.simps [simp del]

text \<open>The format \<open>%d\<close> for any number.\<close>

definition sdec :: "int \<Rightarrow> string" where
  "sdec v = (if v < 0 then CHR ''-'' # dec (nat (- v)) else dec (nat v))"

lemma digit_val_table: "list_all (\<lambda>k :: nat. digit_val (char_of (48 + k)) = Some (int k)) [0..<10]"
  by code_simp

lemma digit_val_dec: "k < 10 \<Longrightarrow> digit_val (char_of (48 + k)) = Some (int k)"
  using digit_val_table by (simp add: list_all_iff del: upt_Suc)

lemma read_digits_snoc:
  "read_digits acc xs = (v, []) \<Longrightarrow> digit_val c = Some d \<Longrightarrow> read_digits acc (xs @ [c]) = (10 * v + d, [])"
  by (induction xs arbitrary: acc) (auto split: option.splits)

lemma read_dec: "read_digits 0 (dec n) = (int n, [])"
proof (induction n rule: dec.induct)
  case (1 n)
  show ?case
  proof (cases "n < 10")
    case True
    then show ?thesis using digit_val_dec [of n] by (subst dec.simps) simp
  next
    case False
    have "10 * int (n div 10) + int (n mod 10) = int n" by presburger
    then show ?thesis
      using False 1 [OF False] read_digits_snoc [OF _ digit_val_dec, of 0 "dec (n div 10)" "int (n div 10)" "n mod 10"]
      by (subst dec.simps) simp
  qed
qed

lemma hd_dec: "\<exists>(k :: nat) xs. k < 10 \<and> dec n = char_of (48 + k) # xs"
proof (induction n rule: dec.induct)
  case (1 n)
  show ?case
  proof (cases "n < 10")
    case True
    then show ?thesis by (subst dec.simps) auto
  next
    case False
    then obtain k :: nat and xs where "k < 10" "dec (n div 10) = char_of (48 + k) # xs" using 1 by blast
    then show ?thesis using False by (subst dec.simps) auto
  qed
qed

lemma digit_not_space: "list_all (\<lambda>k :: nat. \<not> isspace (char_of (48 + k)) \<and> char_of (48 + k) \<noteq> CHR ''-'' \<and>
    char_of (48 + k) \<noteq> CHR ''+'') [0..<10]"
  by code_simp

lemma atoi_dec:
  assumes "n < 2147483648"
  shows "atoi (dec n) = int n"
proof -
  obtain k :: nat and xs where k: "k < 10" "dec n = char_of (48 + k) # xs" using hd_dec by blast
  have c: "\<not> isspace (char_of (48 + k))" "char_of (48 + k) \<noteq> CHR ''-''" "char_of (48 + k) \<noteq> CHR ''+''"
    using digit_not_space k(1) by (simp_all add: list_all_iff del: upt_Suc)
  have "strtol10 (dec n) = (int n, [], False)"
    using c digit_val_dec [OF k(1)] read_dec [of n] assms
    by (simp add: strtol10_def k(2) Let_def LONG_MAX_def LONG_MIN_def)
  then show ?thesis using assms by (simp add: atoi_def signed_take_bit_int_eq_self)
qed

lemma length_dec: "n < 10 ^ k \<Longrightarrow> 0 < k \<Longrightarrow> length (dec n) \<le> k"
proof (induction n arbitrary: k rule: dec.induct)
  case (1 n)
  show ?case
  proof (cases "n < 10")
    case True
    then show ?thesis using 1 by (subst dec.simps) simp
  next
    case False
    then have "k \<noteq> 1" using 1(2) by auto
    then obtain j where j: "k = Suc j" "0 < j" using 1(3) by (cases k) auto
    then have "length (dec (n div 10)) \<le> j" using 1(1) [OF False, of j] 1(2) by (simp add: less_mult_imp_div_less)
    then show ?thesis using False j by (subst dec.simps) simp
  qed
qed

text \<open>\<open>strncmp (a, b, n) == 0\<close> on strings without NUL characters.\<close>

definition strncmp_eq :: "string \<Rightarrow> string \<Rightarrow> nat \<Rightarrow> bool" where
  "strncmp_eq a b n \<longleftrightarrow> take n a = take n b"

definition tolower :: "char \<Rightarrow> char" where
  "tolower c = (let n = (of_char c :: nat) in if 65 \<le> n \<and> n \<le> 90 then char_of (n + 32) else c)"

definition strncasecmp_eq :: "string \<Rightarrow> string \<Rightarrow> nat \<Rightarrow> bool" where
  "strncasecmp_eq a b n \<longleftrightarrow> take n (map tolower a) = take n (map tolower b)"

section \<open>Calls that can fail, in sequence\<close>

text \<open>
  Much of the set-up code has the shape \<open>status = call (); if (status) { error (msg);
  return FAILURE; }\<close>, repeated. Given the status each call returns, such a sequence makes
  the calls up to and including the first one that fails, and reports that one's message.
\<close>

datatype ('c, 'm) seq_result = SeqOk "'c list" | SeqFail "'c list" 'm

fun seq_calls :: "('c \<Rightarrow> int) \<Rightarrow> ('c \<times> 'm) list \<Rightarrow> ('c, 'm) seq_result" where
  "seq_calls st [] = SeqOk []"
| "seq_calls st ((c, m) # cs) =
     (if st c \<noteq> 0 then SeqFail [c] m
      else case seq_calls st cs of
             SeqOk done \<Rightarrow> SeqOk (c # done)
           | SeqFail done m' \<Rightarrow> SeqFail (c # done) m')"

lemma seq_calls_ok_iff:
  "(\<exists>ds. seq_calls st cs = SeqOk ds) \<longleftrightarrow> (\<forall>c \<in> fst ` set cs. st c = 0)"
  by (induction cs) (auto split: seq_result.splits if_splits)

lemma seq_calls_okD: "seq_calls st cs = SeqOk ds \<Longrightarrow> ds = map fst cs"
  by (induction cs arbitrary: ds) (auto split: seq_result.splits if_splits)

lemma seq_calls_failD:
  "seq_calls st cs = SeqFail ds m \<Longrightarrow>
     \<exists>n < length cs. ds = map fst (take (Suc n) cs) \<and> m = snd (cs ! n) \<and>
       st (fst (cs ! n)) \<noteq> 0 \<and> (\<forall>i < n. st (fst (cs ! i)) = 0)"
proof (induction cs arbitrary: ds)
  case Nil
  then show ?case by simp
next
  case (Cons p cs)
  obtain c m' where p: "p = (c, m')" by (cases p)
  show ?case
  proof (cases "st c = 0")
    case False
    with Cons.prems p show ?thesis by (intro exI [of _ 0]) auto
  next
    case True
    with Cons.prems p obtain ds' where ds': "seq_calls st cs = SeqFail ds' m" "ds = c # ds'"
      by (auto split: seq_result.splits)
    from Cons.IH [OF ds'(1)] obtain n where
      "n < length cs" "ds' = map fst (take (Suc n) cs)" "m = snd (cs ! n)"
      "st (fst (cs ! n)) \<noteq> 0" "\<forall>i < n. st (fst (cs ! i)) = 0" by blast
    with True p ds' show ?thesis
      by (intro exI [of _ "Suc n"]) (auto simp: less_Suc_eq_0_disj)
  qed
qed

section \<open>Transition systems and invariants\<close>

inductive reach :: "('s \<Rightarrow> bool) \<Rightarrow> ('s \<Rightarrow> 's \<Rightarrow> bool) \<Rightarrow> 's \<Rightarrow> bool"
  for init :: "'s \<Rightarrow> bool" and step :: "'s \<Rightarrow> 's \<Rightarrow> bool"
where
  reach_init: "init s \<Longrightarrow> reach init step s"
| reach_step: "reach init step s \<Longrightarrow> step s t \<Longrightarrow> reach init step t"

text \<open>
  The interface of every state machine of the development: start states, steps, and an
  invariant that both respect. The client's lemma is that the invariant holds in every
  reachable state, and along every run.
\<close>

locale machine =
  fixes init :: "'s \<Rightarrow> bool"
    and step :: "'s \<Rightarrow> 's \<Rightarrow> bool"
    and inv :: "'s \<Rightarrow> bool"
  assumes init_inv: "init s \<Longrightarrow> inv s"
    and step_inv: "inv s \<Longrightarrow> step s t \<Longrightarrow> inv t"
begin

lemma reach_inv: "reach init step s \<Longrightarrow> inv s"
  by (induction rule: reach.induct) (auto intro: init_inv step_inv)

lemma runs_inv: "step\<^sup>*\<^sup>* s t \<Longrightarrow> inv s \<Longrightarrow> inv t"
  by (induction rule: rtranclp_induct) (auto intro: step_inv)

end

section \<open>Running latency statistics\<close>

text \<open>
  The interface of the statistics blocks: one operation that records a sample, and what
  minimum, maximum and sum it leaves. Which samples the laws speak of
  is part of the interface (\<open>ok\<close>): the sources compare some of them as unsigned values.
\<close>

locale latency_stats =
  fixes record_sample :: "int \<Rightarrow> 's \<Rightarrow> 's"
    and mn :: "'s \<Rightarrow> int" and mx :: "'s \<Rightarrow> int" and sm :: "'s \<Rightarrow> int"
    and ok :: "int \<Rightarrow> bool" and wf :: "'s \<Rightarrow> bool"
  assumes mn_rec: "wf s \<Longrightarrow> ok d \<Longrightarrow> mn (record_sample d s) = min d (mn s)"
    and mx_rec: "wf s \<Longrightarrow> ok d \<Longrightarrow> mx (record_sample d s) = max d (mx s)"
    and sm_rec: "wf s \<Longrightarrow> ok d \<Longrightarrow> sm (record_sample d s) = sm s + d"
    and wf_rec: "wf s \<Longrightarrow> ok d \<Longrightarrow> wf (record_sample d s)"
begin

lemma fold_wf: "wf s \<Longrightarrow> \<forall>d \<in> set ds. ok d \<Longrightarrow> wf (fold record_sample ds s)"
  by (induction ds arbitrary: s) (auto simp: wf_rec)

lemma fold_mn: "wf s \<Longrightarrow> \<forall>d \<in> set ds. ok d \<Longrightarrow> mn (fold record_sample ds s) = fold min ds (mn s)"
  by (induction ds arbitrary: s) (auto simp: wf_rec mn_rec)

lemma fold_mx: "wf s \<Longrightarrow> \<forall>d \<in> set ds. ok d \<Longrightarrow> mx (fold record_sample ds s) = fold max ds (mx s)"
  by (induction ds arbitrary: s) (auto simp: wf_rec mx_rec)

lemma fold_sm: "wf s \<Longrightarrow> \<forall>d \<in> set ds. ok d \<Longrightarrow> sm (fold record_sample ds s) = sm s + sum_list ds"
  by (induction ds arbitrary: s) (auto simp: wf_rec sm_rec)

lemmas fold_stats = fold_mn fold_mx fold_sm

text \<open>
  Started from neutral bounds, the minimum and maximum are those of the samples, and every
  sample lies between them.
\<close>

lemma fold_mn_Min:
  assumes "wf s" and "\<forall>d \<in> set ds. ok d" and "ds \<noteq> []" and "\<forall>d \<in> set ds. d \<le> mn s"
  shows "mn (fold record_sample ds s) = Min (set ds)"
proof -
  have "mn (fold record_sample ds s) = Min (set (mn s # ds))"
    by (simp only: fold_mn [OF assms(1,2)] Min.set_eq_fold)
  also have "\<dots> = min (mn s) (Min (set ds))"
    using assms(3) by simp
  also have "\<dots> = Min (set ds)"
    using assms(3,4) by (simp add: min_absorb2)
  finally show ?thesis .
qed

lemma fold_mx_Max:
  assumes "wf s" and "\<forall>d \<in> set ds. ok d" and "ds \<noteq> []" and "\<forall>d \<in> set ds. mx s \<le> d"
  shows "mx (fold record_sample ds s) = Max (set ds)"
proof -
  have "mx (fold record_sample ds s) = Max (set (mx s # ds))"
    by (simp only: fold_mx [OF assms(1,2)] Max.set_eq_fold)
  also have "\<dots> = max (mx s) (Max (set ds))"
    using assms(3) by simp
  also have "\<dots> = Max (set ds)"
    using assms(3,4) by (simp add: max_absorb2)
  finally show ?thesis .
qed

end

section \<open>Lists that stand for C arrays\<close>

text \<open>
  An array access outside the allocated block has no defined result in C: reading and
  writing are partial, and a caller that would touch memory outside the block has no result.
\<close>

definition c_read :: "'a list \<Rightarrow> int \<Rightarrow> 'a option" where
  "c_read xs i = (if 0 \<le> i \<and> i < int (length xs) then Some (xs ! nat i) else None)"

definition c_write :: "'a list \<Rightarrow> int \<Rightarrow> 'a \<Rightarrow> 'a list option" where
  "c_write xs i v = (if 0 \<le> i \<and> i < int (length xs) then Some (xs[nat i := v]) else None)"

lemma c_read_in [simp]: "0 \<le> i \<Longrightarrow> i < int (length xs) \<Longrightarrow> c_read xs i = Some (xs ! nat i)"
  by (simp add: c_read_def)

lemma c_write_in [simp]:
  "0 \<le> i \<Longrightarrow> i < int (length xs) \<Longrightarrow> c_write xs i v = Some (xs[nat i := v])"
  by (simp add: c_write_def)

lemma c_write_length: "c_write xs i v = Some ys \<Longrightarrow> length ys = length xs"
  by (auto simp: c_write_def split: if_splits)

lemma c_write_nth_same: "c_write xs i v = Some ys \<Longrightarrow> c_read ys i = Some v"
  by (auto simp: c_write_def c_read_def split: if_splits)

lemma c_write_nth_other: "c_write xs i v = Some ys \<Longrightarrow> i \<noteq> j \<Longrightarrow> c_read ys j = c_read xs j"
  by (auto simp: c_write_def c_read_def nth_list_update nat_eq_iff split: if_splits)

lemma sum_list_update_int:
  "i < length xs \<Longrightarrow> sum_list (xs[i := v]) = sum_list xs - xs ! i + (v :: int)"
  by (induction xs arbitrary: i) (auto split: nat.splits)

section \<open>Ring buffers of samples\<close>

text \<open>
  The interface between a measuring thread and the display: the thread puts the sample of
  cycle \<open>k\<close> into the buffer, the display gets the sample of cycle \<open>k\<close> out of it later. The laws
  speak of cycles less than one buffer size apart.
\<close>

locale sample_ring =
  fixes put :: "int \<Rightarrow> int \<Rightarrow> 'b \<Rightarrow> 'b"
    and get :: "int \<Rightarrow> 'b \<Rightarrow> int"
    and cap :: int
    and wf :: "'b \<Rightarrow> bool"
  assumes put_wf: "wf b \<Longrightarrow> 0 \<le> k \<Longrightarrow> wf (put k v b)"
    and get_same: "wf b \<Longrightarrow> 0 \<le> k \<Longrightarrow> get k (put k v b) = v"
    and get_other: "wf b \<Longrightarrow> 0 \<le> j \<Longrightarrow> j < k \<Longrightarrow> k < j + cap \<Longrightarrow> get j (put k v b) = get j b"
begin

fun put_all :: "int \<Rightarrow> int list \<Rightarrow> 'b \<Rightarrow> 'b" where
  "put_all k [] b = b"
| "put_all k (d # ds) b = put_all (k + 1) ds (put k d b)"

lemma put_all_wf: "wf b \<Longrightarrow> 0 \<le> k \<Longrightarrow> wf (put_all k ds b)"
  by (induction ds arbitrary: k b) (auto simp: put_wf)

lemma put_all_other:
  "wf b \<Longrightarrow> 0 \<le> j \<Longrightarrow> j < k \<Longrightarrow> k + int (length ds) \<le> j + cap \<Longrightarrow> get j (put_all k ds b) = get j b"
  by (induction ds arbitrary: k b) (auto simp: put_wf get_other)

text \<open>A display that is less than one buffer behind finds every sample.\<close>

lemma put_all_get:
  "wf b \<Longrightarrow> 0 \<le> k \<Longrightarrow> int (length ds) \<le> cap \<Longrightarrow> i < length ds \<Longrightarrow>
     get (k + int i) (put_all k ds b) = ds ! i"
proof (induction ds arbitrary: k b i)
  case Nil
  then show ?case by simp
next
  case (Cons d ds)
  show ?case
  proof (cases i)
    case 0
    with Cons.prems show ?thesis
      by (simp add: put_all_other [of "put k d b" k "k + 1"] put_wf get_same)
  next
    case (Suc j)
    with Cons.prems Cons.IH [of "put k d b" "k + 1" j] show ?thesis
      by (simp add: put_wf algebra_simps)
  qed
qed

end

text \<open>Indexing with \<open>k & mask\<close>, for a mask of the form $2^n - 1$.\<close>

lemma and_pow2_mask: "k AND (2 ^ n - 1) = (k :: int) mod 2 ^ n"
  by (simp add: mask_eq_exp_minus_1 [symmetric] take_bit_eq_mask [symmetric] take_bit_eq_mod)

end
