(* ===== verification/RtTime.thy ===== *)
theory RtTime
  imports RtPrelude "HOL-Library.While_Combinator"
begin

text \<open>
  Time arithmetic of \<^verbatim>\<open>src/cyclictest/cyclictest.c\<close>: \<open>struct timespec\<close>, the
  normalisation \<open>tsnorm\<close>, the comparison \<open>tsgreater\<close>, the differences \<open>calcdiff\<close> and
  \<open>calcdiff_ns\<close>, and the loop that moves a deadline past the current time. The contract of
  a normalisation is the locale \<open>ts_normaliser\<close>; every program that has its own \<open>tsnorm\<close>
  interprets it. \<open>time_t\<close> and \<open>long\<close> are 64 bits wide and the second counts stay far inside
  them, so the fields are integers; the conversions to \<open>int\<close> that the sources write are
  kept.
\<close>

section \<open>struct timespec\<close>

abbreviation (input) USEC_PER_SEC :: int where "USEC_PER_SEC \<equiv> 1000000"
abbreviation (input) NSEC_PER_SEC :: int where "NSEC_PER_SEC \<equiv> 1000000000"

record timespec =
  tv_sec :: int
  tv_nsec :: int

definition ts_ns :: "timespec \<Rightarrow> int" where
  "ts_ns t = NSEC_PER_SEC * tv_sec t + tv_nsec t"

definition ts_normal :: "timespec \<Rightarrow> bool" where
  "ts_normal t \<longleftrightarrow> 0 \<le> tv_nsec t \<and> tv_nsec t < NSEC_PER_SEC"

definition ts_add :: "timespec \<Rightarrow> timespec \<Rightarrow> timespec" where
  "ts_add iv t = t\<lparr>tv_sec := tv_sec t + tv_sec iv, tv_nsec := tv_nsec t + tv_nsec iv\<rparr>"

function tsnorm :: "timespec \<Rightarrow> timespec" where
  "tsnorm ts =
     (if tv_nsec ts \<ge> NSEC_PER_SEC
      then tsnorm (ts\<lparr>tv_nsec := tv_nsec ts - NSEC_PER_SEC, tv_sec := tv_sec ts + 1\<rparr>)
      else ts)"
  by pat_completeness auto
termination
  by (relation "measure (\<lambda>ts. nat (tv_nsec ts))") auto

declare tsnorm.simps [simp del]

definition tsgreater :: "timespec \<Rightarrow> timespec \<Rightarrow> bool" where
  "tsgreater a b \<longleftrightarrow>
     tv_sec a > tv_sec b \<or> (tv_sec a = tv_sec b \<and> tv_nsec a > tv_nsec b)"

definition calcdiff :: "timespec \<Rightarrow> timespec \<Rightarrow> int" where
  "calcdiff t1 t2 =
     (let diff = s64 (USEC_PER_SEC * s32 (s32 (tv_sec t1) - s32 (tv_sec t2)))
      in s64 (diff + s32 (s32 (tv_nsec t1) - s32 (tv_nsec t2)) sdiv 1000))"

definition calcdiff_ns :: "timespec \<Rightarrow> timespec \<Rightarrow> int" where
  "calcdiff_ns t1 t2 =
     (let diff = s64 (NSEC_PER_SEC * s32 (s32 (tv_sec t1) - s32 (tv_sec t2)))
      in s64 (diff + s32 (s32 (tv_nsec t1) - s32 (tv_nsec t2))))"

text \<open>
  The end of the loop of \<open>timerthread\<close>: while the deadline lies in the past, one more
  interval is added. The loop need not stop, so its result is an option.
\<close>

definition catch_up :: "timespec \<Rightarrow> timespec \<Rightarrow> timespec \<Rightarrow> timespec option" where
  "catch_up now interval next =
     while_option (\<lambda>n. tsgreater now n) (\<lambda>n. tsnorm (ts_add interval n)) next"

section \<open>The contract of a normalisation\<close>

lemma ts_ns_add [simp]: "ts_ns (ts_add iv t) = ts_ns t + ts_ns iv"
  by (simp add: ts_ns_def ts_add_def algebra_simps)

lemma ts_normal_inj: "ts_normal a \<Longrightarrow> ts_normal b \<Longrightarrow> ts_ns a = ts_ns b \<Longrightarrow> a = b"
proof -
  assume a: "ts_normal a" and b: "ts_normal b" and eq: "ts_ns a = ts_ns b"
  have "tv_sec a = tv_sec b"
  proof -
    have "ts_ns a div NSEC_PER_SEC = tv_sec a" "ts_ns b div NSEC_PER_SEC = tv_sec b"
      using a b by (auto simp: ts_ns_def ts_normal_def)
    then show ?thesis using eq by simp
  qed
  with eq show "a = b" by (simp add: ts_ns_def)
qed

lemma tsgreater_iff:
  assumes "ts_normal a" and "ts_normal b"
  shows "tsgreater a b \<longleftrightarrow> ts_ns b < ts_ns a"
  using assms unfolding tsgreater_def ts_ns_def ts_normal_def by linarith

locale ts_normaliser =
  fixes norm :: "timespec \<Rightarrow> timespec"
  assumes norm_ns: "ts_ns (norm t) = ts_ns t"
    and norm_normal: "0 \<le> tv_nsec t \<Longrightarrow> ts_normal (norm t)"
begin

lemma norm_eq:
  assumes "0 \<le> tv_nsec t"
  shows "norm t = \<lparr>tv_sec = tv_sec t + tv_nsec t div NSEC_PER_SEC,
                   tv_nsec = tv_nsec t mod NSEC_PER_SEC\<rparr>" (is "_ = ?r")
proof (rule ts_normal_inj)
  show "ts_normal (norm t)" using assms by (rule norm_normal)
  show "ts_normal ?r" by (simp add: ts_normal_def)
  have "ts_ns ?r = NSEC_PER_SEC * tv_sec t +
      (NSEC_PER_SEC * (tv_nsec t div NSEC_PER_SEC) + tv_nsec t mod NSEC_PER_SEC)"
    by (simp add: ts_ns_def algebra_simps)
  also have "\<dots> = ts_ns t" by (simp add: ts_ns_def)
  finally show "ts_ns (norm t) = ts_ns ?r" by (simp add: norm_ns)
qed

lemma norm_id: "ts_normal t \<Longrightarrow> norm t = t"
  using ts_normal_inj [OF norm_normal _ norm_ns, of t] by (simp add: ts_normal_def)

lemma norm_add_normal:
  "ts_normal t \<Longrightarrow> 0 \<le> tv_nsec iv \<Longrightarrow> ts_normal (norm (ts_add iv t))"
  by (rule norm_normal) (simp add: ts_add_def ts_normal_def)

text \<open>Adding a positive interval until the time is not in the past any more stops on the
  first multiple of the interval that is not.\<close>

lemma catch_up_total:
  assumes "ts_normal now" and "ts_normal next" and "0 \<le> tv_nsec iv" and "0 < ts_ns iv"
  shows "\<exists>r k. while_option (\<lambda>n. tsgreater now n) (\<lambda>n. norm (ts_add iv n)) next = Some r \<and>
      ts_normal r \<and> 0 \<le> k \<and> ts_ns r = ts_ns next + k * ts_ns iv \<and> ts_ns now \<le> ts_ns r \<and>
      (k = 0 \<or> ts_ns r - ts_ns iv < ts_ns now)"
  using assms(2)
proof (induction "nat (ts_ns now - ts_ns next)" arbitrary: "next" rule: less_induct)
  case less
  let ?next' = "norm (ts_add iv next)"
  show ?case
  proof (cases "tsgreater now next")
    case False
    then have "ts_ns now \<le> ts_ns next"
      using tsgreater_iff [OF assms(1) less.prems] by simp
    with False less.prems show ?thesis
      by (subst while_option_unfold) (auto intro: exI [of _ 0])
  next
    case True
    then have gt: "ts_ns next < ts_ns now"
      using tsgreater_iff [OF assms(1) less.prems] by simp
    have ns': "ts_ns ?next' = ts_ns next + ts_ns iv" by (simp add: norm_ns)
    have n': "ts_normal ?next'" using less.prems assms(3) by (rule norm_add_normal)
    have "nat (ts_ns now - ts_ns ?next') < nat (ts_ns now - ts_ns next)"
      using gt assms(4) ns' by simp
    from less.hyps [OF this n'] obtain r k where
      r: "while_option (\<lambda>n. tsgreater now n) (\<lambda>n. norm (ts_add iv n)) ?next' = Some r"
        "ts_normal r" "0 \<le> k" "ts_ns r = ts_ns ?next' + k * ts_ns iv" "ts_ns now \<le> ts_ns r"
        "k = 0 \<or> ts_ns r - ts_ns iv < ts_ns now" by blast
    have "while_option (\<lambda>n. tsgreater now n) (\<lambda>n. norm (ts_add iv n)) next = Some r"
      using True r(1) by (subst while_option_unfold) simp
    moreover have "ts_ns r = ts_ns next + (k + 1) * ts_ns iv"
      using r(4) ns' by (simp add: algebra_simps)
    moreover have "ts_ns r - ts_ns iv < ts_ns now"
      using r(4,6) ns' gt by auto
    ultimately show ?thesis using r(2,3,5) by (intro exI [of _ r] exI [of _ "k + 1"]) simp
  qed
qed

end

section \<open>cyclictest's tsnorm and differences\<close>

lemma tsnorm_ns: "ts_ns (tsnorm t) = ts_ns t"
proof (induction t rule: tsnorm.induct)
  case (1 ts)
  show ?case
  proof (cases "tv_nsec ts \<ge> NSEC_PER_SEC")
    case True
    with 1 show ?thesis by (subst tsnorm.simps) (simp add: ts_ns_def)
  next
    case False
    then show ?thesis by (subst tsnorm.simps) simp
  qed
qed

lemma tsnorm_normal: "0 \<le> tv_nsec t \<Longrightarrow> ts_normal (tsnorm t)"
proof (induction t rule: tsnorm.induct)
  case (1 ts)
  show ?case
  proof (cases "tv_nsec ts \<ge> NSEC_PER_SEC")
    case True
    with 1 show ?thesis by (subst tsnorm.simps) simp
  next
    case False
    with 1 show ?thesis by (subst tsnorm.simps) (simp add: ts_normal_def)
  qed
qed

interpretation cyc: ts_normaliser tsnorm
  by unfold_locales (simp_all add: tsnorm_ns tsnorm_normal)

text \<open>
  \<open>tsnorm\<close> carries whole seconds out of the nanoseconds: it computes the quotient and
  the remainder that its subtraction loop stands for.
\<close>

theorem tsnorm_divmod:
  assumes "0 \<le> tv_nsec ts"
  shows "tsnorm ts = \<lparr>tv_sec = tv_sec ts + tv_nsec ts div NSEC_PER_SEC,
                      tv_nsec = tv_nsec ts mod NSEC_PER_SEC\<rparr>"
  using assms by (rule cyc.norm_eq)

theorem tsnorm_divmod_witness:
  "0 \<le> tv_nsec \<lparr>tv_sec = 7, tv_nsec = 2500000000\<rparr> \<and>
   tsnorm \<lparr>tv_sec = 7, tv_nsec = 2500000000\<rparr> = \<lparr>tv_sec = 9, tv_nsec = 500000000\<rparr>"
  using tsnorm_divmod [of "\<lparr>tv_sec = 7, tv_nsec = 2500000000\<rparr>"] by simp

text \<open>The nanosecond parts of normal times never overflow an \<open>int\<close>.\<close>

lemma nsec_diff_s32:
  assumes "ts_normal a" and "ts_normal b"
  shows "s32 (s32 (tv_nsec a) - s32 (tv_nsec b)) = tv_nsec a - tv_nsec b"
proof -
  have "s32 (tv_nsec a) = tv_nsec a" "s32 (tv_nsec b) = tv_nsec b"
    using assms by (auto simp: ts_normal_def intro!: s32_fits)
  then show ?thesis
    using assms by (auto simp: ts_normal_def intro!: s32_fits)
qed

definition sec_ok :: "timespec \<Rightarrow> timespec \<Rightarrow> bool" where
  "sec_ok a b \<longleftrightarrow> \<bar>tv_sec a\<bar> < 2147483648 \<and> \<bar>tv_sec b\<bar> < 2147483648 \<and>
     \<bar>tv_sec a - tv_sec b\<bar> < 2147483648"

lemma sec_diff_s32:
  "sec_ok a b \<Longrightarrow> s32 (s32 (tv_sec a) - s32 (tv_sec b)) = tv_sec a - tv_sec b"
  unfolding sec_ok_def by (subst (2 3) s32_fits) (auto intro!: s32_fits)

lemma calcdiff_ns_exact:
  assumes "ts_normal a" and "ts_normal b" and "sec_ok a b"
  shows "calcdiff_ns a b = ts_ns a - ts_ns b"
proof -
  have 1: "s64 (NSEC_PER_SEC * (tv_sec a - tv_sec b)) = NSEC_PER_SEC * (tv_sec a - tv_sec b)"
    using assms(3) by (intro s64_fits) (auto simp: sec_ok_def)
  have 2: "s64 (ts_ns a - ts_ns b) = ts_ns a - ts_ns b"
    using assms by (intro s64_fits) (auto simp: sec_ok_def ts_ns_def ts_normal_def)
  have "calcdiff_ns a b = s64 (NSEC_PER_SEC * (tv_sec a - tv_sec b) + (tv_nsec a - tv_nsec b))"
    unfolding calcdiff_ns_def Let_def sec_diff_s32 [OF assms(3)] nsec_diff_s32 [OF assms(1,2)] 1
    by (rule refl)
  also have "NSEC_PER_SEC * (tv_sec a - tv_sec b) + (tv_nsec a - tv_nsec b) = ts_ns a - ts_ns b"
    by (simp add: ts_ns_def algebra_simps)
  finally show ?thesis using 2 by simp
qed

lemma calcdiff_value:
  assumes "ts_normal a" and "ts_normal b" and "sec_ok a b"
  shows "calcdiff a b = USEC_PER_SEC * (tv_sec a - tv_sec b) + (tv_nsec a - tv_nsec b) sdiv 1000"
proof -
  have nb: "\<bar>(tv_nsec a - tv_nsec b) sdiv 1000\<bar> \<le> \<bar>tv_nsec a - tv_nsec b\<bar>"
    using sdiv_int_range [of "tv_nsec a - tv_nsec b" 1000] by auto
  have n: "\<bar>tv_nsec a - tv_nsec b\<bar> < NSEC_PER_SEC"
    using assms(1,2) by (auto simp: ts_normal_def)
  have 1: "s64 (USEC_PER_SEC * (tv_sec a - tv_sec b)) = USEC_PER_SEC * (tv_sec a - tv_sec b)"
    using assms(3) by (intro s64_fits) (auto simp: sec_ok_def)
  show ?thesis
    unfolding calcdiff_def Let_def sec_diff_s32 [OF assms(3)] nsec_diff_s32 [OF assms(1,2)] 1
    using nb n assms(3) by (intro s64_fits) (auto simp: sec_ok_def)
qed

lemma calcdiff_exact_us:
  assumes "ts_normal a" and "ts_normal b" and "sec_ok a b"
  shows "\<bar>(ts_ns a - ts_ns b) - 1000 * calcdiff a b\<bar> < 1000"
proof -
  have "(ts_ns a - ts_ns b) - 1000 * calcdiff a b =
      (tv_nsec a - tv_nsec b) - 1000 * ((tv_nsec a - tv_nsec b) sdiv 1000)"
    by (simp add: calcdiff_value [OF assms] ts_ns_def algebra_simps)
  then show ?thesis using sdiv_bounds [of 1000 "tv_nsec a - tv_nsec b"] by simp
qed

text \<open>
  C40: the microsecond difference is the exact difference of the two times rounded by less
  than one microsecond, for normal times whose seconds fit an \<open>int\<close>.
\<close>

theorem calcdiff_accurate:
  assumes "ts_normal a" and "ts_normal b" and "sec_ok a b"
  shows "\<bar>(ts_ns a - ts_ns b) - 1000 * calcdiff a b\<bar> < 1000 \<and> calcdiff_ns a b = ts_ns a - ts_ns b"
  using calcdiff_exact_us [OF assms] calcdiff_ns_exact [OF assms] by simp

theorem calcdiff_accurate_witness:
  "calcdiff \<lparr>tv_sec = 5, tv_nsec = 1000\<rparr> \<lparr>tv_sec = 4, tv_nsec = 999999900\<rparr> = 2 \<and>
   \<bar>(ts_ns \<lparr>tv_sec = 5, tv_nsec = 1000\<rparr> - ts_ns \<lparr>tv_sec = 4, tv_nsec = 999999900\<rparr>)
     - 1000 * calcdiff \<lparr>tv_sec = 5, tv_nsec = 1000\<rparr> \<lparr>tv_sec = 4, tv_nsec = 999999900\<rparr>\<bar> < 1000"
  using calcdiff_accurate [of "\<lparr>tv_sec = 5, tv_nsec = 1000\<rparr>" "\<lparr>tv_sec = 4, tv_nsec = 999999900\<rparr>"]
  by (simp add: ts_normal_def sec_ok_def calcdiff_def signed_divide_int_def)

lemma catch_up_total_cyc:
  assumes "ts_normal now" and "ts_normal next" and "0 \<le> tv_nsec interval" and "0 < ts_ns interval"
  shows "\<exists>r k. catch_up now interval next = Some r \<and> ts_normal r \<and> 0 \<le> k \<and>
      ts_ns r = ts_ns next + k * ts_ns interval \<and> ts_ns now \<le> ts_ns r \<and>
      (k = 0 \<or> ts_ns r - ts_ns interval < ts_ns now)"
  unfolding catch_up_def by (rule cyc.catch_up_total [OF assms])

text \<open>
  With a positive interval the loop that moves the deadline past the current time
  returns, on the grid of the interval and on its first point that is not in the past.
\<close>

theorem catch_up_first_future_slot:
  assumes "ts_normal now" and "ts_normal next" and "0 \<le> tv_nsec interval" and "0 < ts_ns interval"
  shows "\<exists>r k. catch_up now interval next = Some r \<and> ts_normal r \<and> 0 \<le> k \<and>
      ts_ns r = ts_ns next + k * ts_ns interval \<and> ts_ns now \<le> ts_ns r \<and>
      (k = 0 \<or> ts_ns r - ts_ns interval < ts_ns now)"
  by (rule catch_up_total_cyc [OF assms])

theorem catch_up_first_future_slot_witness:
  "\<exists>r k. catch_up \<lparr>tv_sec = 3, tv_nsec = 500\<rparr> \<lparr>tv_sec = 0, tv_nsec = 700000000\<rparr>
       \<lparr>tv_sec = 1, tv_nsec = 0\<rparr> = Some r \<and> ts_normal r \<and> 0 \<le> (k :: int) \<and>
     ts_ns r = 1000000000 + k * 700000000 \<and> 3000000500 \<le> ts_ns r \<and>
     (k = 0 \<or> ts_ns r - 700000000 < 3000000500)"
  using catch_up_first_future_slot [of "\<lparr>tv_sec = 3, tv_nsec = 500\<rparr>" "\<lparr>tv_sec = 1, tv_nsec = 0\<rparr>"
      "\<lparr>tv_sec = 0, tv_nsec = 700000000\<rparr>"]
  by (simp add: ts_normal_def ts_ns_def)

text \<open>
  With a zero interval (which the option parser accepts) the loop never returns once
  the deadline has been missed.
\<close>

theorem catch_up_zero_interval_diverges:
  assumes "ts_normal next" and "tsgreater now next"
  shows "catch_up now \<lparr>tv_sec = 0, tv_nsec = 0\<rparr> next = None"
proof -
  let ?iv = "\<lparr>tv_sec = 0, tv_nsec = 0\<rparr>"
  have fix_point: "tsnorm (ts_add ?iv next) = next"
    using assms(1) by (simp add: ts_add_def cyc.norm_id)
  show ?thesis
  proof (rule ccontr)
    assume "catch_up now ?iv next \<noteq> None"
    then obtain t where t: "while_option (\<lambda>n. tsgreater now n) (\<lambda>n. tsnorm (ts_add ?iv n)) next = Some t"
      unfolding catch_up_def by blast
    have "t = next"
      by (rule while_option_rule [where P = "\<lambda>n. n = next", OF _ t]) (simp_all add: fix_point)
    with while_option_stop [OF t] assms(2) show False by simp
  qed
qed

theorem catch_up_zero_interval_diverges_witness:
  "ts_normal \<lparr>tv_sec = 1, tv_nsec = 5\<rparr> \<and>
   tsgreater \<lparr>tv_sec = 1, tv_nsec = 6\<rparr> \<lparr>tv_sec = 1, tv_nsec = 5\<rparr> \<and>
   catch_up \<lparr>tv_sec = 1, tv_nsec = 6\<rparr> \<lparr>tv_sec = 0, tv_nsec = 0\<rparr> \<lparr>tv_sec = 1, tv_nsec = 5\<rparr> = None"
  using catch_up_zero_interval_diverges [of "\<lparr>tv_sec = 1, tv_nsec = 5\<rparr>" "\<lparr>tv_sec = 1, tv_nsec = 6\<rparr>"]
  by (simp add: ts_normal_def tsgreater_def)

section \<open>The times of \<open>gettimeofday\<close>\<close>

record timeval =
  tvl_sec :: int
  tvl_usec :: int

text \<open>\<open>timersub\<close> of the C library.\<close>

definition timersub :: "timeval \<Rightarrow> timeval \<Rightarrow> timeval" where
  "timersub a b =
     (if tvl_usec a - tvl_usec b < 0
      then \<lparr>tvl_sec = tvl_sec a - tvl_sec b - 1, tvl_usec = tvl_usec a - tvl_usec b + 1000000\<rparr>
      else \<lparr>tvl_sec = tvl_sec a - tvl_sec b, tvl_usec = tvl_usec a - tvl_usec b\<rparr>)"

definition usec_ok :: "int \<Rightarrow> bool" where
  "usec_ok d \<longleftrightarrow> 0 \<le> d \<and> d < 1000000"

definition tv_normal :: "timeval \<Rightarrow> bool" where
  "tv_normal t \<longleftrightarrow> 0 \<le> tvl_usec t \<and> tvl_usec t < 1000000"

lemma timersub_usec:
  "0 \<le> tvl_usec a \<Longrightarrow> tvl_usec a < 1000000 \<Longrightarrow> 0 \<le> tvl_usec b \<Longrightarrow> tvl_usec b < 1000000 \<Longrightarrow>
     usec_ok (tvl_usec (timersub a b)) \<and>
     1000000 * tvl_sec (timersub a b) + tvl_usec (timersub a b) =
       (1000000 * tvl_sec a + tvl_usec a) - (1000000 * tvl_sec b + tvl_usec b)"
  by (auto simp: timersub_def usec_ok_def)

end
