(* ===== verification/CyclicTimer.thy ===== *)
theory CyclicTimer
  imports RtTime "HOL-Library.Monad_Syntax"
begin

text \<open>
  The measuring thread of \<^verbatim>\<open>src/cyclictest/cyclictest.c\<close>, \<open>timerthread\<close>: its parameter
  and statistics blocks, the computation of the first deadline, one iteration of its loop
  (wait for the period, read the clock, record the difference, check the limits, update the
  histogram, advance the deadline), the loop over a sequence of wake-ups, and the clean-up.
  What the kernel returns in an iteration is an input of that iteration; what the thread
  asks of the kernel is a list of calls. An access outside an array and a deadline loop
  that does not return are results of their own.
\<close>

unbundle bit_operations_syntax

section \<open>Parameter and statistics blocks\<close>

abbreviation (input) MODE_CYCLIC :: int where "MODE_CYCLIC \<equiv> 0"
abbreviation (input) MODE_CLOCK_NANOSLEEP :: int where "MODE_CLOCK_NANOSLEEP \<equiv> 1"
abbreviation (input) MODE_SYS_ITIMER :: int where "MODE_SYS_ITIMER \<equiv> 2"
abbreviation (input) MODE_SYS_NANOSLEEP :: int where "MODE_SYS_NANOSLEEP \<equiv> 3"
abbreviation (input) TIMER_RELTIME :: int where "TIMER_RELTIME \<equiv> 0"
abbreviation (input) TIMER_ABSTIME :: int where "TIMER_ABSTIME \<equiv> 1"
abbreviation (input) SCHED_OTHER :: int where "SCHED_OTHER \<equiv> 0"
abbreviation (input) EINTR :: int where "EINTR \<equiv> 4"

record thread_param =
  tp_prio :: int
  tp_policy :: int
  tp_mode :: int
  tp_timermode :: int
  tp_signal :: int
  tp_clock :: int
  tp_max_cycles :: int
  tp_bufmsk :: int
  tp_interval :: int
  tp_cpu :: int
  tp_node :: int
  tp_tnum :: int

text \<open>
  \<open>st_avg\<close> is the sum of the samples; the source keeps it in a \<open>double\<close>, which holds it
  exactly as long as it is below $2^{53}$. A buffer that has not been allocated is empty.
\<close>

record thread_stat =
  st_cycles :: int
  st_cyclesread :: int
  st_min :: int
  st_max :: int
  st_act :: int
  st_avg :: int
  st_values :: "int list"
  st_hist_array :: "int list"
  st_outliers :: "int list"
  st_threadstarted :: int
  st_tid :: int
  st_reduce :: int
  st_redmax :: int
  st_cycleofmax :: int
  st_hist_overflow :: int
  st_num_outliers :: int

text \<open>The options the thread reads, and the variables all threads share.\<close>

record cyc_cfg =
  c_tracelimit :: int
  c_histogram :: int
  c_duration :: int
  c_use_nsecs :: int
  c_refresh_on_max :: int
  c_aligned :: int
  c_secaligned :: int
  c_offset :: int

record cyc_shared =
  sh_shutdown :: int
  sh_break_id :: int
  sh_break_value :: int

datatype tcall =
    NumaRunOnNode int int
  | SetAffinity int
  | WarnAffinity int
  | BlockSignal int
  | TimerCreate int int int
  | SetScheduler int int
  | FatalPriority int int
  | TimerSettime int timespec timespec
  | SetItimer int int int int
  | SigWait
  | ClockNanosleep int int timespec
  | Nanosleep timespec
  | ClockGettime int
  | Warn string
  | CondSignal
  | TraceMark int int
  | TracingOff
  | TimerGetoverrun
  | TimerDelete

section \<open>The first deadline\<close>

definition thread_interval :: "thread_param \<Rightarrow> timespec" where
  "thread_interval par =
     \<lparr>tv_sec = tp_interval par div USEC_PER_SEC,
      tv_nsec = (tp_interval par mod USEC_PER_SEC) * 1000\<rparr>"

text \<open>What thread 0 makes of the clock when the threads start aligned.\<close>

definition align_globalt :: "int \<Rightarrow> timespec \<Rightarrow> timespec" where
  "align_globalt secaligned t =
     (if secaligned \<noteq> 0
      then (if tv_nsec t > 900000000 then t\<lparr>tv_sec := tv_sec t + 2, tv_nsec := 0\<rparr>
            else t\<lparr>tv_sec := tv_sec t + 1, tv_nsec := 0\<rparr>)
      else t)"

text \<open>
  The start time: the shared aligned time, moved by the offset (times the thread number with
  \<open>--aligned\<close>), or this thread's own reading of the clock.
\<close>

definition start_now :: "cyc_cfg \<Rightarrow> thread_param \<Rightarrow> timespec \<Rightarrow> timespec \<Rightarrow> timespec" where
  "start_now cfg par globalt clock =
     (if c_aligned cfg \<noteq> 0 \<or> c_secaligned cfg \<noteq> 0
      then (if c_offset cfg \<noteq> 0
            then (if c_aligned cfg \<noteq> 0
                  then tsnorm (globalt\<lparr>tv_nsec := tv_nsec globalt + s32 (c_offset cfg * tp_tnum par)\<rparr>)
                  else tsnorm (globalt\<lparr>tv_nsec := tv_nsec globalt + c_offset cfg\<rparr>))
            else globalt)
      else clock)"

definition first_deadline :: "timespec \<Rightarrow> timespec \<Rightarrow> timespec" where
  "first_deadline interval now = tsnorm (ts_add interval now)"

definition stop_time :: "cyc_cfg \<Rightarrow> timespec \<Rightarrow> timespec" where
  "stop_time cfg now =
     (if c_duration cfg \<noteq> 0 then now\<lparr>tv_sec := tv_sec now + c_duration cfg\<rparr>
      else \<lparr>tv_sec = 0, tv_nsec = 0\<rparr>)"

text \<open>The calls before the clock is read; \<open>None\<close> after a fatal error.\<close>

definition timer_prologue ::
  "thread_param \<Rightarrow> int \<Rightarrow> int \<Rightarrow> int \<Rightarrow> tcall list \<times> bool" where
  "timer_prologue par tid aff_ret sched_ret =
     (let numa = (if tp_node par \<noteq> -1 then [NumaRunOnNode (tp_node par) (tp_cpu par)] else []);
          aff = (if tp_cpu par \<noteq> -1
                 then SetAffinity (tp_cpu par) # (if aff_ret = -1 then [WarnAffinity (tp_cpu par)] else [])
                 else []);
          sig = [BlockSignal (tp_signal par)];
          tim = (if tp_mode par = MODE_CYCLIC then [TimerCreate (tp_clock par) (tp_signal par) tid] else []);
          sch = [SetScheduler (tp_policy par) (tp_prio par)]
      in if sched_ret \<noteq> 0
         then (numa @ aff @ sig @ tim @ sch @ [FatalPriority (tp_cpu par) (tp_prio par)], False)
         else (numa @ aff @ sig @ tim @ sch, True))"

text \<open>Arming the timer of the mode in use.\<close>

definition arm_timer :: "thread_param \<Rightarrow> timespec \<Rightarrow> timespec \<Rightarrow> tcall list" where
  "arm_timer par interval next =
     (if tp_mode par = MODE_CYCLIC
      then [TimerSettime (tp_timermode par)
              (if tp_timermode par = TIMER_ABSTIME then next else interval) interval]
      else []) @
     (if tp_mode par = MODE_SYS_ITIMER
      then [SetItimer (tv_sec interval) (tv_nsec interval sdiv 1000)
                      (tv_sec interval) (tv_nsec interval sdiv 1000)]
      else [])"

section \<open>One iteration\<close>

text \<open>What the kernel answers in one iteration, and how often others asked for a shutdown.\<close>

record wake =
  wk_shutdown :: int
  wk_sigwait :: int
  wk_clock1_ret :: int
  wk_clock1 :: timespec
  wk_sleep_ret :: int
  wk_sleep_errno :: int
  wk_clock2_ret :: int
  wk_clock2 :: timespec
  wk_overrun :: int

text \<open>
  Waiting for the next period. The new \<open>now\<close> and \<open>next\<close>, or \<open>None\<close> for
  \<open>goto out\<close>, with the calls made.
\<close>

definition warn_unless_eintr :: "int \<Rightarrow> string \<Rightarrow> tcall list" where
  "warn_unless_eintr err msg = (if err \<noteq> EINTR then [Warn msg] else [])"

definition wait_period ::
  "thread_param \<Rightarrow> timespec \<Rightarrow> wake \<Rightarrow> timespec \<Rightarrow> timespec
     \<Rightarrow> tcall list \<times> (timespec \<times> timespec) option" where
  "wait_period par interval w now next =
     (if tp_mode par = MODE_CYCLIC \<or> tp_mode par = MODE_SYS_ITIMER
      then ([SigWait], if wk_sigwait w < 0 then None else Some (now, next))
      else if tp_mode par = MODE_CLOCK_NANOSLEEP
      then (if tp_timermode par = TIMER_ABSTIME
            then if wk_sleep_ret w \<noteq> 0
                 then (ClockNanosleep (tp_clock par) TIMER_ABSTIME next
                         # warn_unless_eintr (wk_sleep_ret w) ''clock_nanosleep failed'', None)
                 else ([ClockNanosleep (tp_clock par) TIMER_ABSTIME next], Some (now, next))
            else if wk_clock1_ret w \<noteq> 0
            then (ClockGettime (tp_clock par)
                    # warn_unless_eintr (wk_clock1_ret w) ''clock_gettime() failed'', None)
            else if wk_sleep_ret w \<noteq> 0
            then (ClockGettime (tp_clock par) # ClockNanosleep (tp_clock par) TIMER_RELTIME interval
                    # warn_unless_eintr (wk_sleep_ret w) ''clock_nanosleep() failed'', None)
            else ([ClockGettime (tp_clock par), ClockNanosleep (tp_clock par) TIMER_RELTIME interval],
                  Some (wk_clock1 w, tsnorm (ts_add interval (wk_clock1 w)))))
      else if tp_mode par = MODE_SYS_NANOSLEEP
      then (if wk_clock1_ret w \<noteq> 0
            then (ClockGettime (tp_clock par)
                    # warn_unless_eintr (wk_clock1_ret w) ''clock_gettime() failed'', None)
            else if wk_sleep_ret w \<noteq> 0
            then (ClockGettime (tp_clock par) # Nanosleep interval
                    # warn_unless_eintr (wk_sleep_errno w) ''nanosleep failed'', None)
            else ([ClockGettime (tp_clock par), Nanosleep interval],
                  Some (wk_clock1 w, tsnorm (ts_add interval (wk_clock1 w)))))
      else ([], Some (now, next)))"

text \<open>
  The latency, an unsigned 64-bit value: a negative difference of the clock functions
  becomes a very large one.
\<close>

definition latency :: "cyc_cfg \<Rightarrow> timespec \<Rightarrow> timespec \<Rightarrow> int" where
  "latency cfg now next =
     (if c_use_nsecs cfg \<noteq> 0 then u64 (calcdiff_ns now next) else u64 (calcdiff now next))"

text \<open>
  Minimum, maximum and sum. The comparisons are unsigned, because \<open>diff\<close> is; the stored
  fields are signed.
\<close>

definition update_minmax :: "int \<Rightarrow> thread_stat \<Rightarrow> thread_stat" where
  "update_minmax diff s =
     (let s1 = (if diff < u64 (st_min s) then s\<lparr>st_min := s64 diff\<rparr> else s);
          s2 = (if diff > u64 (st_max s1) then s1\<lparr>st_max := s64 diff\<rparr> else s1)
      in s2\<lparr>st_avg := st_avg s2 + diff\<rparr>)"

definition signals_refresh :: "cyc_cfg \<Rightarrow> int \<Rightarrow> thread_stat \<Rightarrow> tcall list" where
  "signals_refresh cfg diff s =
     (if diff > u64 (st_max s) \<and> c_refresh_on_max cfg \<noteq> 0 then [CondSignal] else [])"

text \<open>The first thread over the limit leaves its id; every one leaves its value.\<close>

definition record_break :: "int \<Rightarrow> int \<Rightarrow> cyc_shared \<Rightarrow> cyc_shared" where
  "record_break tid diff sh =
     (let sh1 = (if sh_break_id sh = 0 then sh\<lparr>sh_break_id := tid\<rparr> else sh)
      in sh1\<lparr>sh_break_value := diff\<rparr>)"

definition check_tracelimit ::
  "cyc_cfg \<Rightarrow> int \<Rightarrow> int \<Rightarrow> int \<Rightarrow> cyc_shared \<Rightarrow> tcall list \<times> int \<times> cyc_shared" where
  "check_tracelimit cfg tid diff stopped sh =
     (if stopped = 0 \<and> c_tracelimit cfg \<noteq> 0 \<and> diff > u64 (c_tracelimit cfg)
      then ([TraceMark diff (c_tracelimit cfg), TracingOff], stopped + 1,
            record_break tid diff (sh\<lparr>sh_shutdown := sh_shutdown sh + 1\<rparr>))
      else ([], stopped, sh))"

definition store_value :: "thread_param \<Rightarrow> int \<Rightarrow> thread_stat \<Rightarrow> thread_stat option" where
  "store_value par diff s =
     (let s1 = s\<lparr>st_act := s64 diff\<rparr>
      in if tp_bufmsk par \<noteq> 0
         then do { vs \<leftarrow> c_write (st_values s1) (st_cycles s1 AND tp_bufmsk par) (s64 diff);
                   Some (s1\<lparr>st_values := vs\<rparr>) }
         else Some s1)"

definition update_histogram :: "cyc_cfg \<Rightarrow> int \<Rightarrow> thread_stat \<Rightarrow> thread_stat option" where
  "update_histogram cfg diff s =
     (if c_histogram cfg \<noteq> 0
      then if diff \<ge> u64 (c_histogram cfg)
           then let s1 = s\<lparr>st_hist_overflow := st_hist_overflow s + 1\<rparr>
                in if st_num_outliers s1 < c_histogram cfg
                   then do { os \<leftarrow> c_write (st_outliers s1) (st_num_outliers s1) (s64 (st_cycles s1));
                             Some (s1\<lparr>st_outliers := os, st_num_outliers := st_num_outliers s1 + 1\<rparr>) }
                   else Some s1
           else do { n \<leftarrow> c_read (st_hist_array s) diff;
                     h \<leftarrow> c_write (st_hist_array s) diff (n + 1);
                     Some (s\<lparr>st_hist_array := h\<rparr>) }
      else Some s)"

definition next_deadline :: "thread_param \<Rightarrow> timespec \<Rightarrow> wake \<Rightarrow> timespec \<Rightarrow> timespec" where
  "next_deadline par interval w next =
     (let n1 = ts_add interval next;
          n2 = (if tp_mode par = MODE_CYCLIC
                then n1\<lparr>tv_sec := tv_sec n1 + wk_overrun w * tv_sec interval,
                        tv_nsec := tv_nsec n1 + wk_overrun w * tv_nsec interval\<rparr>
                else n1)
      in tsnorm n2)"

record tstate =
  t_now :: timespec
  t_next :: timespec
  t_stopped :: int
  t_stat :: thread_stat
  t_sh :: cyc_shared
  t_log :: "tcall list"

datatype iter_result = Goto_out tstate | Continue tstate | Break tstate | Hangs | Fault

text \<open>
  The body of the \<open>while (!shutdown)\<close> loop: \<open>Goto_out\<close> for its error exits,
  \<open>Break\<close> when the requested number of cycles is reached.
\<close>

definition timer_iter ::
  "cyc_cfg \<Rightarrow> thread_param \<Rightarrow> timespec \<Rightarrow> timespec \<Rightarrow> wake \<Rightarrow> tstate \<Rightarrow> iter_result" where
  "timer_iter cfg par interval stop w t =
     (case wait_period par interval w (t_now t) (t_next t) of
        (log1, None) \<Rightarrow> Goto_out (t\<lparr>t_log := t_log t @ log1\<rparr>)
      | (log1, Some (now1, next1)) \<Rightarrow>
          if wk_clock2_ret w \<noteq> 0
          then Goto_out (t\<lparr>t_log := t_log t @ log1 @ [ClockGettime (tp_clock par)] @
                             warn_unless_eintr (wk_clock2_ret w) ''clock_getttime() failed''\<rparr>)
          else
            let now = wk_clock2 w;
                diff = latency cfg now next1;
                s1 = update_minmax diff (t_stat t);
                log2 = signals_refresh cfg diff (t_stat t);
                sh1 = (if c_duration cfg \<noteq> 0 \<and> calcdiff now stop \<ge> 0
                       then (t_sh t)\<lparr>sh_shutdown := sh_shutdown (t_sh t) + 1\<rparr> else t_sh t);
                (log3, stopped, sh2) = check_tracelimit cfg (st_tid s1) diff (t_stopped t) sh1;
                log4 = (if tp_mode par = MODE_CYCLIC then [TimerGetoverrun] else [])
            in case do { s2 \<leftarrow> store_value par diff s1; update_histogram cfg diff s2 } of
                 None \<Rightarrow> Fault
               | Some s2 \<Rightarrow>
                   let s3 = s2\<lparr>st_cycles := u64 (st_cycles s2 + 1)\<rparr>
                   in case catch_up now interval (next_deadline par interval w next1) of
                        None \<Rightarrow> Hangs
                      | Some next3 \<Rightarrow>
                          let t' = \<lparr>t_now = now, t_next = next3, t_stopped = stopped, t_stat = s3,
                                    t_sh = sh2,
                                    t_log = t_log t @ log1 @ [ClockGettime (tp_clock par)] @ log2 @ log3 @ log4\<rparr>
                          in if tp_max_cycles par \<noteq> 0 \<and> tp_max_cycles par = st_cycles s3
                             then Break t' else Continue t')"

text \<open>The loop over the wake-ups the kernel delivers; \<open>Running\<close> when it has used them up.\<close>

datatype run_result = Exited tstate | Running tstate | RunHangs | RunFault

definition others_shutdown :: "wake \<Rightarrow> tstate \<Rightarrow> tstate" where
  "others_shutdown w t = t\<lparr>t_sh := (t_sh t)\<lparr>sh_shutdown := sh_shutdown (t_sh t) + wk_shutdown w\<rparr>\<rparr>"

lemma others_shutdown_sel [simp]:
  "t_stat (others_shutdown w t) = t_stat t" "t_next (others_shutdown w t) = t_next t"
  "t_now (others_shutdown w t) = t_now t" "t_stopped (others_shutdown w t) = t_stopped t"
  "t_log (others_shutdown w t) = t_log t"
  "sh_shutdown (t_sh (others_shutdown w t)) = sh_shutdown (t_sh t) + wk_shutdown w"
  "sh_break_id (t_sh (others_shutdown w t)) = sh_break_id (t_sh t)"
  by (simp_all add: others_shutdown_def)

fun timer_loop ::
  "cyc_cfg \<Rightarrow> thread_param \<Rightarrow> timespec \<Rightarrow> timespec \<Rightarrow> wake list \<Rightarrow> tstate \<Rightarrow> run_result" where
  "timer_loop cfg par interval stop [] t = Running t"
| "timer_loop cfg par interval stop (w # ws) t =
     (if sh_shutdown (t_sh (others_shutdown w t)) \<noteq> 0 then Exited (others_shutdown w t)
      else case timer_iter cfg par interval stop w (others_shutdown w t) of
             Goto_out t' \<Rightarrow> Exited t'
           | Break t' \<Rightarrow> Exited t'
           | Hangs \<Rightarrow> RunHangs
           | Fault \<Rightarrow> RunFault
           | Continue t' \<Rightarrow> timer_loop cfg par interval stop ws t')"

text \<open>Leaving the thread.\<close>

definition timer_epilogue :: "thread_param \<Rightarrow> tstate \<Rightarrow> tstate" where
  "timer_epilogue par t =
     t\<lparr>t_log := t_log t @
         (if tp_mode par = MODE_CYCLIC then [TimerDelete] else []) @
         (if tp_mode par = MODE_SYS_ITIMER then [SetItimer 0 0 0 0] else []) @
         [SetScheduler SCHED_OTHER 0],
       t_stat := (t_stat t)\<lparr>st_threadstarted := -1\<rparr>\<rparr>"

text \<open>The whole thread function: \<open>None\<close> when it stops the program with a fatal error.\<close>

record start_in =
  si_tid :: int
  si_affinity_ret :: int
  si_sched_ret :: int
  si_clock :: timespec
  si_globalt :: timespec

definition timerthread ::
  "cyc_cfg \<Rightarrow> thread_param \<Rightarrow> start_in \<Rightarrow> wake list \<Rightarrow> thread_stat \<Rightarrow> cyc_shared \<Rightarrow> run_result option" where
  "timerthread cfg par si ws stat sh =
     (let interval = thread_interval par;
          (log0, go) = timer_prologue par (si_tid si) (si_affinity_ret si) (si_sched_ret si);
          stat1 = stat\<lparr>st_tid := si_tid si\<rparr>
      in if \<not> go then None
         else
           let now = start_now cfg par (si_globalt si) (si_clock si);
               next = first_deadline interval now;
               stop = stop_time cfg now;
               t0 = \<lparr>t_now = now, t_next = next, t_stopped = 0,
                     t_stat = stat1\<lparr>st_threadstarted := st_threadstarted stat1 + 1\<rparr>,
                     t_sh = sh, t_log = log0 @ arm_timer par interval next\<rparr>
           in Some (case timer_loop cfg par interval stop ws t0 of
                      Exited t \<Rightarrow> Exited (timer_epilogue par t)
                    | r \<Rightarrow> r))"

section \<open>The statistics block\<close>

definition sample_ok :: "int \<Rightarrow> bool" where
  "sample_ok d \<longleftrightarrow> 0 \<le> d \<and> d < 9223372036854775808"

definition minmax_wf :: "thread_stat \<Rightarrow> bool" where
  "minmax_wf s \<longleftrightarrow> sample_ok (st_min s) \<and> sample_ok (st_max s)"

lemma sample_u64 [c_int]: "sample_ok d \<Longrightarrow> u64 d = d"
  by (rule u64_fits) (auto simp: sample_ok_def)

lemma sample_s64 [c_int]: "sample_ok d \<Longrightarrow> s64 d = d"
  by (rule s64_fits) (auto simp: sample_ok_def)

text \<open>The other operations of an iteration leave the statistics alone.\<close>

lemma update_minmax_frame [simp]:
  "st_cycles (update_minmax d s) = st_cycles s"
  "st_values (update_minmax d s) = st_values s"
  "st_hist_array (update_minmax d s) = st_hist_array s"
  "st_outliers (update_minmax d s) = st_outliers s"
  "st_hist_overflow (update_minmax d s) = st_hist_overflow s"
  "st_num_outliers (update_minmax d s) = st_num_outliers s"
  "st_tid (update_minmax d s) = st_tid s"
  "st_act (update_minmax d s) = st_act s"
  by (simp_all add: update_minmax_def Let_def)

lemma store_value_frame:
  assumes "store_value par d s = Some s'"
  shows "st_cycles s' = st_cycles s" "st_min s' = st_min s" "st_max s' = st_max s"
    "st_avg s' = st_avg s" "st_hist_array s' = st_hist_array s" "st_outliers s' = st_outliers s"
    "st_hist_overflow s' = st_hist_overflow s" "st_num_outliers s' = st_num_outliers s"
    "st_act s' = s64 d" "length (st_values s') = length (st_values s)"
  using assms by (auto simp: store_value_def Let_def split: if_splits Option.bind_splits
      dest: c_write_length)

lemma update_histogram_frame:
  assumes "update_histogram cfg d s = Some s'"
  shows "st_cycles s' = st_cycles s" "st_min s' = st_min s" "st_max s' = st_max s"
    "st_avg s' = st_avg s" "st_values s' = st_values s" "st_act s' = st_act s"
    "length (st_hist_array s') = length (st_hist_array s)"
    "length (st_outliers s') = length (st_outliers s)"
  using assms by (auto simp: update_histogram_def Let_def split: if_splits Option.bind_splits
      dest: c_write_length)

lemmas sample_frames = store_value_frame update_histogram_frame

interpretation cycstat: latency_stats update_minmax st_min st_max st_avg sample_ok minmax_wf
  by unfold_locales
    (auto simp: update_minmax_def Let_def minmax_wf_def c_int min_def max_def)

text \<open>
  Recording samples from the initial block (minimum 1000000, maximum 0, sum 0, as
  \<open>main\<close> sets it) leaves their sum, their maximum, and their minimum capped at 1000000.
\<close>

theorem minmax_of_samples:
  assumes "\<forall>d \<in> set ds. sample_ok d" and "ds \<noteq> []"
    and "st_min s = 1000000" and "st_max s = 0" and "st_avg s = 0"
  shows "st_min (fold update_minmax ds s) = min 1000000 (Min (set ds)) \<and>
    st_max (fold update_minmax ds s) = Max (set ds) \<and>
    st_avg (fold update_minmax ds s) = sum_list ds"
proof -
  have wf: "minmax_wf s" using assms by (simp add: minmax_wf_def sample_ok_def)
  have "fold min ds 1000000 = Min (set (1000000 # ds))" by (simp only: Min.set_eq_fold)
  then have "fold min ds 1000000 = min 1000000 (Min (set ds))" using assms(2) by simp
  moreover have "st_max (fold update_minmax ds s) = Max (set ds)"
    using assms wf by (intro cycstat.fold_mx_Max) (auto simp: sample_ok_def)
  ultimately show ?thesis
    using assms by (simp add: cycstat.fold_stats [OF wf assms(1)])
qed

definition empty_stat :: thread_stat where
  "empty_stat = \<lparr>st_cycles = 0, st_cyclesread = 0, st_min = 1000000, st_max = 0, st_act = 0, st_avg = 0,
     st_values = [], st_hist_array = [], st_outliers = [], st_threadstarted = 1, st_tid = 0,
     st_reduce = 0, st_redmax = 0, st_cycleofmax = 0, st_hist_overflow = 0, st_num_outliers = 0\<rparr>"

theorem minmax_of_samples_witness:
  "st_min (fold update_minmax [12, 7, 40] empty_stat) = 7 \<and>
   st_max (fold update_minmax [12, 7, 40] empty_stat) = 40 \<and>
   st_avg (fold update_minmax [12, 7, 40] empty_stat) = 59"
  using minmax_of_samples [of "[12, 7, 40]" empty_stat]
  by (simp add: sample_ok_def empty_stat_def)

text \<open>
  One negative difference (the clock stepped back, or an early signal) is compared as a
  huge unsigned value: it becomes the maximum, is stored as a negative number, and no later
  latency replaces it.
\<close>

theorem negative_latency_sticks:
  assumes "minmax_wf s" and "n < 0" and "- 9223372036854775808 \<le> n"
    and "\<forall>d \<in> set ds. sample_ok d"
  shows "st_max (fold update_minmax ds (update_minmax (u64 n) s)) = n"
proof -
  have un: "u64 n = n + 18446744073709551616" using assms by (intro u64_neg) auto
  have sn: "s64 (u64 n) = n"
    using assms(2,3) by (simp add: signed_take_bit_take_bit s64_fits)
  have first: "st_max (update_minmax (u64 n) s) = n"
    using assms(1-3) un sn by (auto simp: update_minmax_def Let_def minmax_wf_def c_int sample_ok_def)
  have keep: "st_max (update_minmax d t) = n" if "st_max t = n" "sample_ok d" for d t
    using that un assms(3) by (auto simp: update_minmax_def Let_def sample_ok_def)
  have "st_max (fold update_minmax ds t) = n" if "st_max t = n" for t
    using that assms(4) by (induction ds arbitrary: t) (auto simp: keep)
  with first show ?thesis by blast
qed

theorem negative_latency_sticks_witness:
  "st_max (fold update_minmax [5, 800] (update_minmax (u64 (-3)) empty_stat)) = -3"
  using negative_latency_sticks [of empty_stat "-3" "[5, 800]"]
  by (simp add: minmax_wf_def sample_ok_def empty_stat_def)

end
