(* ===== verification/RtNuma.thy ===== *)
theory RtNuma
  imports RtPrelude "HOL-Library.Monad_Syntax"
begin

text \<open>
  CPU sets: the bit masks of \<^verbatim>\<open>src/cyclictest/rt_numa.h\<close> in the build without libnuma, and
  the functions of \<^verbatim>\<open>src/cyclictest/cyclictest.c\<close> that use them (\<open>is_cpumask_zero\<close>,
  \<open>cpu_for_thread\<close>, \<open>parse_cpumask\<close>); also the allocation wrappers and the CPU-to-node search of
  the build against version 1 of libnuma, whose functions are parameters. An \<open>int\<close> shifted
  out of its range has no defined value in C, so a bit test can be without a result.
\<close>

section \<open>Bit masks\<close>

abbreviation (input) BITS_PER_LONG :: int where "BITS_PER_LONG \<equiv> 64"

record bitmask =
  bm_size :: int
  bm_maskp :: "int list"

text \<open>\<open>1 << n\<close> for an \<open>int\<close>: defined while the result fits.\<close>

definition int_shift1 :: "int \<Rightarrow> int option" where
  "int_shift1 n = (if 0 \<le> n \<and> n < 31 then Some (2 ^ nat n) else None)"

definition rt_numa_bitmask_isbitset :: "bitmask \<Rightarrow> int \<Rightarrow> bool option" where
  "rt_numa_bitmask_isbitset bm i =
     do { w \<leftarrow> c_read (bm_maskp bm) (i div BITS_PER_LONG);
          b \<leftarrow> int_shift1 (i mod BITS_PER_LONG);
          Some ((w AND b) \<noteq> 0) }"

text \<open>The mask of the one CPU the string names; no mask for a CPU that does not exist or
  when an allocation (\<open>mallocs\<close> says which succeed) fails.\<close>

definition rt_numa_parse_cpustring :: "bool \<times> bool \<Rightarrow> string \<Rightarrow> int \<Rightarrow> bitmask option" where
  "rt_numa_parse_cpustring mallocs s max_cpus =
     (let cpu = atoi s
      in if 0 \<le> cpu \<and> cpu < max_cpus \<and> fst mallocs \<and> snd mallocs
         then let nlongs = (max_cpus + BITS_PER_LONG - 1) div BITS_PER_LONG;
                  longs = replicate (nat nlongs) 0
              in Some \<lparr>bm_size = max_cpus,
                       bm_maskp = longs[nat (cpu div BITS_PER_LONG) :=
                         (longs ! nat (cpu div BITS_PER_LONG)) OR 2 ^ nat (cpu mod BITS_PER_LONG)]\<rparr>
         else None)"

text \<open>The loop of \<open>rt_numa_bitmask_count\<close>, over the bits it still has to look at.\<close>

fun count_bits :: "bitmask \<Rightarrow> int list \<Rightarrow> int \<Rightarrow> int option" where
  "count_bits bm [] n = Some n"
| "count_bits bm (i # is) n =
     do { b \<leftarrow> rt_numa_bitmask_isbitset bm i;
          count_bits bm is (if b then n + 1 else n) }"

definition rt_numa_bitmask_count :: "bitmask \<Rightarrow> int option" where
  "rt_numa_bitmask_count bm = count_bits bm [0..bm_size bm - 1] 0"

definition is_cpumask_zero :: "bitmask \<Rightarrow> bool option" where
  "is_cpumask_zero bm = do { n \<leftarrow> rt_numa_bitmask_count bm; Some (n = 0) }"

text \<open>The search of \<open>cpu_for_thread\<close> for the \<open>m\<close>-th set bit; CPU 0 when there is none.\<close>

fun find_cpu :: "bitmask \<Rightarrow> int list \<Rightarrow> int \<Rightarrow> int \<Rightarrow> int option" where
  "find_cpu bm [] cpu m = Some 0"
| "find_cpu bm (i # is) cpu m =
     do { b \<leftarrow> rt_numa_bitmask_isbitset bm i;
          if b then (if cpu = m then Some i else find_cpu bm is (cpu + 1) m)
          else find_cpu bm is cpu m }"

definition cpu_for_thread :: "bitmask \<Rightarrow> int \<Rightarrow> int \<Rightarrow> int option" where
  "cpu_for_thread bm thread_num max_cpus =
     do { num_cpus \<leftarrow> rt_numa_bitmask_count bm;
          if num_cpus = 0 then None
          else find_cpu bm [0..max_cpus - 1] 0 (u32 thread_num mod num_cpus) }"

text \<open>\<open>parse_cpumask\<close>: the mask, or \<open>None\<close> inside when the program shows its usage and exits.\<close>

definition parse_cpumask :: "bool \<times> bool \<Rightarrow> string \<Rightarrow> int \<Rightarrow> bitmask option option" where
  "parse_cpumask mallocs s max_cpus =
     (case rt_numa_parse_cpustring mallocs s max_cpus of
        None \<Rightarrow> Some None
      | Some bm \<Rightarrow>
          do { z \<leftarrow> is_cpumask_zero bm;
               Some (if z then None else Some bm) })"

section \<open>Wrappers for libnuma\<close>

text \<open>
  The wrappers of the build with libnuma: which allocator takes a request, and the search for
  the node of a CPU of the version 1 interface. \<open>node_to_cpus\<close> is libnuma's function
  (\<open>None\<close> when it fails, else the bytes of the node's CPU mask).
\<close>

datatype mem_op = Malloc int | NumaAllocOnNode int int | Free | NumaFree int

definition threadalloc :: "int \<Rightarrow> int \<Rightarrow> mem_op" where
  "threadalloc sz node = (if node = -1 then Malloc sz else NumaAllocOnNode sz node)"

definition threadfree :: "int \<Rightarrow> int \<Rightarrow> mem_op" where
  "threadfree sz node = (if node = -1 then Free else NumaFree sz)"

fun search_node :: "(int \<Rightarrow> int list option) \<Rightarrow> int \<Rightarrow> int \<Rightarrow> int list \<Rightarrow> int" where
  "search_node node_to_cpus idx bitno [] = -1"
| "search_node node_to_cpus idx bitno (node # nodes) =
     (case node_to_cpus node of
        None \<Rightarrow> -1
      | Some cpumask \<Rightarrow>
          if (cpumask ! nat idx) AND (2 ^ nat bitno) \<noteq> 0 then node
          else search_node node_to_cpus idx bitno nodes)"

definition numa_node_of_cpu_v1 :: "(int \<Rightarrow> int list option) \<Rightarrow> int \<Rightarrow> int \<Rightarrow> int \<Rightarrow> int" where
  "numa_node_of_cpu_v1 node_to_cpus max_node max_cpus cpu =
     (if cpu > max_cpus then -1
      else search_node node_to_cpus (cpu sdiv 8) (cpu smod 8) [0..max_node])"

text \<open>\<open>numa_on_and_available\<close>: whether the program goes on.\<close>

definition numa_on_and_available :: "int \<Rightarrow> int \<Rightarrow> bool" where
  "numa_on_and_available numa available \<longleftrightarrow> \<not> (numa \<noteq> 0 \<and> available = -1)"

section \<open>What the masks mean\<close>

text \<open>The CPUs of a mask, in ascending order, for machines of at most 31 CPUs.\<close>

definition mask_cpus :: "bitmask \<Rightarrow> int list" where
  "mask_cpus bm = filter (\<lambda>i. bit (bm_maskp bm ! 0) (nat i)) [0..bm_size bm - 1]"

definition small_mask :: "bitmask \<Rightarrow> bool" where
  "small_mask bm \<longleftrightarrow> 0 \<le> bm_size bm \<and> bm_size bm \<le> 31 \<and> bm_maskp bm \<noteq> []"

lemma isbitset_bit:
  assumes "small_mask bm" and "0 \<le> i" and "i < bm_size bm"
  shows "rt_numa_bitmask_isbitset bm i = Some (bit (bm_maskp bm ! 0) (nat i))"
proof -
  have i: "0 \<le> i" "i < 31" using assms by (auto simp: small_mask_def)
  then have dm: "i div 64 = 0" "i mod 64 = i" by auto
  have "c_read (bm_maskp bm) 0 = Some (bm_maskp bm ! 0)"
    using assms(1) by (simp add: small_mask_def)
  moreover have "(bm_maskp bm ! 0) AND 2 ^ nat i \<noteq> 0 \<longleftrightarrow> bit (bm_maskp bm ! 0) (nat i)"
    by (simp add: and_exp_eq_0_iff_not_bit)
  ultimately show ?thesis
    using i by (simp add: rt_numa_bitmask_isbitset_def dm int_shift1_def)
qed

lemma count_bits_filter:
  assumes "small_mask bm" and "\<forall>i \<in> set is. 0 \<le> i \<and> i < bm_size bm"
  shows "count_bits bm is n =
    Some (n + int (length (filter (\<lambda>i. bit (bm_maskp bm ! 0) (nat i)) is)))"
  using assms(2) by (induction "is" arbitrary: n) (auto simp: isbitset_bit [OF assms(1)])

lemma bitmask_count_mask_cpus:
  "small_mask bm \<Longrightarrow> rt_numa_bitmask_count bm = Some (int (length (mask_cpus bm)))"
  by (simp add: rt_numa_bitmask_count_def mask_cpus_def count_bits_filter)

lemma find_cpu_filter:
  assumes "small_mask bm" and "\<forall>i \<in> set is. 0 \<le> i \<and> i < bm_size bm"
    and "cpu \<le> m" and "m - cpu < int (length (filter (\<lambda>i. bit (bm_maskp bm ! 0) (nat i)) is))"
  shows "find_cpu bm is cpu m =
    Some (filter (\<lambda>i. bit (bm_maskp bm ! 0) (nat i)) is ! nat (m - cpu))"
  using assms(2-)
proof (induction "is" arbitrary: cpu)
  case Nil
  then show ?case by simp
next
  case (Cons i "is")
  note b = isbitset_bit [OF assms(1), of i]
  show ?case
  proof (cases "bit (bm_maskp bm ! 0) (nat i) \<and> cpu \<noteq> m")
    case True
    then have "nat (m - cpu) = Suc (nat (m - (cpu + 1)))" using Cons.prems(2) by linarith
    then show ?thesis using True Cons b by simp
  next
    case False
    then show ?thesis using Cons b by (cases "bit (bm_maskp bm ! 0) (nat i)") simp_all
  qed
qed

text \<open>
  On a machine of at most 31 CPUs, the threads are distributed over the CPUs of the mask
  round robin in ascending order.
\<close>

theorem cpu_for_thread_round_robin:
  assumes "small_mask bm" and "bm_size bm = max_cpus" and "mask_cpus bm \<noteq> []"
    and "0 \<le> t" and "t < 2147483648"
  shows "cpu_for_thread bm t max_cpus = Some (mask_cpus bm ! nat (t mod int (length (mask_cpus bm))))"
proof -
  let ?n = "int (length (mask_cpus bm))"
  have "find_cpu bm [0..max_cpus - 1] 0 (t mod ?n) = Some (mask_cpus bm ! nat (t mod ?n - 0))"
    unfolding mask_cpus_def using assms(1-3)
    by (subst find_cpu_filter) (auto simp: mask_cpus_def)
  then show ?thesis
    using assms by (simp add: cpu_for_thread_def bitmask_count_mask_cpus u32_fits)
qed

theorem cpu_for_thread_round_robin_witness:
  "cpu_for_thread \<lparr>bm_size = 8, bm_maskp = [22]\<rparr> 4 8 = Some 2"
proof -
  have "mask_cpus \<lparr>bm_size = 8, bm_maskp = [22]\<rparr> = [1, 2, 4]" by code_simp
  then show ?thesis
    using cpu_for_thread_round_robin [of "\<lparr>bm_size = 8, bm_maskp = [22]\<rparr>" 8 4]
    by (simp add: small_mask_def)
qed

lemma parse_cpustring_mask:
  assumes "0 \<le> atoi s" and "atoi s < max_cpus" and "max_cpus \<le> 31"
  shows "rt_numa_parse_cpustring (True, True) s max_cpus =
    Some \<lparr>bm_size = max_cpus, bm_maskp = [2 ^ nat (atoi s)]\<rparr>"
proof -
  have "atoi s div 64 = 0" "atoi s mod 64 = atoi s" "(63 + max_cpus) div 64 = 1"
    using assms by auto
  then show ?thesis using assms by (simp add: rt_numa_parse_cpustring_def Let_def)
qed

lemma mask_cpus_single:
  "0 \<le> c \<Longrightarrow> c < m \<Longrightarrow> mask_cpus \<lparr>bm_size = m, bm_maskp = [2 ^ nat c]\<rparr> = [c]"
proof -
  assume c: "0 \<le> c" "c < m"
  have "filter (\<lambda>i. bit (2 ^ nat c :: int) (nat i)) [0..m - 1] = filter (\<lambda>i. i = c) [0..m - 1]"
    using c by (intro filter_cong) (auto simp: bit_exp_iff nat_eq_iff)
  moreover have split: "[0..m - 1] = [0..c - 1] @ c # [c + 1..m - 1]"
    using c upto_split1 [of 0 c "m - 1"] upto_rec1 [of c "m - 1"] by simp
  have "filter (\<lambda>i. i = c) [0..m - 1] = [c]"
    unfolding split by (auto simp: filter_empty_conv)
  ultimately show ?thesis by (simp add: mask_cpus_def)
qed

lemma parse_cpumask_total:
  assumes "max_cpus \<le> 31" and "0 \<le> atoi s" and "atoi s < max_cpus"
  shows "parse_cpumask (True, True) s max_cpus = Some (Some \<lparr>bm_size = max_cpus, bm_maskp = [2 ^ nat (atoi s)]\<rparr>)"
proof -
  let ?m = "\<lparr>bm_size = max_cpus, bm_maskp = [2 ^ nat (atoi s)]\<rparr>"
  have "small_mask ?m" using assms by (simp add: small_mask_def)
  then show ?thesis
    using parse_cpustring_mask [of s max_cpus] assms bitmask_count_mask_cpus [of ?m]
      mask_cpus_single [of "atoi s" max_cpus]
    by (simp add: parse_cpumask_def is_cpumask_zero_def)
qed

text \<open>
  \<open>--affinity=CPU\<close> pins every thread to that CPU, on machines of at most 31 CPUs; a CPU that does not
  exist makes the program show its usage.
\<close>

theorem affinity_option_pins:
  assumes "max_cpus \<le> 31" and "0 \<le> t" and "t < 2147483648"
  shows "if 0 \<le> atoi s \<and> atoi s < max_cpus
    then \<exists>bm. parse_cpumask (True, True) s max_cpus = Some (Some bm) \<and>
      cpu_for_thread bm t max_cpus = Some (atoi s)
    else parse_cpumask (True, True) s max_cpus = Some None"
proof (cases "0 \<le> atoi s \<and> atoi s < max_cpus")
  case False
  then show ?thesis by (auto simp: parse_cpumask_def rt_numa_parse_cpustring_def Let_def)
next
  case True
  let ?m = "\<lparr>bm_size = max_cpus, bm_maskp = [2 ^ nat (atoi s)]\<rparr>"
  have sm: "small_mask ?m" using True assms(1) by (simp add: small_mask_def)
  have cpus: "mask_cpus ?m = [atoi s]" using True by (intro mask_cpus_single) auto
  have "find_cpu ?m [0..max_cpus - 1] 0 0 = Some (mask_cpus ?m ! nat (0 - 0))"
    unfolding mask_cpus_def using sm cpus by (subst find_cpu_filter) (auto simp: mask_cpus_def)
  then have "cpu_for_thread ?m t max_cpus = Some (atoi s)"
    using assms sm cpus by (simp add: cpu_for_thread_def bitmask_count_mask_cpus)
  then show ?thesis using True parse_cpumask_total [OF assms(1), of s] by auto
qed

theorem affinity_option_pins_witness:
  "\<exists>bm. parse_cpumask (True, True) ''5'' 8 = Some (Some bm) \<and> cpu_for_thread bm 3 8 = Some 5"
proof -
  have "atoi ''5'' = 5" by code_simp
  then show ?thesis using affinity_option_pins [of 8 3 "''5''"] by simp
qed

lemma count_bits_undefined: "31 \<in> set is \<Longrightarrow> count_bits bm is n = None"
proof (induction "is" arbitrary: n)
  case Nil
  then show ?case by simp
next
  case (Cons i "is")
  have "rt_numa_bitmask_isbitset bm 31 = None"
    by (simp add: rt_numa_bitmask_isbitset_def int_shift1_def split: Option.bind_splits)
  then show ?case using Cons by (auto split: Option.bind_splits)
qed

text \<open>
  On larger machines the count of the mask's CPUs tests bit 31 with an \<open>int\<close> shift, which is
  undefined, so no mask gets past \<open>parse_cpumask\<close> with a defined result.
\<close>

theorem cpumask_undefined_above_31:
  assumes "31 < max_cpus" and "0 \<le> atoi s" and "atoi s < max_cpus"
  shows "parse_cpumask (True, True) s max_cpus = None"
proof -
  have "31 \<in> set [0..max_cpus - 1]" using assms(1) by simp
  then have "rt_numa_bitmask_count \<lparr>bm_size = max_cpus, bm_maskp = m\<rparr> = None" for m
    by (simp add: rt_numa_bitmask_count_def count_bits_undefined)
  with assms show ?thesis
    by (simp add: parse_cpumask_def is_cpumask_zero_def rt_numa_parse_cpustring_def Let_def)
qed

theorem cpumask_undefined_above_31_witness: "parse_cpumask (True, True) ''0'' 64 = None"
proof -
  have "atoi ''0'' = 0" by code_simp
  then show ?thesis using cpumask_undefined_above_31 [of 64 "''0''"] by simp
qed

end
