(* ===== verification/CyclicOptions.thy ===== *)
theory CyclicOptions
  imports CyclicTimer RtNuma
begin

text \<open>
  cyclictest's command line and start-up checks (\<^verbatim>\<open>src/cyclictest/cyclictest.c\<close>):
  \<open>parse_time_string\<close>, \<open>handlepolicy\<close> and \<open>policyname\<close>, \<open>process_options\<close> with the checks
  that follow its loop, \<open>check_kernel\<close>, \<open>check_timer\<close>, and the real-time priority with
  its limit (\<open>raise_soft_prio\<close>, \<open>setscheduler\<close>). What \<open>getopt_long\<close> delivers is the input:
  for each option its argument and the next word of the command line.
\<close>

section \<open>Small parsers\<close>

abbreviation (input) SCHED_FIFO :: int where "SCHED_FIFO \<equiv> 1"
abbreviation (input) SCHED_RR :: int where "SCHED_RR \<equiv> 2"
abbreviation (input) SCHED_BATCH :: int where "SCHED_BATCH \<equiv> 3"
abbreviation (input) SCHED_IDLE :: int where "SCHED_IDLE \<equiv> 5"

text \<open>The suffix is the first character after the number; \<open>int\<close> arithmetic.\<close>

definition parse_time_string :: "string \<Rightarrow> int" where
  "parse_time_string val =
     (case strtol10 val of
        (n, rest, _) \<Rightarrow>
          let t = s32 n
          in case rest of
               [] \<Rightarrow> t
             | c # _ \<Rightarrow>
                 if c \<in> {CHR ''m'', CHR ''M''} then s32 (t * 60)
                 else if c \<in> {CHR ''h'', CHR ''H''} then s32 (t * (60 * 60))
                 else if c \<in> {CHR ''d'', CHR ''D''} then s32 (t * (24 * 60 * 60))
                 else t)"

definition handlepolicy :: "string \<Rightarrow> int" where
  "handlepolicy polname =
     (if strncasecmp_eq polname ''other'' 5 then SCHED_OTHER
      else if strncasecmp_eq polname ''batch'' 5 then SCHED_BATCH
      else if strncasecmp_eq polname ''idle'' 4 then SCHED_IDLE
      else if strncasecmp_eq polname ''fifo'' 4 then SCHED_FIFO
      else if strncasecmp_eq polname ''rr'' 2 then SCHED_RR
      else SCHED_OTHER)"

definition policyname :: "int \<Rightarrow> string" where
  "policyname policy =
     (if policy = SCHED_OTHER then ''other''
      else if policy = SCHED_FIFO then ''fifo''
      else if policy = SCHED_RR then ''rr''
      else if policy = SCHED_BATCH then ''batch''
      else if policy = SCHED_IDLE then ''idle''
      else [])"

section \<open>The priority and its limit\<close>

text \<open>
  The kernel's side: the limits of \<open>RLIMIT_RTPRIO\<close> (\<open>None\<close> for infinity), whether the calls on them fail, the
  policy's highest priority (-1 for an unknown policy), and the error number with which
  \<open>sched_setscheduler\<close> answers at a given soft limit (0 for success). \<open>setrlimit\<close> makes the
  value it is given the soft limit.
\<close>

record rt_kernel =
  k_policy_max :: int
  k_getrlimit_errno :: int
  k_setrlimit_errno :: int
  k_soft :: "int option"
  k_hard :: "int option"

definition raise_soft_prio :: "int \<Rightarrow> int \<Rightarrow> rt_kernel \<Rightarrow> int \<times> rt_kernel" where
  "raise_soft_prio errno prio k =
     (if k_policy_max k = -1 then (errno, k)
      else if k_getrlimit_errno k \<noteq> 0 then (k_getrlimit_errno k, k)
      else
        let soft_max = (case k_soft k of None \<Rightarrow> k_policy_max k | Some v \<Rightarrow> v);
            hard_max = (case k_hard k of None \<Rightarrow> k_policy_max k | Some v \<Rightarrow> v)
        in if prio > soft_max \<and> prio \<le> hard_max
           then if k_setrlimit_errno k \<noteq> 0 then (k_setrlimit_errno k, k)
                else (0, k\<lparr>k_soft := Some prio\<rparr>)
           else (-1, k))"

abbreviation (input) EPERM :: int where "EPERM \<equiv> 1"
abbreviation (input) EINVAL :: int where "EINVAL \<equiv> 22"

text \<open>
  The retry loop; the error of an unknown policy is \<open>EINVAL\<close>. The first component counts the
  attempts.
\<close>

function setscheduler :: "(int option \<Rightarrow> int) \<Rightarrow> int \<Rightarrow> rt_kernel \<Rightarrow> nat \<times> int \<times> rt_kernel" where
  "setscheduler sched prio k =
     (let err = sched (k_soft k)
      in if err = EPERM
         then case raise_soft_prio EINVAL prio k of
                (err1, k1) \<Rightarrow>
                  if err1 = 0
                  then (case setscheduler sched prio k1 of (n, r) \<Rightarrow> (Suc n, r))
                  else (1, err, k1)
         else (1, err, k))"
  by pat_completeness auto
termination
  by (relation "measure (\<lambda>(_, prio, k).
      if prio > (case k_soft k of None \<Rightarrow> k_policy_max k | Some v \<Rightarrow> v) then 1 else 0 :: nat)")
    (auto simp: raise_soft_prio_def Let_def split: if_splits)

declare setscheduler.simps [simp del]

lemma raise_soft_prio_ok:
  assumes "raise_soft_prio errno prio k = (0, k')" and "errno \<noteq> 0"
  shows "k_soft k' = Some prio \<and> prio > (case k_soft k of None \<Rightarrow> k_policy_max k | Some v \<Rightarrow> v) \<and>
    prio \<le> (case k_hard k of None \<Rightarrow> k_policy_max k | Some v \<Rightarrow> v)"
  using assms by (auto simp: raise_soft_prio_def Let_def split: if_splits)

text \<open>After one raise of the limit a second one does nothing.\<close>

lemma raise_soft_prio_twice:
  assumes "raise_soft_prio errno prio k = (0, k')" and "errno \<noteq> 0"
  shows "fst (raise_soft_prio errno prio k') \<noteq> 0"
  using assms raise_soft_prio_ok [OF assms] by (auto simp: raise_soft_prio_def Let_def)

text \<open>
  Setting the scheduler takes at most two attempts; the second is made exactly when the
  first is refused for lack of permission and the soft limit can be raised to the priority
  within the hard limit, and the outcome is that of the last attempt.
\<close>

theorem setscheduler_two_attempts:
  shows "\<exists>n err k'. setscheduler sched prio k = (n, err, k') \<and> (n = 1 \<or> n = 2) \<and> err = sched (k_soft k') \<and>
    (n = 2 \<longleftrightarrow> sched (k_soft k) = EPERM \<and> fst (raise_soft_prio EINVAL prio k) = 0) \<and>
    (n = 2 \<longrightarrow> k_soft k' = Some prio)"
proof (cases "sched (k_soft k) = EPERM \<and> fst (raise_soft_prio EINVAL prio k) = 0")
  case False
  have same: "k_soft (snd (raise_soft_prio EINVAL prio k)) = k_soft k"
    if "fst (raise_soft_prio EINVAL prio k) \<noteq> 0"
    using that by (auto simp: raise_soft_prio_def Let_def)
  show ?thesis using False same
    by (subst setscheduler.simps) (auto simp: Let_def split: prod.splits)
next
  case True
  obtain k1 where k1: "raise_soft_prio EINVAL prio k = (0, k1)" using True by (metis prod.collapse)
  have s: "k_soft k1 = Some prio" using raise_soft_prio_ok [OF k1] by simp
  have no: "fst (raise_soft_prio EINVAL prio k1) \<noteq> 0" using raise_soft_prio_twice [OF k1] by simp
  have same: "k_soft (snd (raise_soft_prio EINVAL prio k1)) = k_soft k1"
    using no by (auto simp: raise_soft_prio_def Let_def)
  have "\<exists>k'. setscheduler sched prio k1 = (1, sched (k_soft k1), k') \<and> k_soft k' = k_soft k1"
    using no same by (subst setscheduler.simps) (auto simp: Let_def split: prod.splits)
  then obtain k' where "setscheduler sched prio k1 = (1, sched (k_soft k1), k')" "k_soft k' = k_soft k1"
    by blast
  then have "setscheduler sched prio k = (2, sched (k_soft k'), k') \<and> k_soft k' = Some prio"
    using True k1 s by (subst setscheduler.simps) simp
  with True show ?thesis by auto
qed

definition ex_kernel :: rt_kernel where
  "ex_kernel = \<lparr>k_policy_max = 99, k_getrlimit_errno = 0, k_setrlimit_errno = 0, k_soft = Some 10, k_hard = Some 90\<rparr>"

theorem setscheduler_two_attempts_witness:
  "\<exists>n err k'. setscheduler (\<lambda>soft. if soft = Some 80 then 0 else EPERM) 80 ex_kernel = (n, err, k') \<and>
     n = 2 \<and> err = 0"
proof -
  have "fst (raise_soft_prio EINVAL 80 ex_kernel) = 0"
    by (simp add: raise_soft_prio_def ex_kernel_def)
  then show ?thesis
    using setscheduler_two_attempts [of "\<lambda>soft. if soft = Some 80 then 0 else EPERM" 80 ex_kernel]
    by (auto simp: ex_kernel_def)
qed

section \<open>The time string and the policy names\<close>

text \<open>
  What \<open>policyname\<close> prints for a policy is read back by \<open>handlepolicy\<close> as that policy,
  for the five policies the program knows.
\<close>

theorem policy_name_round_trip:
  "policy \<in> {SCHED_OTHER, SCHED_FIFO, SCHED_RR, SCHED_BATCH, SCHED_IDLE} \<Longrightarrow>
     handlepolicy (policyname policy) = policy"
  by (auto simp: handlepolicy_def policyname_def strncasecmp_eq_def tolower_def)

theorem policy_name_round_trip_witness: "handlepolicy ''batch'' = SCHED_BATCH"
  using policy_name_round_trip [of SCHED_BATCH] by (simp add: policyname_def)

section \<open>The option state\<close>

abbreviation (input) MODE_SYS_OFFSET :: int where "MODE_SYS_OFFSET \<equiv> 2"
abbreviation (input) DEFAULT_INTERVAL :: int where "DEFAULT_INTERVAL \<equiv> 1000"
abbreviation (input) DEFAULT_DISTANCE :: int where "DEFAULT_DISTANCE \<equiv> 500"
abbreviation (input) HIST_MAX :: int where "HIST_MAX \<equiv> 1000000"
abbreviation (input) MAX_PATH :: nat where "MAX_PATH \<equiv> 256"

datatype tracetype = NOTRACE | CTXTSWITCH | IRQSOFF | PREEMPTOFF | PREEMPTIRQSOFF | WAKEUP | WAKEUPRT
  | LATENCY | FUNCTION | CUSTOM

datatype affinity_mode = AFFINITY_UNSPECIFIED | AFFINITY_SPECIFIED | AFFINITY_USEALL

text \<open>The static variables of the program that options set, in four groups.\<close>

record trace_opts =
  o_tracelimit :: int
  o_tracetype :: tracetype
  o_enable_events :: int
  o_ftrace :: int
  o_tracer :: string
  o_traceopts :: "string list"
  o_notrace :: int
  o_procprefix :: bool

record time_opts =
  o_clocksel :: int
  o_distance :: int
  o_interval :: int
  o_duration :: int
  o_timermode :: int
  o_use_nanosleep :: int
  o_use_system :: int
  o_use_nsecs :: int
  o_aligned :: int
  o_secaligned :: int
  o_offset :: int
  o_max_cycles :: int
  o_check_resolution :: int

record sched_opts =
  o_priority :: int
  o_policy :: int
  o_priospread :: int
  o_num_threads :: int
  o_smp :: int
  o_setaffinity :: affinity_mode
  o_affinity_mask :: "bitmask option"
  o_option_affinity :: int
  o_lockall :: int
  o_laptop :: int
  o_latency_target :: int

record out_opts =
  o_verbose :: int
  o_quiet :: int
  o_oscope :: int
  o_histogram :: int
  o_histofall :: int
  o_refresh_on_max :: int
  o_use_fifo :: int
  o_fifopath :: string
  o_ct_debug :: int
  o_unbuffered :: int

record options =
  po_tr :: trace_opts
  po_ti :: time_opts
  po_sc :: sched_opts
  po_ou :: out_opts

definition default_options :: options where
  "default_options =
     \<lparr>po_tr = \<lparr>o_tracelimit = 0, o_tracetype = NOTRACE, o_enable_events = 0, o_ftrace = 0, o_tracer = [],
               o_traceopts = [], o_notrace = 0, o_procprefix = False\<rparr>,
      po_ti = \<lparr>o_clocksel = 0, o_distance = -1, o_interval = DEFAULT_INTERVAL, o_duration = 0,
               o_timermode = TIMER_ABSTIME, o_use_nanosleep = 0, o_use_system = 0, o_use_nsecs = 0,
               o_aligned = 0, o_secaligned = 0, o_offset = 0, o_max_cycles = 0, o_check_resolution = 0\<rparr>,
      po_sc = \<lparr>o_priority = 0, o_policy = SCHED_OTHER, o_priospread = 0, o_num_threads = 1, o_smp = 0,
               o_setaffinity = AFFINITY_UNSPECIFIED, o_affinity_mask = None, o_option_affinity = 0,
               o_lockall = 0, o_laptop = 0, o_latency_target = 0\<rparr>,
      po_ou = \<lparr>o_verbose = 0, o_quiet = 0, o_oscope = 1, o_histogram = 0, o_histofall = 0,
               o_refresh_on_max = 0, o_use_fifo = 0, o_fifopath = [], o_ct_debug = 0, o_unbuffered = 0\<rparr>\<rparr>"

text \<open>The options of the \<open>switch\<close>, and what \<open>getopt_long\<close> delivers with one.\<close>

datatype copt =
    OPT_AFFINITY | OPT_ALIGNED | OPT_BREAKTRACE | OPT_PREEMPTIRQ | OPT_CLOCK | OPT_CONTEXT | OPT_DISTANCE
  | OPT_DURATION | OPT_EVENT | OPT_FTRACE | OPT_FIFO | OPT_HISTOFALL | OPT_HISTOGRAM | OPT_INTERVAL
  | OPT_IRQSOFF | OPT_LOOPS | OPT_MLOCKALL | OPT_REFRESH | OPT_NANOSLEEP | OPT_NSECS | OPT_OSCOPE
  | OPT_TRACEOPT | OPT_PRIORITY | OPT_PREEMPTOFF | OPT_QUIET | OPT_RELATIVE | OPT_RESOLUTION
  | OPT_SECALIGNED | OPT_SYSTEM | OPT_SMP | OPT_THREADS | OPT_TRACER | OPT_UNBUFFERED | OPT_NUMA
  | OPT_VERBOSE | OPT_WAKEUP | OPT_WAKEUPRT | OPT_HELP | OPT_PRIOSPREAD | OPT_LATENCY | OPT_NOTRACE
  | OPT_POLICY | OPT_DBGCYCLIC | OPT_LAPTOP

record opt_event =
  oe_opt :: copt
  oe_arg :: "string option"
  oe_next :: "string option"

text \<open>
  How option processing ends the program: the usage text with its exit status, a fatal error,
  or an operation without a defined result.
\<close>

datatype opt_exit = Usage int | OptFatal string | OptUndefined

type_synonym opt_result = "opt_exit + options"

definition upd_tr :: "(trace_opts \<Rightarrow> trace_opts) \<Rightarrow> options \<Rightarrow> opt_result" where
  "upd_tr f p = Inr (p\<lparr>po_tr := f (po_tr p)\<rparr>)"
definition upd_ti :: "(time_opts \<Rightarrow> time_opts) \<Rightarrow> options \<Rightarrow> opt_result" where
  "upd_ti f p = Inr (p\<lparr>po_ti := f (po_ti p)\<rparr>)"
definition upd_sc :: "(sched_opts \<Rightarrow> sched_opts) \<Rightarrow> options \<Rightarrow> opt_result" where
  "upd_sc f p = Inr (p\<lparr>po_sc := f (po_sc p)\<rparr>)"
definition upd_ou :: "(out_opts \<Rightarrow> out_opts) \<Rightarrow> options \<Rightarrow> opt_result" where
  "upd_ou f p = Inr (p\<lparr>po_ou := f (po_ou p)\<rparr>)"

lemmas upd_defs = upd_tr_def upd_ti_def upd_sc_def upd_ou_def

text \<open>An optional argument may be the next word, if that reads as a number other than 0.\<close>

definition optional_number :: "opt_event \<Rightarrow> int option" where
  "optional_number e =
     (case oe_arg e of
        Some a \<Rightarrow> Some (atoi a)
      | None \<Rightarrow>
          (case oe_next e of
             Some a \<Rightarrow> if atoi a \<noteq> 0 then Some (atoi a) else None
           | None \<Rightarrow> None))"

definition opt_affinity :: "bool \<times> bool \<Rightarrow> int \<Rightarrow> opt_event \<Rightarrow> options \<Rightarrow> opt_result" where
  "opt_affinity mallocs max_cpus e p =
     (let p1 = p\<lparr>po_sc := (po_sc p)\<lparr>o_option_affinity := 1\<rparr>\<rparr>;
          use = (\<lambda>s. case parse_cpumask mallocs s max_cpus of
                       None \<Rightarrow> Inl OptUndefined
                     | Some None \<Rightarrow> Inl (Usage 1)
                     | Some (Some m) \<Rightarrow>
                         upd_sc (\<lambda>sc. sc\<lparr>o_affinity_mask := Some m, o_setaffinity := AFFINITY_SPECIFIED\<rparr>) p1)
      in if o_smp (po_sc p) \<noteq> 0 then Inr p1
         else case oe_arg e of
                Some a \<Rightarrow> use a
              | None \<Rightarrow>
                  (case oe_next e of
                     Some a \<Rightarrow> if atoi a \<noteq> 0 then use a
                               else upd_sc (\<lambda>sc. sc\<lparr>o_setaffinity := AFFINITY_USEALL\<rparr>) p1
                   | None \<Rightarrow> upd_sc (\<lambda>sc. sc\<lparr>o_setaffinity := AFFINITY_USEALL\<rparr>) p1))"

definition opt_offset :: "opt_event \<Rightarrow> int" where
  "opt_offset e = (case optional_number e of Some n \<Rightarrow> s32 (n * 1000) | None \<Rightarrow> 0)"

definition opt_threads :: "int \<Rightarrow> opt_event \<Rightarrow> options \<Rightarrow> opt_result" where
  "opt_threads max_cpus e p =
     (if o_smp (po_sc p) \<noteq> 0 then Inr p
      else upd_sc (\<lambda>sc. sc\<lparr>o_num_threads :=
             (case optional_number e of Some n \<Rightarrow> n | None \<Rightarrow> max_cpus)\<rparr>) p)"

text \<open>The two tracers that become one when both are asked for.\<close>

definition opt_off_tracer :: "tracetype \<Rightarrow> tracetype \<Rightarrow> string \<Rightarrow> trace_opts \<Rightarrow> trace_opts" where
  "opt_off_tracer other this nm t =
     (if o_tracetype t = other
      then t\<lparr>o_tracetype := PREEMPTIRQSOFF, o_tracer := ''preemptirqsoff''\<rparr>
      else t\<lparr>o_tracetype := this, o_tracer := nm\<rparr>)"

text \<open>Copying the path of the fifo is not limited to the buffer it goes into.\<close>

definition opt_fifo :: "string \<Rightarrow> options \<Rightarrow> opt_result" where
  "opt_fifo a p =
     (if length a > MAX_PATH then Inl OptUndefined
      else upd_ou (\<lambda>ou. ou\<lparr>o_use_fifo := 1,
             o_fifopath := a @ drop (length a) (o_fifopath ou)\<rparr>) p)"

definition set_priority :: "int \<Rightarrow> sched_opts \<Rightarrow> sched_opts" where
  "set_priority n sc =
     (let sc1 = sc\<lparr>o_priority := n\<rparr>
      in if o_policy sc1 \<noteq> SCHED_FIFO \<and> o_policy sc1 \<noteq> SCHED_RR then sc1\<lparr>o_policy := SCHED_FIFO\<rparr> else sc1)"

section \<open>process_options\<close>

definition req_arg :: "opt_event \<Rightarrow> (string \<Rightarrow> opt_result) \<Rightarrow> opt_result" where
  "req_arg e f = (case oe_arg e of None \<Rightarrow> Inl OptUndefined | Some a \<Rightarrow> f a)"

text \<open>The cases of the switch from \<open>--tracer\<close> on, and the options that have only a long name.\<close>

definition late_option :: "opt_event \<Rightarrow> options \<Rightarrow> opt_result" where
  "late_option e p =
     (case oe_opt e of
        OPT_TRACER \<Rightarrow> req_arg e (\<lambda>a. upd_tr (\<lambda>t. t\<lparr>o_tracetype := CUSTOM, o_tracer := take MAX_PATH a\<rparr>) p)
      | OPT_UNBUFFERED \<Rightarrow> upd_ou (\<lambda>u. u\<lparr>o_unbuffered := 1\<rparr>) p
      | OPT_NUMA \<Rightarrow>
          if o_smp (po_sc p) \<noteq> 0 then Inl (OptFatal ''numa and smp options are mutually exclusive'') else Inr p
      | OPT_VERBOSE \<Rightarrow> upd_ou (\<lambda>u. u\<lparr>o_verbose := 1\<rparr>) p
      | OPT_WAKEUP \<Rightarrow> upd_tr (\<lambda>t. t\<lparr>o_tracetype := WAKEUP\<rparr>) p
      | OPT_WAKEUPRT \<Rightarrow> upd_tr (\<lambda>t. t\<lparr>o_tracetype := WAKEUPRT\<rparr>) p
      | OPT_HELP \<Rightarrow> Inl (Usage 0)
      | OPT_PRIOSPREAD \<Rightarrow> upd_sc (\<lambda>sc. sc\<lparr>o_priospread := 1\<rparr>) p
      | OPT_LATENCY \<Rightarrow> req_arg e (\<lambda>a. upd_sc (\<lambda>sc. sc\<lparr>o_latency_target := (if atoi a < 0 then 0 else atoi a)\<rparr>) p)
      | OPT_NOTRACE \<Rightarrow> upd_tr (\<lambda>t. t\<lparr>o_notrace := 1\<rparr>) p
      | OPT_POLICY \<Rightarrow> req_arg e (\<lambda>a. upd_sc (\<lambda>sc. sc\<lparr>o_policy := handlepolicy a\<rparr>) p)
      | OPT_DBGCYCLIC \<Rightarrow> upd_ou (\<lambda>u. u\<lparr>o_ct_debug := 1\<rparr>) p
      | OPT_LAPTOP \<Rightarrow> upd_sc (\<lambda>sc. sc\<lparr>o_laptop := 1\<rparr>) p
      | _ \<Rightarrow> Inr p)"

definition process_option :: "bool \<times> bool \<Rightarrow> int \<Rightarrow> opt_event \<Rightarrow> options \<Rightarrow> opt_result" where
  "process_option mallocs max_cpus e p =
     (case oe_opt e of
        OPT_AFFINITY \<Rightarrow> opt_affinity mallocs max_cpus e p
      | OPT_ALIGNED \<Rightarrow> upd_ti (\<lambda>t. t\<lparr>o_aligned := 1, o_offset := opt_offset e\<rparr>) p
      | OPT_BREAKTRACE \<Rightarrow> req_arg e (\<lambda>a. upd_tr (\<lambda>t. t\<lparr>o_tracelimit := atoi a\<rparr>) p)
      | OPT_PREEMPTIRQ \<Rightarrow> upd_tr (\<lambda>t. t\<lparr>o_tracetype := PREEMPTIRQSOFF\<rparr>) p
      | OPT_CLOCK \<Rightarrow> req_arg e (\<lambda>a. upd_ti (\<lambda>t. t\<lparr>o_clocksel := atoi a\<rparr>) p)
      | OPT_CONTEXT \<Rightarrow> upd_tr (\<lambda>t. t\<lparr>o_tracetype := CTXTSWITCH\<rparr>) p
      | OPT_DISTANCE \<Rightarrow> req_arg e (\<lambda>a. upd_ti (\<lambda>t. t\<lparr>o_distance := atoi a\<rparr>) p)
      | OPT_DURATION \<Rightarrow> req_arg e (\<lambda>a. upd_ti (\<lambda>t. t\<lparr>o_duration := parse_time_string a\<rparr>) p)
      | OPT_EVENT \<Rightarrow> upd_tr (\<lambda>t. t\<lparr>o_enable_events := 1\<rparr>) p
      | OPT_FTRACE \<Rightarrow> upd_tr (\<lambda>t. t\<lparr>o_tracetype := FUNCTION, o_ftrace := 1\<rparr>) p
      | OPT_FIFO \<Rightarrow> req_arg e (\<lambda>a. opt_fifo a p)
      | OPT_HISTOFALL \<Rightarrow> req_arg e (\<lambda>a. upd_ou (\<lambda>u. u\<lparr>o_histofall := 1, o_histogram := atoi a\<rparr>) p)
      | OPT_HISTOGRAM \<Rightarrow> req_arg e (\<lambda>a. upd_ou (\<lambda>u. u\<lparr>o_histogram := atoi a\<rparr>) p)
      | OPT_INTERVAL \<Rightarrow> req_arg e (\<lambda>a. upd_ti (\<lambda>t. t\<lparr>o_interval := atoi a\<rparr>) p)
      | OPT_IRQSOFF \<Rightarrow> upd_tr (opt_off_tracer PREEMPTOFF IRQSOFF ''irqsoff'') p
      | OPT_LOOPS \<Rightarrow> req_arg e (\<lambda>a. upd_ti (\<lambda>t. t\<lparr>o_max_cycles := atoi a\<rparr>) p)
      | OPT_MLOCKALL \<Rightarrow> upd_sc (\<lambda>sc. sc\<lparr>o_lockall := 1\<rparr>) p
      | OPT_REFRESH \<Rightarrow> upd_ou (\<lambda>u. u\<lparr>o_refresh_on_max := 1\<rparr>) p
      | OPT_NANOSLEEP \<Rightarrow> upd_ti (\<lambda>t. t\<lparr>o_use_nanosleep := MODE_CLOCK_NANOSLEEP\<rparr>) p
      | OPT_NSECS \<Rightarrow> upd_ti (\<lambda>t. t\<lparr>o_use_nsecs := 1\<rparr>) p
      | OPT_OSCOPE \<Rightarrow> req_arg e (\<lambda>a. upd_ou (\<lambda>u. u\<lparr>o_oscope := atoi a\<rparr>) p)
      | OPT_TRACEOPT \<Rightarrow> req_arg e (\<lambda>a. upd_tr (\<lambda>t. t\<lparr>o_traceopts := o_traceopts t @ [a]\<rparr>) p)
      | OPT_PRIORITY \<Rightarrow> req_arg e (\<lambda>a. upd_sc (set_priority (atoi a)) p)
      | OPT_PREEMPTOFF \<Rightarrow> upd_tr (opt_off_tracer IRQSOFF PREEMPTOFF ''preemptoff'') p
      | OPT_QUIET \<Rightarrow> upd_ou (\<lambda>u. u\<lparr>o_quiet := 1\<rparr>) p
      | OPT_RELATIVE \<Rightarrow> upd_ti (\<lambda>t. t\<lparr>o_timermode := TIMER_RELTIME\<rparr>) p
      | OPT_RESOLUTION \<Rightarrow> upd_ti (\<lambda>t. t\<lparr>o_check_resolution := 1\<rparr>) p
      | OPT_SECALIGNED \<Rightarrow> upd_ti (\<lambda>t. t\<lparr>o_secaligned := 1, o_offset := opt_offset e\<rparr>) p
      | OPT_SYSTEM \<Rightarrow> upd_ti (\<lambda>t. t\<lparr>o_use_system := MODE_SYS_OFFSET\<rparr>) p
      | OPT_SMP \<Rightarrow>
          Inr (p\<lparr>po_sc := (po_sc p)\<lparr>o_smp := 1, o_num_threads := max_cpus, o_setaffinity := AFFINITY_USEALL\<rparr>,
                 po_ti := (po_ti p)\<lparr>o_use_nanosleep := MODE_CLOCK_NANOSLEEP\<rparr>\<rparr>)
      | OPT_THREADS \<Rightarrow> opt_threads max_cpus e p
      | _ \<Rightarrow> late_option e p)"

text \<open>The loop stops at the first option that ends the program.\<close>

fun option_loop :: "bool \<times> bool \<Rightarrow> int \<Rightarrow> opt_event list \<Rightarrow> options \<Rightarrow> opt_result" where
  "option_loop mallocs max_cpus [] p = Inr p"
| "option_loop mallocs max_cpus (e # es) p =
     (case process_option mallocs max_cpus e p of
        Inl x \<Rightarrow> Inl x
      | Inr p1 \<Rightarrow> option_loop mallocs max_cpus es p1)"

text \<open>
  The checks after the loop, on the values as the code changes them. \<open>clocksel\<close> is compared with
  the size of the array it indexes.
\<close>

definition fix_priority :: "sched_opts \<Rightarrow> sched_opts" where
  "fix_priority sc =
     (let s1 = (if o_priospread sc \<noteq> 0 \<and> o_priority sc = 0 then sc\<lparr>o_priority := o_num_threads sc + 1\<rparr> else sc);
          s2 = (if o_priority s1 \<noteq> 0 \<and> o_policy s1 \<noteq> SCHED_FIFO \<and> o_policy s1 \<noteq> SCHED_RR
                then s1\<lparr>o_policy := SCHED_FIFO\<rparr> else s1)
      in if (o_policy s2 = SCHED_FIFO \<or> o_policy s2 = SCHED_RR) \<and> o_priority s2 = 0
         then s2\<lparr>o_priority := o_num_threads s2 + 1\<rparr> else s2)"

definition options_error :: "options \<Rightarrow> bool" where
  "options_error p \<longleftrightarrow>
     o_clocksel (po_ti p) < 0 \<or> o_clocksel (po_ti p) > 2 \<or>
     o_oscope (po_ou p) < 1 \<or> (o_oscope (po_ou p) > 1 \<and> o_verbose (po_ou p) = 0) \<or>
     o_histogram (po_ou p) < 0 \<or>
     o_priority (po_sc p) < 0 \<or> o_priority (po_sc p) > 99 \<or>
     o_num_threads (po_sc p) < 1 \<or>
     (o_aligned (po_ti p) \<noteq> 0 \<and> o_secaligned (po_ti p) \<noteq> 0)"

definition check_options :: "options \<Rightarrow> opt_result" where
  "check_options p =
     (if options_error p then Inl (Usage 1)
      else Inr (p\<lparr>po_tr := (if o_tracelimit (po_tr p) \<noteq> 0 then (po_tr p)\<lparr>o_procprefix := True\<rparr> else po_tr p),
                  po_ou := (if o_histogram (po_ou p) > HIST_MAX
                            then (po_ou p)\<lparr>o_histogram := HIST_MAX\<rparr> else po_ou p),
                  po_ti := (if o_distance (po_ti p) = -1
                            then (po_ti p)\<lparr>o_distance := DEFAULT_DISTANCE\<rparr> else po_ti p),
                  po_sc := fix_priority (po_sc p)\<rparr>))"

definition process_options :: "bool \<times> bool \<Rightarrow> int \<Rightarrow> opt_event list \<Rightarrow> opt_result" where
  "process_options mallocs max_cpus es =
     (case option_loop mallocs max_cpus es default_options of
        Inl x \<Rightarrow> Inl x
      | Inr p \<Rightarrow> check_options p)"

section \<open>check_kernel and check_timer\<close>

datatype kernel_version = KV_NOT_SUPPORTED | KV_26_LT18 | KV_26_LT24 | KV_26_33 | KV_30

text \<open>
  The version of the running kernel, and the names of its tracer and options files if the
  version sets them. \<open>sscanf\<close> is expected to have found three numbers.
\<close>

definition check_kernel ::
  "(int \<times> int \<times> int) option \<Rightarrow> kernel_version \<times> (string \<times> string) option" where
  "check_kernel release =
     (case release of
        None \<Rightarrow> (KV_NOT_SUPPORTED, None)
      | Some (maj, mnr, sub) \<Rightarrow>
          if maj = 2 \<and> mnr = 6
          then if sub < 18 then (KV_26_LT18, None)
               else if sub < 24 then (KV_26_LT24, None)
               else if sub < 28 then (KV_26_33, Some (''ftrace'', ''iter_ctrl''))
               else (KV_26_33, Some (''function'', ''trace_options''))
          else if maj \<ge> 3 then (KV_30, Some (''function'', ''trace_options''))
          else (KV_NOT_SUPPORTED, None))"

definition check_timer :: "int \<Rightarrow> int \<times> int \<Rightarrow> int" where
  "check_timer getres_ret res =
     (if getres_ret \<noteq> 0 then 1 else if fst res \<noteq> 0 \<or> snd res \<noteq> 1 then 1 else 0)"

section \<open>What accepted options guarantee\<close>

lemma fix_priority_frame [simp]:
  "o_num_threads (fix_priority sc) = o_num_threads sc" "o_priospread (fix_priority sc) = o_priospread sc"
  "o_setaffinity (fix_priority sc) = o_setaffinity sc" "o_affinity_mask (fix_priority sc) = o_affinity_mask sc"
  by (simp_all add: fix_priority_def Let_def)

definition options_ok :: "options \<Rightarrow> bool" where
  "options_ok p \<longleftrightarrow>
     0 \<le> o_clocksel (po_ti p) \<and> o_clocksel (po_ti p) \<le> 2 \<and> 1 \<le> o_oscope (po_ou p) \<and>
     (o_verbose (po_ou p) = 0 \<longrightarrow> o_oscope (po_ou p) = 1) \<and>
     0 \<le> o_histogram (po_ou p) \<and> o_histogram (po_ou p) \<le> HIST_MAX \<and> o_distance (po_ti p) \<noteq> -1 \<and>
     1 \<le> o_num_threads (po_sc p) \<and>
     (o_policy (po_sc p) \<in> {SCHED_FIFO, SCHED_RR} \<longleftrightarrow> 0 < o_priority (po_sc p)) \<and>
     (o_priority (po_sc p) \<le> 99 \<or> o_priority (po_sc p) = o_num_threads (po_sc p) + 1) \<and>
     \<not> (o_aligned (po_ti p) \<noteq> 0 \<and> o_secaligned (po_ti p) \<noteq> 0)"

lemma check_options_ok:
  assumes "check_options p = Inr q"
  shows "options_ok q"
proof -
  have ne: "\<not> options_error p" and q: "q = p\<lparr>po_tr := po_tr q, po_ou := po_ou q, po_ti := po_ti q,
      po_sc := fix_priority (po_sc p)\<rparr>"
    and ou: "po_ou q = (if o_histogram (po_ou p) > HIST_MAX then (po_ou p)\<lparr>o_histogram := HIST_MAX\<rparr> else po_ou p)"
    and ti: "po_ti q = (if o_distance (po_ti p) = -1 then (po_ti p)\<lparr>o_distance := DEFAULT_DISTANCE\<rparr> else po_ti p)"
    using assms by (auto simp: check_options_def split: if_splits)
  have sc: "po_sc q = fix_priority (po_sc p)" by (subst q) simp
  have "(o_policy (po_sc q) \<in> {SCHED_FIFO, SCHED_RR} \<longleftrightarrow> 0 < o_priority (po_sc q)) \<and>
     (o_priority (po_sc q) \<le> 99 \<or> o_priority (po_sc q) = o_num_threads (po_sc q) + 1)"
    using ne unfolding sc by (auto simp: fix_priority_def Let_def options_error_def)
  moreover have "1 \<le> o_num_threads (po_sc q)" using ne unfolding sc by (simp add: options_error_def)
  ultimately show ?thesis
    using ne by (auto simp: options_ok_def ou ti options_error_def)
qed

text \<open>
  C39: command lines that the program accepts satisfy what the rest of it relies on: a real-time
  policy exactly with a positive priority, at least one thread, a histogram within its bound,
  a reduction of at least 1. The priority is at most 99 unless it was defaulted to one more
  than the number of threads.
\<close>

theorem accepted_options_ok:
  assumes "process_options mallocs max_cpus es = Inr p"
  shows "options_ok p"
  using assms check_options_ok by (auto simp: process_options_def split: sum.splits)

theorem accepted_options_ok_witness:
  "\<exists>p. process_options (True, True) 4
         [\<lparr>oe_opt = OPT_SMP, oe_arg = None, oe_next = None\<rparr>, \<lparr>oe_opt = OPT_PRIORITY, oe_arg = Some ''80'', oe_next = None\<rparr>] = Inr p \<and>
     options_ok p \<and> o_priority (po_sc p) = 80 \<and> o_num_threads (po_sc p) = 4"
proof -
  have n: "atoi ''80'' = 80" by code_simp
  have "\<exists>p. process_options (True, True) 4
         [\<lparr>oe_opt = OPT_SMP, oe_arg = None, oe_next = None\<rparr>, \<lparr>oe_opt = OPT_PRIORITY, oe_arg = Some ''80'', oe_next = None\<rparr>] = Inr p \<and>
     o_priority (po_sc p) = 80 \<and> o_num_threads (po_sc p) = 4"
    by (simp add: process_options_def process_option_def late_option_def req_arg_def upd_defs set_priority_def n
        check_options_def options_error_def fix_priority_def default_options_def Let_def)
  then show ?thesis using accepted_options_ok by blast
qed

text \<open>
  The defaulted priority is not checked: with a real-time policy and no priority, 99 or
  more threads make the program go on with a priority that no real-time policy has.
\<close>

theorem default_priority_unchecked:
  assumes "99 \<le> atoi n"
  shows "\<exists>p. process_options (True, True) max_cpus
      [\<lparr>oe_opt = OPT_THREADS, oe_arg = Some n, oe_next = None\<rparr>, \<lparr>oe_opt = OPT_POLICY, oe_arg = Some ''fifo'', oe_next = None\<rparr>] = Inr p \<and>
    o_priority (po_sc p) = atoi n + 1 \<and> o_priority (po_sc p) > 99"
proof -
  have "handlepolicy ''fifo'' = SCHED_FIFO" by code_simp
  then show ?thesis using assms
    by (simp add: process_options_def process_option_def late_option_def req_arg_def upd_defs opt_threads_def optional_number_def
        check_options_def options_error_def fix_priority_def default_options_def Let_def)
qed

theorem default_priority_unchecked_witness:
  "\<exists>p. process_options (True, True) 4
      [\<lparr>oe_opt = OPT_THREADS, oe_arg = Some ''120'', oe_next = None\<rparr>, \<lparr>oe_opt = OPT_POLICY, oe_arg = Some ''fifo'', oe_next = None\<rparr>] = Inr p \<and>
    o_priority (po_sc p) = 121"
proof -
  have "atoi ''120'' = 120" by code_simp
  then show ?thesis using default_priority_unchecked [of "''120''" 4] by auto
qed

text \<open>
  \<open>-a 0\<close>, with the number as a word of its own, does not pin the threads to CPU 0: the
  program takes the word for an absent argument and spreads the threads over all CPUs, while
  \<open>--affinity=0\<close> pins them.
\<close>

theorem affinity_zero_word_spreads:
  assumes "atoi z = 0" and "0 < max_cpus" and "max_cpus \<le> 31"
  shows "(\<exists>p. process_options (True, True) max_cpus
        [\<lparr>oe_opt = OPT_AFFINITY, oe_arg = None, oe_next = Some z\<rparr>] = Inr p \<and> o_setaffinity (po_sc p) = AFFINITY_USEALL) \<and>
    (\<exists>p. process_options (True, True) max_cpus
        [\<lparr>oe_opt = OPT_AFFINITY, oe_arg = Some z, oe_next = None\<rparr>] = Inr p \<and> o_setaffinity (po_sc p) = AFFINITY_SPECIFIED)"
proof -
  obtain m where "parse_cpumask (True, True) z max_cpus = Some (Some m)"
    using parse_cpumask_total [of max_cpus z] assms by auto
  then show ?thesis using assms(1)
    by (simp add: process_options_def process_option_def late_option_def opt_affinity_def upd_defs
        check_options_def options_error_def default_options_def Let_def)
qed

theorem affinity_zero_word_spreads_witness:
  "\<exists>p. process_options (True, True) 4
        [\<lparr>oe_opt = OPT_AFFINITY, oe_arg = None, oe_next = Some ''0''\<rparr>] = Inr p \<and> o_setaffinity (po_sc p) = AFFINITY_USEALL"
proof -
  have "atoi ''0'' = 0" by code_simp
  then show ?thesis using affinity_zero_word_spreads [of "''0''" 4] by simp
qed

end
