(* ===== verification/RtUtils.thy ===== *)
theory RtUtils
  imports RtPrelude "HOL-Library.Monad_Syntax" "HOL-Library.Sublist"
begin

text \<open>
  The shared library \<^verbatim>\<open>src/lib/rt-utils.c\<close>: where debugfs is mounted, the list of tracers and
  the test whether a tracer exists, event switches, the privilege check, and the policy names.
  Files and system calls are inputs: the mount table as its parsed lines, the tracer file as the
  chunks \<open>fread\<close> delivers, and for each call what it returns.
\<close>

section \<open>debugfs\<close>

abbreviation (input) MAXPATH :: nat where "MAXPATH \<equiv> 256"

text \<open>
  The mount table is a list of directory and type. \<open>fscanf\<close> stores up to 256 characters and a
  terminator in a buffer of 256 bytes; so long a directory has no defined result, nor has a
  result that does not fit the buffer.
\<close>

fun scan_mounts :: "(string \<times> string) list \<Rightarrow> string option option" where
  "scan_mounts [] = Some None"
| "scan_mounts ((dir, type) # ms) =
     (if length dir \<ge> MAXPATH \<or> length type > 99 then None
      else if type = ''debugfs'' \<or> (dir = ''/sys/kernel/debug'' \<and> type = ''systemd'') then Some (Some dir)
      else scan_mounts ms)"

definition get_debugfileprefix ::
  "string \<Rightarrow> (string \<Rightarrow> bool) \<Rightarrow> (string \<times> string) list option \<Rightarrow> string option" where
  "get_debugfileprefix cached is_dir mounts =
     (if cached \<noteq> [] then Some cached
      else if is_dir ''/sys/kernel/debug/tracing'' then Some ''/sys/kernel/debug/tracing/''
      else if is_dir ''/debug/tracing'' then Some ''/debug/tracing/''
      else case mounts of
             None \<Rightarrow> Some []
           | Some ms \<Rightarrow>
               do { found \<leftarrow> scan_mounts ms;
                    case found of
                      None \<Rightarrow> Some []
                    | Some dir \<Rightarrow>
                        if length dir + length ''/tracing/'' < MAXPATH then Some (dir @ ''/tracing/'') else None })"

text \<open>A text printed to a buffer of \<open>MAX_PATH\<close> characters without a bound: \<open>None\<close> when it does not fit with its end.\<close>

definition path_buffer :: "string \<Rightarrow> string option" where
  "path_buffer p = (if length p < MAXPATH then Some p else None)"

datatype mount_result = AlreadyMounted | Mounted string | MountFailed string

definition mount_debugfs :: "string \<Rightarrow> string option \<Rightarrow> (string \<Rightarrow> int) \<Rightarrow> mount_result option" where
  "mount_debugfs prfx path system =
     (if prfx \<noteq> [] then Some AlreadyMounted
      else let mountpoint = (case path of None \<Rightarrow> ''/sys/kernel/debug'' | Some p \<Rightarrow> p)
           in case path_buffer (''mount -t debugfs debugfs '' @ mountpoint) of
                None \<Rightarrow> None
              | Some cmd \<Rightarrow> Some (if system cmd \<noteq> 0 then MountFailed cmd else Mounted cmd))"

section \<open>Tracers\<close>

definition is_sep :: "char \<Rightarrow> bool" where
  "is_sep c \<longleftrightarrow> c \<in> {CHR '' '', CHR 0x09, CHR 0x0A, CHR 0x0D}"

text \<open>What \<open>strtok\<close> finds: the maximal runs of characters that are not separators.\<close>

function tokens :: "string \<Rightarrow> string list" where
  "tokens s =
     (case dropWhile is_sep s of
        [] \<Rightarrow> []
      | c # cs \<Rightarrow> (c # takeWhile (\<lambda>c. \<not> is_sep c) cs) # tokens (dropWhile (\<lambda>c. \<not> is_sep c) cs))"
  by pat_completeness auto
termination
proof (relation "measure length", goal_cases)
  case 1
  show ?case by simp
next
  case (2 s c cs)
  have "length (dropWhile (\<lambda>c. \<not> is_sep c) cs) \<le> length cs" by (rule length_dropWhile_le)
  also have "\<dots> < length (dropWhile is_sep s)" by (simp add: 2)
  also have "\<dots> \<le> length s" by (rule length_dropWhile_le)
  finally show ?case by simp
qed

declare tokens.simps [simp del]

text \<open>
  Reading the tracer file. The buffer is grown before a chunk is stored if the chunk does not
  fit, but the write position keeps pointing into the old buffer: storing is defined only while
  a growth leaves the buffer where it is (\<open>moves\<close>). The list is then what \<open>strtok\<close> finds;
  no tracer at all is a list of one null pointer, which the search dereferences.
\<close>

abbreviation (input) CHUNKSZ :: nat where "CHUNKSZ \<equiv> 1024"

fun read_chunks :: "(nat \<Rightarrow> bool) \<Rightarrow> nat \<Rightarrow> string \<Rightarrow> string list \<Rightarrow> (string \<times> nat) option" where
  "read_chunks moves tmpsz acc [] = Some (acc, tmpsz)"
| "read_chunks moves tmpsz acc (c # cs) =
     (if length acc + length c + 1 > tmpsz
      then (if moves (tmpsz + CHUNKSZ) \<or> length acc + length c > tmpsz + CHUNKSZ then None
            else read_chunks moves (tmpsz + CHUNKSZ) (acc @ c) cs)
      else read_chunks moves tmpsz (acc @ c) cs)"

datatype tracers = TracersFatal | Tracers "string list"

definition get_tracers :: "(nat \<Rightarrow> bool) \<Rightarrow> string list option \<Rightarrow> string list option \<Rightarrow> tracers option" where
  "get_tracers moves cached file =
     (case cached of
        Some l \<Rightarrow> Some (Tracers l)
      | None \<Rightarrow>
          (case file of
             None \<Rightarrow> Some TracersFatal
           | Some chunks \<Rightarrow>
               do { (buf, tmpsz) \<leftarrow> read_chunks moves 0 [] chunks;
                    if tmpsz = 0 then Some TracersFatal
                    else if tokens buf = [] then None
                    else Some (Tracers (tokens buf)) }))"

text \<open>\<open>strncmp (list[i], name, strlen (list[i])) == 0\<close>.\<close>

definition valid_tracer :: "string list \<Rightarrow> string \<Rightarrow> bool" where
  "valid_tracer list tracername =
     list_ex (\<lambda>t. strncmp_eq t tracername (length t)) list"

section \<open>Events\<close>

datatype event_op = OpenEvent string | WriteEvent string string | WarnOpen string | WarnWrite string string | CloseEvent

text \<open>The results of \<open>open\<close> and \<open>write\<close> are inputs.\<close>

definition setevent :: "string \<Rightarrow> int \<Rightarrow> int \<Rightarrow> string \<Rightarrow> string \<Rightarrow> (int \<times> event_op list) option" where
  "setevent prfx fd write_ret event val =
     (case path_buffer (prfx @ event) of
        None \<Rightarrow> None
      | Some path \<Rightarrow> Some (
          if fd < 0 then (-1, [OpenEvent path, WarnOpen path])
          else if write_ret < 0
          then (-1, [OpenEvent path, WriteEvent path val, WarnWrite path val, CloseEvent])
          else (0, [OpenEvent path, WriteEvent path val, CloseEvent])))"

definition event_enable_all :: "string \<Rightarrow> int \<Rightarrow> int \<Rightarrow> (int \<times> event_op list) option" where
  "event_enable_all prfx fd wr = setevent prfx fd wr ''events/enable'' ''1''"

definition event_disable_all :: "string \<Rightarrow> int \<Rightarrow> int \<Rightarrow> (int \<times> event_op list) option" where
  "event_disable_all prfx fd wr = setevent prfx fd wr ''events/enable'' ''0''"

definition event_path :: "string \<Rightarrow> string option" where
  "event_path event = path_buffer (''events/'' @ event @ ''/enable'')"

definition event_enable :: "string \<Rightarrow> int \<Rightarrow> int \<Rightarrow> string \<Rightarrow> (int \<times> event_op list) option" where
  "event_enable prfx fd wr event =
     (case event_path event of None \<Rightarrow> None | Some path \<Rightarrow> setevent prfx fd wr path ''1'')"

definition event_disable :: "string \<Rightarrow> int \<Rightarrow> int \<Rightarrow> string \<Rightarrow> (int \<times> event_op list) option" where
  "event_disable prfx fd wr event =
     (case event_path event of None \<Rightarrow> None | Some path \<Rightarrow> setevent prfx fd wr path ''0'')"

text \<open>
  Whatever fails, a file that was opened is closed again and the result is 0 exactly when the value was written; the
  buffers are large enough for every event of at most 128 characters below a prefix of at most 100.
\<close>

lemma event_switch:
  assumes "length prfx \<le> 100" "length event \<le> 128"
  shows "\<exists>r ops. event_enable prfx fd wr event = Some (r, ops) \<and> (r = 0 \<longleftrightarrow> 0 \<le> fd \<and> 0 \<le> wr) \<and>
    (CloseEvent \<in> set ops \<longleftrightarrow> 0 \<le> fd)"
  using assms by (auto simp: event_enable_def event_path_def setevent_def path_buffer_def)

section \<open>Privileges and policies\<close>

datatype priv_op = GetParam | SetFifo1 | RestorePolicy int

text \<open>The calls made, and the result: 0 when the process may use a real-time policy.\<close>

definition check_privs :: "int \<Rightarrow> int \<Rightarrow> int \<Rightarrow> int \<Rightarrow> int \<times> priv_op list" where
  "check_privs policy getparam_ret fifo_ret restore_ret =
     (if policy = 1 \<or> policy = 2 then (0, [])
      else if getparam_ret \<noteq> 0 then (1, [GetParam])
      else if fifo_ret \<noteq> 0 then (1, [GetParam, SetFifo1])
      else (restore_ret, [GetParam, SetFifo1, RestorePolicy policy]))"

definition policy_to_string :: "int \<Rightarrow> string" where
  "policy_to_string policy =
     (if policy = 0 then ''SCHED_OTHER''
      else if policy = 1 then ''SCHED_FIFO''
      else if policy = 2 then ''SCHED_RR''
      else if policy = 3 then ''SCHED_BATCH''
      else if policy = 5 then ''SCHED_IDLE''
      else if policy = 6 then ''SCHED_DEADLINE''
      else ''unknown'')"

definition string_to_policy :: "string \<Rightarrow> int" where
  "string_to_policy str =
     (if str = ''other'' then 0
      else if str = ''fifo'' then 1
      else if str = ''rr'' then 2
      else if str = ''batch'' then 3
      else if str = ''idle'' then 5
      else if str = ''deadline'' then 6
      else 0)"

section \<open>Properties\<close>

lemma strncmp_eq_prefix: "strncmp_eq t n (length t) \<longleftrightarrow> prefix t n"
  by (auto simp: strncmp_eq_def prefix_def) (metis append_take_drop_id)

text \<open>
  A name counts as a valid tracer exactly when some configured tracer is a prefix of it; so
  the tracers the kernel lists are valid, but so is every longer name, which the kernel then
  refuses.
\<close>

theorem valid_tracer_prefix:
  "valid_tracer list n \<longleftrightarrow> (\<exists>t \<in> set list. prefix t n)"
  by (simp add: valid_tracer_def list_ex_iff strncmp_eq_prefix)

theorem valid_tracer_prefix_witness:
  "valid_tracer [''nop'', ''wakeup''] ''wakeup_rt'' \<and> ''wakeup_rt'' \<notin> set [''nop'', ''wakeup'']"
  using valid_tracer_prefix [of "[''nop'', ''wakeup'']" "''wakeup_rt''"] by (simp add: prefix_def)

lemma dropWhile_ConsD: "dropWhile P s = c # cs \<Longrightarrow> \<not> P c"
  by (metis hd_dropWhile list.distinct(1) list.sel(1))

text \<open>The tracer names contain no separator and none is empty.\<close>

lemma tokens_Cons:
  "dropWhile is_sep s = c # cs \<Longrightarrow>
     tokens s = (c # takeWhile (\<lambda>c. \<not> is_sep c) cs) # tokens (dropWhile (\<lambda>c. \<not> is_sep c) cs)"
  using tokens.simps [of s] by (simp only: list.case)

lemma tokens_Nil: "dropWhile is_sep s = [] \<Longrightarrow> tokens s = []"
  using tokens.simps [of s] by (simp only: list.case)

lemma tokens_no_sep: "\<forall>t \<in> set (tokens s). t \<noteq> [] \<and> (\<forall>c \<in> set t. \<not> is_sep c)"
proof (induction s rule: tokens.induct)
  case (1 s)
  show ?case
  proof (cases "dropWhile is_sep s")
    case Nil
    show ?thesis unfolding tokens_Nil [OF Nil] by simp
  next
    case (Cons c cs)
    note d = dropWhile_ConsD [OF Cons]
    have "\<forall>d \<in> set (takeWhile (\<lambda>c. \<not> is_sep c) cs). \<not> is_sep d"
      using set_takeWhileD [of _ "\<lambda>c. \<not> is_sep c" cs] by blast
    with d have "c # takeWhile (\<lambda>c. \<not> is_sep c) cs \<noteq> [] \<and>
        (\<forall>d \<in> set (c # takeWhile (\<lambda>c. \<not> is_sep c) cs). \<not> is_sep d)" by simp
    with 1 [OF Cons] show ?thesis unfolding tokens_Cons [OF Cons] list.set(2) [of "_ # _"] by blast
  qed
qed

end
