(* ===== verification/CyclicTrace.thy ===== *)
theory CyclicTrace
  imports CyclicOptions RtUtils
begin

text \<open>
  cyclictest's use of the kernel's tracing files (\<^verbatim>\<open>src/cyclictest/cyclictest.c\<close>): reading and
  writing a kernel variable, the backup of the variables the program changes and their
  restoration, the choice and set-up of the tracer, and the latency target of the power
  management. The kernel's files are a parameter: what a read of a file delivers, and
  what a write does to them.
\<close>

section \<open>kernvar\<close>

abbreviation (input) KVARS :: nat where "KVARS \<equiv> 32"
abbreviation (input) KVARNAMELEN :: nat where "KVARNAMELEN \<equiv> 32"
abbreviation (input) KVALUELEN :: nat where "KVALUELEN \<equiv> 32"

text \<open>
  The kernel: \<open>rd k f\<close> is the content a read of the file delivers (\<open>None\<close> when it cannot be
  opened or read), \<open>wr f v k\<close> the kernel after a complete write of \<open>v\<close>.
\<close>

type_synonym 'k reader = "'k \<Rightarrow> string \<Rightarrow> string option"
type_synonym 'k writer = "string \<Rightarrow> string \<Rightarrow> 'k \<Rightarrow> 'k option"

definition kernvar_path :: "string \<Rightarrow> string \<Rightarrow> string option" where
  "kernvar_path prfx name =
     (if length prfx + length name + 1 > 128 then None else Some (prfx @ name))"

text \<open>Reading: the last byte that was read is replaced by the terminator.\<close>

definition kernvar_read :: "'k reader \<Rightarrow> 'k \<Rightarrow> string \<Rightarrow> string \<Rightarrow> nat \<Rightarrow> string option" where
  "kernvar_read rd k prfx name sizeofvalue =
     do { f \<leftarrow> kernvar_path prfx name;
          content \<leftarrow> rd k f;
          let buf = take sizeofvalue content
          in if buf = [] then None else Some (butlast buf) }"

definition kernvar_write :: "'k writer \<Rightarrow> 'k \<Rightarrow> string \<Rightarrow> string \<Rightarrow> string \<Rightarrow> 'k option" where
  "kernvar_write wr k prfx name v =
     do { f \<leftarrow> kernvar_path prfx name; wr f v k }"

section \<open>The backup of kernel variables\<close>

text \<open>
  An entry of \<open>kv\<close>: the bytes \<open>strncpy\<close> put into the two fields. A name that fills its field
  has no terminator, so read as a string it runs on into the value.
\<close>

record kvar =
  kv_namefield :: string
  kv_value :: string

definition kv_name :: "kvar \<Rightarrow> string" where
  "kv_name e = (if length (kv_namefield e) < KVARNAMELEN then kv_namefield e
                else kv_namefield e @ kv_value e)"

definition empty_kvar :: kvar where
  "empty_kvar = \<lparr>kv_namefield = [], kv_value = []\<rparr>"

text \<open>The search of \<open>setkernvar\<close>: the new table, or \<open>None\<close> when all entries are in use.\<close>

fun backup :: "string \<Rightarrow> string \<Rightarrow> kvar list \<Rightarrow> kvar list option" where
  "backup name oldvalue [] = None"
| "backup name oldvalue (e # es) =
     (if kv_name e = name then Some (e # es)
      else if kv_name e = [] then
        Some (\<lparr>kv_namefield = take KVARNAMELEN name, kv_value = take KVALUELEN oldvalue\<rparr> # es)
      else map_option ((#) e) (backup name oldvalue es))"

datatype kv_msg = NotRetrieved string | NotBackedUp string string | NotSet string string | NotRestored string string

definition before_26_33 :: "kernel_version \<Rightarrow> bool" where
  "before_26_33 v \<longleftrightarrow> v \<in> {KV_NOT_SUPPORTED, KV_26_LT18, KV_26_LT24}"

definition setkernvar ::
  "'k reader \<Rightarrow> 'k writer \<Rightarrow> kernel_version \<Rightarrow> string \<Rightarrow> string \<Rightarrow> string
     \<Rightarrow> 'k \<times> kvar list \<Rightarrow> kv_msg list \<times> 'k \<times> kvar list" where
  "setkernvar rd wr kver prfx name v s =
     (let (k, kv) = s;
          (msgs, kv1) =
            (if before_26_33 kver
             then case kernvar_read rd k prfx name KVALUELEN of
                    None \<Rightarrow> ([NotRetrieved name], kv)
                  | Some old \<Rightarrow>
                      (case backup name old kv of
                         None \<Rightarrow> ([NotBackedUp name old], kv)
                       | Some kv' \<Rightarrow> ([], kv'))
             else ([], kv))
      in case kernvar_write wr k prfx name v of
           None \<Rightarrow> (msgs @ [NotSet name v], k, kv1)
         | Some k1 \<Rightarrow> (msgs, k1, kv1))"

fun restorekernvars :: "'k writer \<Rightarrow> string \<Rightarrow> kvar list \<Rightarrow> 'k \<Rightarrow> kv_msg list \<times> 'k" where
  "restorekernvars wr prfx [] k = ([], k)"
| "restorekernvars wr prfx (e # es) k =
     (if kv_name e = [] then restorekernvars wr prfx es k
      else case kernvar_write wr k prfx (kv_name e) (kv_value e) of
             None \<Rightarrow> (case restorekernvars wr prfx es k of (ms, k1) \<Rightarrow> (NotRestored (kv_name e) (kv_value e) # ms, k1))
           | Some k1 \<Rightarrow> restorekernvars wr prfx es k1)"

text \<open>A sequence of settings.\<close>

fun setkernvars ::
  "'k reader \<Rightarrow> 'k writer \<Rightarrow> kernel_version \<Rightarrow> string \<Rightarrow> (string \<times> string) list
     \<Rightarrow> 'k \<times> kvar list \<Rightarrow> kv_msg list \<times> 'k \<times> kvar list" where
  "setkernvars rd wr kver prfx [] s = ([], s)"
| "setkernvars rd wr kver prfx ((n, v) # nvs) s =
     (case setkernvar rd wr kver prfx n v s of
        (ms, s1) \<Rightarrow> (case setkernvars rd wr kver prfx nvs s1 of (ms', s2) \<Rightarrow> (ms @ ms', s2)))"

section \<open>The tracer\<close>

datatype trace_op =
    SetVar bool string string        \<comment> \<open>below \<open>/proc/sys/kernel/\<close> or the tracing directory\<close>
  | EventEnable string
  | EventEnableAll
  | OpenTraceFd string
  | OpenMarkerFd
  | NoTracingFile
  | TracerNotAvailable string
  | UnknownTracer
  | TracingOn

definition settracer :: "(string \<Rightarrow> bool) \<Rightarrow> string \<Rightarrow> int \<times> trace_op list" where
  "settracer valid t = (if valid t then (0, [SetVar False ''current_tracer'' t]) else (-1, []))"

definition sched_switch_events :: "(string \<Rightarrow> int) \<Rightarrow> int \<times> trace_op list" where
  "sched_switch_events ev =
     (if ev ''sched/sched_wakeup'' \<noteq> 0
      then (ev ''sched/sched_wakeup'', [EventEnable ''sched/sched_wakeup''])
      else (ev ''sched/sched_switch'', [EventEnable ''sched/sched_wakeup'', EventEnable ''sched/sched_switch'']))"

text \<open>The result of the last attempt, with the operations; events are switched on for \<open>NOTRACE\<close>.\<close>

definition choose_tracer ::
  "(string \<Rightarrow> bool) \<Rightarrow> (string \<Rightarrow> int) \<Rightarrow> string \<Rightarrow> trace_opts \<Rightarrow> int \<times> trace_op list \<times> int" where
  "choose_tracer valid ev functiontracer tr =
     (let nop = settracer valid ''nop'';
          one = (\<lambda>p. (fst p, snd nop @ snd p, o_enable_events tr))
      in case o_tracetype tr of
           NOTRACE \<Rightarrow> (fst nop, snd nop, 1)
         | FUNCTION \<Rightarrow> one (settracer valid ''function'')
         | IRQSOFF \<Rightarrow> one (settracer valid ''irqsoff'')
         | PREEMPTOFF \<Rightarrow> one (settracer valid ''preemptoff'')
         | PREEMPTIRQSOFF \<Rightarrow> one (settracer valid ''preemptirqsoff'')
         | CTXTSWITCH \<Rightarrow>
             one (if valid ''sched_switch'' then settracer valid ''sched_switch'' else sched_switch_events ev)
         | WAKEUP \<Rightarrow> one (settracer valid ''wakeup'')
         | WAKEUPRT \<Rightarrow> one (settracer valid ''wakeup_rt'')
         | _ \<Rightarrow>
             if o_tracer tr \<noteq> []
             then let t = settracer valid (o_tracer tr)
                  in if o_tracer tr = ''events'' \<and> o_ftrace tr \<noteq> 0
                     then let f = settracer valid functiontracer
                          in one (fst f, snd t @ snd f)
                     else one t
             else one (0, [UnknownTracer]))"

definition trace_options :: "string \<Rightarrow> int \<Rightarrow> string list \<Rightarrow> trace_op list" where
  "trace_options traceroptions verbose opts =
     map (SetVar False traceroptions)
       ([''print-parent'', ''latency-format''] @
        (if verbose \<noteq> 0 then [''sym-offset'', ''sym-addr'', ''verbose'']
         else [''nosym-offset'', ''nosym-addr'', ''noverbose'']) @ opts)"

definition old_kernel_setup :: "int \<Rightarrow> trace_op list" where
  "old_kernel_setup ftrace =
     map (\<lambda>(n, v). SetVar True n v)
       ([(''trace_all_cpus'', ''1''), (''trace_freerunning'', ''1''), (''trace_print_on_crash'', ''0''),
         (''trace_user_triggered'', ''1''), (''trace_user_trigger_irq'', ''-1''), (''trace_verbose'', ''0''),
         (''preempt_thresh'', ''0''), (''wakeup_timing'', ''0''), (''preempt_max_latency'', ''0'')] @
        (if ftrace \<noteq> 0 then [(''mcount_enabled'', ''1'')] else []) @
        [(''trace_enabled'', ''1''), (''latency_hist/wakeup_latency/reset'', ''1'')])"

text \<open>
  \<open>setup_tracer\<close>: which files exist, which tracers are valid, what the event switches and the
  two \<open>open\<close> calls return. \<open>Inl\<close> for a fatal error.
\<close>

record tracer_in =
  ti_mount :: int
  ti_exists :: "string \<Rightarrow> bool"
  ti_valid :: "string \<Rightarrow> bool"
  ti_event :: "string \<Rightarrow> int"
  ti_trace_open :: int
  ti_marker_open :: int

definition setup_tracer ::
  "tracer_in \<Rightarrow> kernel_version \<Rightarrow> string \<Rightarrow> string \<Rightarrow> int \<Rightarrow> trace_opts \<Rightarrow> string + trace_op list" where
  "setup_tracer ti kver functiontracer traceroptions verbose tr =
     (if o_tracelimit tr = 0 \<or> o_notrace tr \<noteq> 0 then Inr []
      else if ti_mount ti \<noteq> 0 then Inl ''could not mount debugfs''
      else if \<not> before_26_33 kver
      then
        let old = (ti_exists ti ''tracing_enabled''); new = (ti_exists ti ''tracing_on'');
            (ret, ops, events) = choose_tracer (ti_valid ti) (ti_event ti) functiontracer tr;
            file = (if new then ''tracing_on'' else ''tracing_enabled'');
            pre = (if \<not> old \<and> \<not> new then [NoTracingFile] else []) @
                  (if old \<and> \<not> new then [SetVar False ''tracing_enabled'' ''1''] else []) @
                  [SetVar True ''ftrace_enabled'' (if o_tracetype tr \<noteq> NOTRACE then ''1'' else ''0'')] @ ops @
                  (if events \<noteq> 0 then [EventEnableAll] else []) @
                  (if ret \<noteq> 0 then [TracerNotAvailable (o_tracer tr)] else []) @
                  trace_options traceroptions verbose (o_traceopts tr) @
                  [SetVar False ''tracing_max_latency'' ''0''] @
                  (if ti_exists ti ''latency_hist'' then [SetVar False ''latency_hist/wakeup/reset'' ''1''] else [])
        in if ti_trace_open ti = -1 then Inl (''unable to open '' @ file)
           else Inr (pre @ [OpenTraceFd file] @ [OpenMarkerFd] @ [TracingOn])
      else Inr (old_kernel_setup (o_ftrace tr) @ [TracingOn]))"

text \<open>Switching the tracer on or off, by kernel version.\<close>

datatype tracing_call = GetTimeOfDay int | Prctl int | WriteTraceFd string | NoCall

definition tracing :: "kernel_version \<Rightarrow> bool \<Rightarrow> tracing_call" where
  "tracing kver on =
     (case kver of
        KV_26_LT18 \<Rightarrow> GetTimeOfDay (if on then 1 else 0)
      | KV_26_LT24 \<Rightarrow> Prctl (if on then 1 else 0)
      | KV_26_33 \<Rightarrow> WriteTraceFd (if on then ''1'' else ''0'')
      | KV_30 \<Rightarrow> WriteTraceFd (if on then ''1'' else ''0'')
      | KV_NOT_SUPPORTED \<Rightarrow> NoCall)"

text \<open>
  \<open>tracemark\<close> with the formatted text: what is written to the marker file, if anything. The
  length given to \<open>write\<close> is that of the whole text, the buffer holds 1024 bytes of it with the
  terminator.
\<close>

definition tracemark :: "int \<Rightarrow> string \<Rightarrow> string option option" where
  "tracemark fd txt =
     (if fd < 0 then Some None
      else if length txt < 1024 then Some (Some txt)
      else if length txt = 1024 then Some (Some (take 1023 txt @ [CHR 0x00]))
      else None)"

text \<open>The growth of the buffer of trace options: the number of entries and the room for them.\<close>

definition traceopt :: "string \<Rightarrow> string list \<times> nat \<Rightarrow> string list \<times> nat" where
  "traceopt option st =
     (let size' = (if length (fst st) + 1 > snd st then snd st + 16 else snd st)
      in (fst st @ [option], size'))"

section \<open>The latency target\<close>

datatype latency_op = LtWarnLaptop | LtWarnStat | LtOpen | LtWarnOpen | LtWrite int | LtWarnWrite | LtClose | LtSet int

text \<open>The operations and the descriptor that stays open (-1 for none).\<close>

definition set_latency_target :: "int \<Rightarrow> int \<Rightarrow> int \<Rightarrow> int \<Rightarrow> int \<Rightarrow> latency_op list \<times> int" where
  "set_latency_target laptop stat_ret open_ret write_ret target =
     (if laptop \<noteq> 0 then ([LtWarnLaptop], -1)
      else if stat_ret = -1 then ([LtWarnStat], -1)
      else if open_ret = -1 then ([LtOpen, LtWarnOpen], -1)
      else if write_ret < 1 then ([LtOpen, LtWrite target, LtWarnWrite, LtClose], open_ret)
      else ([LtOpen, LtWrite target, LtSet target], open_ret))"

section \<open>Backup and restoration\<close>

text \<open>
  What a kernel variable is documented to do: a complete write of a value makes later reads
  deliver it with a newline, and changes no other file.
\<close>

abbreviation (input) NL :: string where "NL \<equiv> [CHR 0x0A]"

definition proc_files :: "'k reader \<Rightarrow> 'k writer \<Rightarrow> string set \<Rightarrow> bool" where
  "proc_files rd wr F \<longleftrightarrow>
     (\<forall>k f v. f \<in> F \<longrightarrow> v \<noteq> [] \<longrightarrow>
        (\<exists>k'. wr f v k = Some k' \<and> rd k' f = Some (v @ NL) \<and> (\<forall>g. g \<noteq> f \<longrightarrow> rd k' g = rd k g)))"

text \<open>A variable whose name and value fit the table.\<close>

definition var_ok :: "'k reader \<Rightarrow> 'k \<Rightarrow> string \<Rightarrow> string set \<Rightarrow> (string \<Rightarrow> string) \<Rightarrow> string \<Rightarrow> bool" where
  "var_ok rd k prfx F orig n \<longleftrightarrow>
     n \<noteq> [] \<and> length n < KVARNAMELEN \<and> length prfx + length n + 1 \<le> 128 \<and> prfx @ n \<in> F \<and>
     orig n \<noteq> [] \<and> length (orig n) < KVALUELEN \<and> rd k (prfx @ n) = Some (orig n @ NL)"

definition entry :: "(string \<Rightarrow> string) \<Rightarrow> string \<Rightarrow> kvar" where
  "entry orig n = \<lparr>kv_namefield = n, kv_value = orig n\<rparr>"

lemma kv_name_entry: "length n < KVARNAMELEN \<Longrightarrow> kv_name (entry orig n) = n"
  by (simp add: kv_name_def entry_def)

lemma kv_name_empty [simp]: "kv_name empty_kvar = []"
  by (simp add: kv_name_def empty_kvar_def)

definition table :: "(string \<Rightarrow> string) \<Rightarrow> string list \<Rightarrow> nat \<Rightarrow> kvar list" where
  "table orig ns m = map (entry orig) ns @ replicate m empty_kvar"

lemma backup_known:
  assumes "\<forall>x \<in> set ns. x \<noteq> [] \<and> length x < KVARNAMELEN" and "n \<in> set ns"
  shows "backup n old (table orig ns m) = Some (table orig ns m)"
  using assms by (induction ns) (auto simp: table_def kv_name_entry)

lemma backup_new:
  assumes "\<forall>x \<in> set ns. x \<noteq> [] \<and> length x < KVARNAMELEN" and "n \<notin> set ns" and "0 < m"
    and "n \<noteq> []" and "length n < KVARNAMELEN" and "length (orig n) < KVALUELEN"
  shows "backup n (orig n) (table orig ns m) = Some (table orig (ns @ [n]) (m - 1))"
  using assms
proof (induction ns)
  case Nil
  then show ?case by (cases m) (auto simp: table_def entry_def)
next
  case (Cons x ns)
  then show ?case by (auto simp: table_def kv_name_entry)
qed

text \<open>
  The invariant of a sequence of settings: the table holds the original values of the variables
  that have been set, and no other file has changed.
\<close>

definition backup_inv ::
  "'k reader \<Rightarrow> 'k \<Rightarrow> string \<Rightarrow> (string \<Rightarrow> string) \<Rightarrow> string set \<Rightarrow> 'k \<times> kvar list \<Rightarrow> bool" where
  "backup_inv rd k0 prfx orig N s \<longleftrightarrow>
     (\<exists>ns m. snd s = table orig ns m \<and> length ns + m = KVARS \<and> distinct ns \<and> set ns \<subseteq> N \<and>
        (\<forall>f. f \<notin> (\<lambda>n. prfx @ n) ` set ns \<longrightarrow> rd (fst s) f = rd k0 f))"

lemma setkernvar_inv:
  assumes files: "proc_files rd wr F" and old: "before_26_33 kver"
    and vars: "\<forall>n \<in> N. var_ok rd k0 prfx F orig n" and fin: "finite N" and card: "card N \<le> KVARS"
    and inv: "backup_inv rd k0 prfx orig N s" and n: "n \<in> N" and v: "v \<noteq> []"
  shows "backup_inv rd k0 prfx orig N (snd (setkernvar rd wr kver prfx n v s))"
proof -
  obtain k kv where s: "s = (k, kv)" by (cases s)
  obtain ns m where t: "kv = table orig ns m" "length ns + m = KVARS" "distinct ns" "set ns \<subseteq> N"
    and same: "\<forall>f. f \<notin> (\<lambda>n. prfx @ n) ` set ns \<longrightarrow> rd k f = rd k0 f"
    using inv s unfolding backup_inv_def by auto
  have nok: "var_ok rd k0 prfx F orig n" using vars n by blast
  have ns_ok: "\<forall>x \<in> set ns. x \<noteq> [] \<and> length x < KVARNAMELEN"
    using vars t(4) unfolding var_ok_def by blast
  have path: "kernvar_path prfx n = Some (prfx @ n)" using nok by (simp add: var_ok_def kernvar_path_def)
  obtain k1 where k1: "wr (prfx @ n) v k = Some k1" "\<forall>g. g \<noteq> prfx @ n \<longrightarrow> rd k1 g = rd k g"
    using files nok v unfolding proc_files_def var_ok_def by blast
  then have w: "kernvar_write wr k prfx n v = Some k1" by (simp add: kernvar_write_def path)
  show ?thesis
  proof (cases "n \<in> set ns")
    case True
    have res: "snd (setkernvar rd wr kver prfx n v s) = (k1, kv)"
      using old backup_known [OF ns_ok True] s t(1)
      by (simp add: setkernvar_def w split: option.splits)
    have "\<forall>f. f \<notin> (\<lambda>n. prfx @ n) ` set ns \<longrightarrow> rd k1 f = rd k0 f" using same k1(2) True by auto
    then show ?thesis
      unfolding backup_inv_def res fst_conv snd_conv using t by blast
  next
    case False
    have "set ns \<subset> N" using t(4) n False by blast
    then have "card (set ns) < card N" by (rule psubset_card_mono [OF fin])
    then have "length ns < KVARS" using card distinct_card [OF t(3)] by linarith
    then have m: "0 < m" using t(2) by simp
    have "prfx @ n \<notin> (\<lambda>n. prfx @ n) ` set ns" using False by auto
    then have "rd k (prfx @ n) = Some (orig n @ NL)" using same nok by (simp add: var_ok_def)
    then have r: "kernvar_read rd k prfx n KVALUELEN = Some (orig n)"
      using nok by (simp add: kernvar_read_def path var_ok_def Let_def take_Cons')
    have "backup n (orig n) kv = Some (table orig (ns @ [n]) (m - 1))"
      unfolding t(1) using ns_ok False m nok by (intro backup_new) (auto simp: var_ok_def)
    then have res: "snd (setkernvar rd wr kver prfx n v s) = (k1, table orig (ns @ [n]) (m - 1))"
      using old s r by (simp add: setkernvar_def w)
    have "\<forall>f. f \<notin> (\<lambda>n. prfx @ n) ` set (ns @ [n]) \<longrightarrow> rd k1 f = rd k0 f" using same k1(2) by simp
    moreover have "length (ns @ [n]) + (m - 1) = KVARS" "distinct (ns @ [n])" "set (ns @ [n]) \<subseteq> N"
      using t m n False by simp_all
    ultimately show ?thesis
      unfolding backup_inv_def res fst_conv snd_conv by blast
  qed
qed

lemma setkernvars_inv:
  assumes "proc_files rd wr F" and "before_26_33 kver" and "\<forall>n \<in> N. var_ok rd k0 prfx F orig n"
    and "finite N" and "card N \<le> KVARS" and "backup_inv rd k0 prfx orig N s"
    and "\<forall>(n, v) \<in> set nvs. n \<in> N \<and> v \<noteq> []"
  shows "backup_inv rd k0 prfx orig N (snd (setkernvars rd wr kver prfx nvs s))"
  using assms(6,7)
proof (induction nvs arbitrary: s)
  case Nil
  then show ?case by simp
next
  case (Cons p nvs)
  obtain n v where p: "p = (n, v)" by (cases p)
  obtain ms s1 where s1: "setkernvar rd wr kver prfx n v s = (ms, s1)"
    by (cases "setkernvar rd wr kver prfx n v s") blast
  have "backup_inv rd k0 prfx orig N s1"
    using setkernvar_inv [OF assms(1-5) Cons.prems(1), of n v] Cons.prems(2) p s1 by simp
  with Cons.IH [of s1] Cons.prems(2) show ?case
    by (cases "setkernvars rd wr kver prfx nvs s1") (simp add: p s1)
qed

lemma restore_empty: "restorekernvars wr prfx (replicate m empty_kvar) k = ([], k)"
  by (induction m) simp_all

lemma restore_entries:
  assumes "proc_files rd wr F" and "\<forall>n \<in> set ns. var_ok rd k0 prfx F orig n" and "distinct ns"
  shows "(\<forall>n \<in> set ns. rd (snd (restorekernvars wr prfx (table orig ns m) k)) (prfx @ n) = Some (orig n @ NL)) \<and>
    (\<forall>f. f \<notin> (\<lambda>n. prfx @ n) ` set ns \<longrightarrow> rd (snd (restorekernvars wr prfx (table orig ns m) k)) f = rd k f)"
  using assms(2,3)
proof (induction ns arbitrary: k)
  case Nil
  then show ?case by (simp add: table_def restore_empty)
next
  case (Cons n ns)
  have n: "var_ok rd k0 prfx F orig n" using Cons.prems(1) by simp
  obtain k1 where k1: "wr (prfx @ n) (orig n) k = Some k1" "rd k1 (prfx @ n) = Some (orig n @ NL)"
    "\<forall>g. g \<noteq> prfx @ n \<longrightarrow> rd k1 g = rd k g"
    using assms(1) n unfolding proc_files_def var_ok_def by blast
  have nm: "kv_name (entry orig n) = n" "n \<noteq> []" using n by (simp_all add: var_ok_def kv_name_entry)
  have "kernvar_write wr k prfx n (orig n) = Some k1"
    using n k1(1) by (simp add: kernvar_write_def kernvar_path_def var_ok_def)
  then have eq: "restorekernvars wr prfx (table orig (n # ns) m) k = restorekernvars wr prfx (table orig ns m) k1"
    using nm by (simp add: table_def) (simp add: entry_def)
  have new: "prfx @ n \<notin> (\<lambda>n. prfx @ n) ` set ns" using Cons.prems(2) by auto
  have ih: "(\<forall>x \<in> set ns. rd (snd (restorekernvars wr prfx (table orig ns m) k1)) (prfx @ x) = Some (orig x @ NL)) \<and>
    (\<forall>f. f \<notin> (\<lambda>n. prfx @ n) ` set ns \<longrightarrow> rd (snd (restorekernvars wr prfx (table orig ns m) k1)) f = rd k1 f)"
    using Cons.prems by (intro Cons.IH) simp_all
  show ?case unfolding eq using ih new k1(2,3) by simp
qed

lemma restore_all:
  assumes "proc_files rd wr F" and "before_26_33 kver" and "\<forall>(n, v) \<in> set nvs. v \<noteq> []"
    and "\<forall>n \<in> fst ` set nvs. var_ok rd k0 prfx F orig n" and "card (fst ` set nvs) \<le> 32"
    and "setkernvars rd wr kver prfx nvs (k0, replicate 32 empty_kvar) = (ms, k1, kv)"
  shows "rd (snd (restorekernvars wr prfx kv k1)) f = rd k0 f"
proof -
  let ?N = "fst ` set nvs"
  have "backup_inv rd k0 prfx orig ?N (k0, replicate 32 empty_kvar)"
    unfolding backup_inv_def by (intro exI [of _ "[]"] exI [of _ 32]) (simp add: table_def)
  then have "backup_inv rd k0 prfx orig ?N (snd (setkernvars rd wr kver prfx nvs (k0, replicate 32 empty_kvar)))"
    using assms(3) by (intro setkernvars_inv [OF assms(1,2,4) _ assms(5)]) force+
  then obtain ns m where t: "kv = table orig ns m" "distinct ns" "set ns \<subseteq> ?N"
    and same: "\<forall>f. f \<notin> (\<lambda>n. prfx @ n) ` set ns \<longrightarrow> rd k1 f = rd k0 f"
    unfolding backup_inv_def assms(6) by auto
  have ok: "\<forall>n \<in> set ns. var_ok rd k0 prfx F orig n" using t(3) assms(4) by blast
  note r = restore_entries [OF assms(1) ok t(2), of m k1]
  show ?thesis
  proof (cases "f \<in> (\<lambda>n. prfx @ n) ` set ns")
    case True
    then obtain n where "n \<in> set ns" "f = prfx @ n" by blast
    then show ?thesis using r ok t(1) by (simp add: var_ok_def)
  next
    case False
    then show ?thesis using r same t(1) by simp
  qed
qed


definition map_rd :: "(string \<Rightarrow> string option) reader" where
  "map_rd k f = k f"

definition map_wr :: "(string \<Rightarrow> string option) writer" where
  "map_wr f v k = Some (k(f := Some (v @ NL)))"

lemma map_proc_files: "proc_files map_rd map_wr UNIV"
  by (simp add: proc_files_def map_rd_def map_wr_def)


text \<open>
  The one variable of an old kernel whose name has 33 characters is not restored: its name
  fills its field without a terminator, so the name read back has the old value behind it.
\<close>

theorem long_variable_name_lost:
  assumes "old \<noteq> []" and "length old < 32"
  shows "\<exists>e. backup ''latency_hist/wakeup_latency/reset'' old (replicate 32 empty_kvar) = Some (e # replicate 31 empty_kvar) \<and>
    kv_name e = ''latency_hist/wakeup_latency/rese'' @ old \<and> SetVar True ''latency_hist/wakeup_latency/reset'' ''1'' \<in> set (old_kernel_setup ft)"
proof -
  have "replicate 32 empty_kvar = empty_kvar # replicate 31 empty_kvar"
    by (simp add: replicate_Suc [symmetric] del: replicate_Suc)
  then show ?thesis
    using assms by (simp add: kv_name_def [of "\<lparr>kv_namefield = _, kv_value = _\<rparr>"] old_kernel_setup_def)
qed

theorem long_variable_name_lost_witness:
  "\<exists>e. backup ''latency_hist/wakeup_latency/reset'' ''0'' (replicate 32 empty_kvar) = Some (e # replicate 31 empty_kvar) \<and>
     kv_name e = ''latency_hist/wakeup_latency/rese0''"
  using long_variable_name_lost [of "''0''" 0] by auto

end
