(* ===== verification/MinimalVars.thy ===== *)
theory MinimalVars
  imports CyclicTrace
begin

text \<open>
  The kernel variables of \<^verbatim>\<open>src/cyclictest_minimal.c\<close>, a cut-down cyclictest for another kernel. Its
  backup keeps the old values as integers, where \<^verbatim>\<open>src/cyclictest/cyclictest.c\<close> keeps texts; that the
  integer backup is an implementation of the textual one, for files that hold a decimal number, is
  the last section, and gives the restoration of all settings.
\<close>

section \<open>strtol with base 0\<close>

text \<open>The value of a digit in a base, letters of either case beyond 9.\<close>

definition digit_in :: "int \<Rightarrow> char \<Rightarrow> int option" where
  "digit_in base c =
     (let n = (of_char c :: int);
          d = (if 48 \<le> n \<and> n \<le> 57 then n - 48
               else if 97 \<le> n \<and> n \<le> 122 then n - 87
               else if 65 \<le> n \<and> n \<le> 90 then n - 55 else base)
      in if d < base then Some d else None)"

fun read_base :: "int \<Rightarrow> int \<Rightarrow> string \<Rightarrow> int \<times> string" where
  "read_base base acc [] = (acc, [])"
| "read_base base acc (c # cs) =
     (case digit_in base c of Some d \<Rightarrow> read_base base (base * acc + d) cs | None \<Rightarrow> (acc, c # cs))"

text \<open>The base that the prefix of the number selects, and the digits behind the prefix.\<close>

definition number_base :: "string \<Rightarrow> int \<times> string" where
  "number_base u =
     (case u of
        CHR ''0'' # x # d # ds \<Rightarrow>
          (if (x = CHR ''x'' \<or> x = CHR ''X'') \<and> digit_in 16 d \<noteq> None then (16, d # ds) else (8, u))
      | CHR ''0'' # ds \<Rightarrow> (8, u)
      | _ \<Rightarrow> (10, u))"

text \<open>The value, clipped to \<open>long\<close>, and the rest; \<open>None\<close> when there is no number.\<close>

definition strtol0 :: "string \<Rightarrow> (int \<times> string) option" where
  "strtol0 s =
     (let t = dropWhile isspace s;
          neg = (t \<noteq> [] \<and> hd t = CHR ''-'');
          u = (if t \<noteq> [] \<and> (hd t = CHR ''-'' \<or> hd t = CHR ''+'') then tl t else t);
          (base, v) = number_base u
      in if v = [] \<or> digit_in base (hd v) = None then None
         else let (n, r) = read_base base 0 v
              in Some (max LONG_MIN (min LONG_MAX (if neg then - n else n)), r))"

section \<open>kernvar\<close>

text \<open>
  The name of the file: \<open>sizeof(procfileprefix)\<close> is the size of the pointer, so up to 120
  characters of the name are appended, to a buffer of 128 that may not hold them.
\<close>

abbreviation (input) procfileprefix :: string where "procfileprefix \<equiv> ''/proc/sys/kernel/''"

definition mc_path :: "string \<Rightarrow> string option" where
  "mc_path name =
     (if length procfileprefix + min 120 (length name) < 128
      then Some (procfileprefix @ take 120 name) else None)"

text \<open>
  Reading a number from a file. The buffer is not terminated: a number or a blank text that ends with the
  content has no defined end (\<open>Stray\<close>).
\<close>

datatype mc_read = Got int | NotGot | Stray

definition mc_kernvar_read :: "'k reader \<Rightarrow> 'k \<Rightarrow> string \<Rightarrow> mc_read" where
  "mc_kernvar_read rd k name =
     (case mc_path name of
        None \<Rightarrow> Stray
      | Some f \<Rightarrow>
          (case rd k f of
             None \<Rightarrow> NotGot
           | Some content \<Rightarrow>
               let buf = take 32 content
               in if buf = [] then NotGot
                  else case strtol0 buf of
                         None \<Rightarrow> (if dropWhile isspace buf = [] then Stray else NotGot)
                       | Some (v, r) \<Rightarrow> if r = [] then Stray else Got (s32 v)))"

definition mc_kernvar_write :: "'k writer \<Rightarrow> 'k \<Rightarrow> string \<Rightarrow> int \<Rightarrow> 'k option option" where
  "mc_kernvar_write wr k name v =
     (case mc_path name of
        None \<Rightarrow> None
      | Some f \<Rightarrow> Some (wr f (sdec v @ NL) k))"

section \<open>The backup\<close>

text \<open>A name that fills its field has no terminator; reading it as a string runs out of the field.\<close>

record mc_kvar =
  mk_field :: string
  mk_value :: int

definition mk_name :: "mc_kvar \<Rightarrow> string option" where
  "mk_name e = (if length (mk_field e) < KVARNAMELEN then Some (mk_field e) else None)"

datatype mc_saved = Saved "mc_kvar list" | TableFull | Unterminated

fun mc_backup :: "string \<Rightarrow> int \<Rightarrow> mc_kvar list \<Rightarrow> mc_saved" where
  "mc_backup name old [] = TableFull"
| "mc_backup name old (e # es) =
     (case mk_name e of
        None \<Rightarrow> Unterminated
      | Some n \<Rightarrow>
          if n = name then Saved (e # es)
          else if n = [] then Saved (\<lparr>mk_field = take KVARNAMELEN name, mk_value = old\<rparr> # es)
          else case mc_backup name old es of Saved es' \<Rightarrow> Saved (e # es') | r \<Rightarrow> r)"

datatype mc_msg = McNotRetrieved string | McNotBackedUp string int | McNotSet string int | McNotRestored string int

text \<open>\<open>setkernvar\<close>; \<open>None\<close> where the program leaves a buffer.\<close>

definition mc_setkernvar ::
  "'k reader \<Rightarrow> 'k writer \<Rightarrow> string \<Rightarrow> int \<Rightarrow> 'k \<times> mc_kvar list \<Rightarrow> (mc_msg list \<times> 'k \<times> mc_kvar list) option" where
  "mc_setkernvar rd wr name v s =
     (let (k, kv) = s
      in do { (msgs, kv1) \<leftarrow>
                (case mc_kernvar_read rd k name of
                   Stray \<Rightarrow> None
                 | NotGot \<Rightarrow> Some ([McNotRetrieved name], kv)
                 | Got old \<Rightarrow>
                     (case mc_backup name old kv of
                        Unterminated \<Rightarrow> None
                      | TableFull \<Rightarrow> Some ([McNotBackedUp name old], kv)
                      | Saved kv' \<Rightarrow> Some ([], kv')));
              w \<leftarrow> mc_kernvar_write wr k name v;
              Some (case w of
                      None \<Rightarrow> (msgs @ [McNotSet name v], k, kv1)
                    | Some k1 \<Rightarrow> (msgs, k1, kv1)) })"

fun mc_setkernvars ::
  "'k reader \<Rightarrow> 'k writer \<Rightarrow> (string \<times> int) list \<Rightarrow> 'k \<times> mc_kvar list
     \<Rightarrow> (mc_msg list \<times> 'k \<times> mc_kvar list) option" where
  "mc_setkernvars rd wr [] s = Some ([], s)"
| "mc_setkernvars rd wr ((n, v) # nvs) s =
     do { (ms, s1) \<leftarrow> mc_setkernvar rd wr n v s;
          (ms', s2) \<leftarrow> mc_setkernvars rd wr nvs s1;
          Some (ms @ ms', s2) }"

fun mc_restorekernvars :: "'k writer \<Rightarrow> mc_kvar list \<Rightarrow> 'k \<Rightarrow> (mc_msg list \<times> 'k) option" where
  "mc_restorekernvars wr [] k = Some ([], k)"
| "mc_restorekernvars wr (e # es) k =
     (if mk_field e = [] then mc_restorekernvars wr es k
      else do { n \<leftarrow> mk_name e;
                w \<leftarrow> mc_kernvar_write wr k n (mk_value e);
                case w of
                  Some k1 \<Rightarrow> mc_restorekernvars wr es k1
                | None \<Rightarrow> do { (ms, k1) \<leftarrow> mc_restorekernvars wr es k;
                              Some (McNotRestored n (mk_value e) # ms, k1) } })"

text \<open>The settings of \<open>timerthread\<close> with a limit for the latency.\<close>

definition mc_trace_vars :: "int \<Rightarrow> (string \<times> int) list" where
  "mc_trace_vars ftrace =
     [(''trace_all_cpus'', 1), (''trace_freerunning'', 1), (''trace_print_on_crash'', 0),
      (''trace_user_triggered'', 1), (''trace_user_trigger_irq'', -1), (''trace_verbose'', 0),
      (''preempt_thresh'', 0), (''wakeup_timing'', 0), (''preempt_max_latency'', 0)] @
     (if ftrace \<noteq> 0 then [(''mcount_enabled'', 1)] else []) @ [(''trace_enabled'', 1)]"

section \<open>Printing and reading a number\<close>

lemma digit_in_10: "digit_in 10 c = digit_val c"
  by (simp add: digit_in_def digit_val_def Let_def)

lemma read_base_10: "read_base 10 acc s = read_digits acc s"
  by (induction s arbitrary: acc) (auto simp: digit_in_10 split: option.splits)

lemma digit_val_NL: "digit_val (CHR 0x0A) = None"
  by (simp add: digit_val_def)

lemma read_digits_NL: "read_digits acc s = (v, []) \<Longrightarrow> read_digits acc (s @ NL) = (v, NL)"
  by (induction s arbitrary: acc) (auto simp: digit_val_NL split: option.splits)

lemma hd_dec_pos: "0 < n \<Longrightarrow> \<exists>k xs. 0 < k \<and> k < 10 \<and> dec n = char_of (48 + k :: nat) # xs"
proof (induction n rule: dec.induct)
  case (1 n)
  show ?case
  proof (cases "n < 10")
    case True
    then show ?thesis using 1 by (subst dec.simps) auto
  next
    case False
    then obtain k :: nat and xs where "0 < k" "k < 10" "dec (n div 10) = char_of (48 + k) # xs" using 1 by force
    then show ?thesis using False by (subst dec.simps) auto
  qed
qed

lemma digit_not_zero: "list_all (\<lambda>k :: nat. char_of (48 + k) \<noteq> CHR ''0'') [1..<10]"
  by code_simp

lemma number_base_pos: "c \<noteq> CHR ''0'' \<Longrightarrow> number_base (c # cs) = (10, c # cs)"
  by (auto simp: number_base_def split: list.splits char.splits bool.splits)

lemma char_0: "char_of (48 :: nat) = CHR ''0''"
  by code_simp

lemma dec_0: "dec 0 = ''0''"
  by (subst dec.simps) (simp add: char_0)

lemma strtol0_dec:
  assumes "int n \<le> 2147483648"
  shows "strtol0 (dec n @ NL) = Some (int n, NL)" and "strtol0 (CHR ''-'' # dec n @ NL) = Some (- int n, NL)"
proof -
  have base: "number_base (dec n @ NL) = (if n = 0 then 8 else 10, dec n @ NL)"
  proof (cases "n = 0")
    case True
    then show ?thesis by (simp add: dec_0 number_base_def)
  next
    case False
    then obtain k :: nat and xs where k: "0 < k" "k < 10" "dec n = char_of (48 + k) # xs"
      using hd_dec_pos [of n] by auto
    have "char_of (48 + k) \<noteq> CHR ''0''"
      using digit_not_zero k(1,2) by (simp add: list_all_iff del: upt_Suc)
    then show ?thesis using False k(3) number_base_pos by simp
  qed
  have rd: "read_base (if n = 0 then 8 else 10) 0 (dec n @ NL) = (int n, NL)"
  proof (cases "n = 0")
    case True
    then show ?thesis by (simp add: dec_0 digit_in_def)
  next
    case False
    then show ?thesis using read_digits_NL [OF read_dec [of n]] by (simp add: read_base_10)
  qed
  obtain k :: nat and xs where k: "k < 10" "dec n = char_of (48 + k) # xs" using hd_dec by blast
  have c: "\<not> isspace (char_of (48 + k))" "char_of (48 + k) \<noteq> CHR ''-''" "char_of (48 + k) \<noteq> CHR ''+''"
    using digit_not_space k(1) by (simp_all add: list_all_iff del: upt_Suc)
  have d: "digit_in (if n = 0 then 8 else 10) (char_of (48 + k)) \<noteq> None"
  proof (cases "n = 0")
    case True
    then have "char_of (48 + k) = CHR ''0''" using k(2) by (simp add: dec_0)
    then show ?thesis using True by (simp add: digit_in_def)
  next
    case False
    then show ?thesis using digit_val_dec [OF k(1)] by (simp add: digit_in_10)
  qed
  have sp: "\<not> isspace CHR ''-''" by (simp add: isspace_def)
  have lim: "max LONG_MIN (min LONG_MAX (int n)) = int n" "max LONG_MIN (min LONG_MAX (- int n)) = - int n"
    using assms by (auto simp: LONG_MIN_def LONG_MAX_def)
  show "strtol0 (dec n @ NL) = Some (int n, NL)"
    using c d base rd lim unfolding strtol0_def k(2) by (simp add: Let_def)
  show "strtol0 (CHR ''-'' # dec n @ NL) = Some (- int n, NL)"
    using c d base rd lim sp unfolding strtol0_def k(2) by (simp add: Let_def)
qed

definition int_ok :: "int \<Rightarrow> bool" where
  "int_ok v \<longleftrightarrow> - 2147483648 \<le> v \<and> v < 2147483648"

lemma strtol0_sdec: "int_ok v \<Longrightarrow> strtol0 (sdec v @ NL) = Some (v, NL)"
  using strtol0_dec [of "nat v"] strtol0_dec [of "nat (- v)"] by (auto simp: sdec_def int_ok_def)

lemma length_sdec: "int_ok v \<Longrightarrow> length (sdec v) \<le> 11"
proof -
  assume v: "int_ok v"
  have "length (dec (nat \<bar>v\<bar>)) \<le> 10"
    using v by (intro length_dec) (auto simp: int_ok_def nat_less_iff)
  then show ?thesis by (cases "v < 0") (simp_all add: sdec_def)
qed

lemma sdec_nonempty [simp]: "sdec v \<noteq> []"
  using hd_dec [of "nat v"] by (auto simp: sdec_def)

section \<open>The integer backup implements the textual one\<close>

definition mk_empty :: mc_kvar where
  "mk_empty = \<lparr>mk_field = [], mk_value = 0\<rparr>"

definition mk_abs :: "mc_kvar \<Rightarrow> kvar" where
  "mk_abs e = \<lparr>kv_namefield = mk_field e, kv_value = (if mk_field e = [] then [] else sdec (mk_value e))\<rparr>"

fun mk_msg :: "mc_msg \<Rightarrow> kv_msg" where
  "mk_msg (McNotRetrieved n) = NotRetrieved n"
| "mk_msg (McNotBackedUp n v) = NotBackedUp n (sdec v)"
| "mk_msg (McNotSet n v) = NotSet n (sdec v)"
| "mk_msg (McNotRestored n v) = NotRestored n (sdec v)"

text \<open>What a complete write of a text with a newline does, as a writer of texts.\<close>

definition line_wr :: "'k writer \<Rightarrow> 'k writer" where
  "line_wr wr f v k = wr f (v @ NL) k"

definition mk_table_ok :: "mc_kvar list \<Rightarrow> bool" where
  "mk_table_ok kv \<longleftrightarrow> (\<forall>e \<in> set kv. length (mk_field e) < KVARNAMELEN \<and> int_ok (mk_value e))"

definition decimal_files :: "'k reader \<Rightarrow> 'k \<Rightarrow> string set \<Rightarrow> bool" where
  "decimal_files rd k F \<longleftrightarrow> (\<forall>f \<in> F. \<exists>v. int_ok v \<and> rd k f = Some (sdec v @ NL))"

definition mc_name_ok :: "string set \<Rightarrow> string \<Rightarrow> bool" where
  "mc_name_ok F name \<longleftrightarrow> name \<noteq> [] \<and> length name < KVARNAMELEN \<and> procfileprefix @ name \<in> F"

lemma mk_abs_empty: "mk_abs mk_empty = empty_kvar"
  by (simp add: mk_abs_def mk_empty_def empty_kvar_def)

lemma kv_name_mk_abs: "length (mk_field e) < KVARNAMELEN \<Longrightarrow> kv_name (mk_abs e) = mk_field e"
  by (simp add: kv_name_def mk_abs_def)

lemma mc_backup_abs:
  assumes "name \<noteq> []" and "length name < KVARNAMELEN" and "int_ok old" and "mk_table_ok kv"
  shows "case mc_backup name old kv of
      Saved kv' \<Rightarrow> backup name (sdec old) (map mk_abs kv) = Some (map mk_abs kv') \<and> mk_table_ok kv'
    | TableFull \<Rightarrow> backup name (sdec old) (map mk_abs kv) = None
    | Unterminated \<Rightarrow> False"
  using assms(4)
proof (induction kv)
  case Nil
  then show ?case by simp
next
  case (Cons e es)
  have e: "length (mk_field e) < KVARNAMELEN" "mk_table_ok es" using Cons.prems by (simp_all add: mk_table_ok_def)
  have new: "mk_abs \<lparr>mk_field = name, mk_value = old\<rparr> = \<lparr>kv_namefield = name, kv_value = sdec old\<rparr>"
    using assms(1) by (simp add: mk_abs_def)
  show ?case
    using Cons.IH [OF e(2)] Cons.prems assms(1-3) kv_name_mk_abs [OF e(1)] e length_sdec [OF assms(3)]
    by (auto simp: mk_name_def new mk_table_ok_def split: mc_saved.splits)
qed

lemma paths_agree:
  "mc_name_ok F name \<Longrightarrow> mc_path name = Some (procfileprefix @ name)"
  "mc_name_ok F name \<Longrightarrow> kernvar_path procfileprefix name = Some (procfileprefix @ name)"
  by (auto simp: mc_name_ok_def mc_path_def kernvar_path_def)

lemma kernvar_reads_agree:
  assumes "mc_name_ok F name" and "decimal_files rd k F"
  shows "\<exists>v. int_ok v \<and> mc_kernvar_read rd k name = Got v \<and>
    kernvar_read rd k procfileprefix name KVALUELEN = Some (sdec v)"
proof -
  obtain v where v: "int_ok v" "rd k (procfileprefix @ name) = Some (sdec v @ NL)"
    using assms by (auto simp: decimal_files_def mc_name_ok_def)
  have t: "take 32 (sdec v @ NL) = sdec v @ NL" using length_sdec [OF v(1)] by simp
  have "s32 v = v" using v(1) by (simp add: int_ok_def c_int)
  with v t show ?thesis
    by (intro exI [of _ v])
      (simp add: mc_kernvar_read_def kernvar_read_def paths_agree [OF assms(1)] strtol0_sdec Let_def del: append.simps)
qed

lemma kernvar_writes_agree:
  "mc_name_ok F name \<Longrightarrow>
     mc_kernvar_write wr k name v = Some (kernvar_write (line_wr wr) k procfileprefix name (sdec v))"
  by (simp add: mc_kernvar_write_def kernvar_write_def paths_agree line_wr_def)

lemma setkernvar_refines:
  assumes name: "mc_name_ok F name" and v: "int_ok v" and tab: "mk_table_ok kv"
    and dec: "decimal_files rd k F" and files: "proc_files rd (line_wr wr) F"
  shows "\<exists>ms k1 kv1. mc_setkernvar rd wr name v (k, kv) = Some (ms, k1, kv1) \<and>
    setkernvar rd (line_wr wr) KV_26_LT18 procfileprefix name (sdec v) (k, map mk_abs kv) =
      (map mk_msg ms, k1, map mk_abs kv1) \<and>
    mk_table_ok kv1 \<and> decimal_files rd k1 F"
proof -
  obtain old where old: "int_ok old" "mc_kernvar_read rd k name = Got old"
    "kernvar_read rd k procfileprefix name KVALUELEN = Some (sdec old)"
    using kernvar_reads_agree [OF name dec] by blast
  have n: "name \<noteq> []" "length name < KVARNAMELEN" using name by (simp_all add: mc_name_ok_def)
  obtain k1 where k1: "line_wr wr (procfileprefix @ name) (sdec v) k = Some k1"
    "rd k1 (procfileprefix @ name) = Some (sdec v @ NL)" "\<forall>g. g \<noteq> procfileprefix @ name \<longrightarrow> rd k1 g = rd k g"
    using files name sdec_nonempty [of v] unfolding proc_files_def mc_name_ok_def by blast
  have w: "kernvar_write (line_wr wr) k procfileprefix name (sdec v) = Some k1"
    by (simp only: kernvar_write_def paths_agree(2) [OF name] Option.bind_lunit k1(1))
  have d1: "decimal_files rd k1 F"
    using dec k1(2,3) v unfolding decimal_files_def by metis
  have "before_26_33 KV_26_LT18" by (simp add: before_26_33_def)
  then show ?thesis
    using mc_backup_abs [OF n old(1) tab] d1 tab
    by (cases "mc_backup name old kv")
      (simp_all add: mc_setkernvar_def setkernvar_def old kernvar_writes_agree [OF name] w)
qed

lemma setkernvars_refines:
  assumes "\<forall>(n, v) \<in> set nvs. mc_name_ok F n \<and> int_ok v" and "mk_table_ok kv"
    and "decimal_files rd k F" and "proc_files rd (line_wr wr) F"
  shows "\<exists>ms k1 kv1. mc_setkernvars rd wr nvs (k, kv) = Some (ms, k1, kv1) \<and>
    setkernvars rd (line_wr wr) KV_26_LT18 procfileprefix (map (\<lambda>(n, v). (n, sdec v)) nvs) (k, map mk_abs kv) =
      (map mk_msg ms, k1, map mk_abs kv1) \<and> mk_table_ok kv1"
  using assms(1-3)
proof (induction nvs arbitrary: k kv)
  case Nil
  then show ?case by simp
next
  case (Cons p nvs)
  obtain n v where p: "p = (n, v)" by (cases p)
  obtain ms k1 kv1 where 1: "mc_setkernvar rd wr n v (k, kv) = Some (ms, k1, kv1)"
    "setkernvar rd (line_wr wr) KV_26_LT18 procfileprefix n (sdec v) (k, map mk_abs kv) = (map mk_msg ms, k1, map mk_abs kv1)"
    "mk_table_ok kv1" "decimal_files rd k1 F"
    using setkernvar_refines [OF _ _ Cons.prems(2,3) assms(4), of n v] Cons.prems(1) p by auto
  obtain ms' k2 kv2 where "mc_setkernvars rd wr nvs (k1, kv1) = Some (ms', k2, kv2)"
    "setkernvars rd (line_wr wr) KV_26_LT18 procfileprefix (map (\<lambda>(n, v). (n, sdec v)) nvs) (k1, map mk_abs kv1) =
      (map mk_msg ms', k2, map mk_abs kv2)" "mk_table_ok kv2"
    using Cons.IH [OF _ 1(3,4)] Cons.prems(1) by auto
  with 1 show ?case by (simp add: p)
qed

text \<open>The restoration agrees on any table, whatever the writes do.\<close>

lemma restore_refines:
  assumes "\<forall>e \<in> set kv. mk_field e \<noteq> [] \<longrightarrow> mc_name_ok F (mk_field e)" and "mk_table_ok kv"
  shows "\<exists>ms k1. mc_restorekernvars wr kv k = Some (ms, k1) \<and>
    restorekernvars (line_wr wr) procfileprefix (map mk_abs kv) k = (map mk_msg ms, k1)"
  using assms
proof (induction kv arbitrary: k)
  case Nil
  then show ?case by simp
next
  case (Cons e es)
  have ih: "\<exists>ms k1. mc_restorekernvars wr es k = Some (ms, k1) \<and>
      restorekernvars (line_wr wr) procfileprefix (map mk_abs es) k = (map mk_msg ms, k1)" for k
    using Cons by (simp add: mk_table_ok_def)
  have l: "length (mk_field e) < KVARNAMELEN" using Cons.prems(2) by (simp add: mk_table_ok_def)
  note nm = kv_name_mk_abs [OF l]
  show ?case
  proof (cases "mk_field e = []")
    case True
    then show ?thesis using ih [of k] nm by simp
  next
    case False
    then have v: "kv_value (mk_abs e) = sdec (mk_value e)" "mc_name_ok F (mk_field e)" "mk_name e = Some (mk_field e)"
      using Cons.prems(1) l by (simp_all add: mk_abs_def mk_name_def)
    note w = kernvar_writes_agree [OF v(2), of wr k "mk_value e"]
    show ?thesis
    proof (cases "kernvar_write (line_wr wr) k procfileprefix (mk_field e) (sdec (mk_value e))")
      case None
      with ih [of k] False nm v w show ?thesis by auto
    next
      case (Some k1)
      with ih [of k1] False nm v w show ?thesis by auto
    qed
  qed
qed

lemma mc_backup_names:
  "mc_backup name old kv = Saved kv' \<Longrightarrow> length name < KVARNAMELEN \<Longrightarrow>
     mk_field ` set kv' \<subseteq> insert name (mk_field ` set kv)"
proof (induction kv arbitrary: kv')
  case Nil
  then show ?case by simp
next
  case (Cons e es)
  then show ?case by (auto split: option.splits if_splits mc_saved.splits) blast
qed

lemma setkernvars_names:
  "mc_setkernvars rd wr nvs (k, kv) = Some (ms, k1, kv1) \<Longrightarrow> \<forall>(n, v) \<in> set nvs. length n < KVARNAMELEN \<Longrightarrow>
     mk_field ` set kv1 \<subseteq> fst ` set nvs \<union> mk_field ` set kv"
proof (induction nvs arbitrary: k kv ms)
  case Nil
  then show ?case by simp
next
  case (Cons p nvs)
  obtain n v where p: "p = (n, v)" by (cases p)
  obtain ms' k' kv' ms'' where step: "mc_setkernvar rd wr n v (k, kv) = Some (ms', k', kv')"
    "mc_setkernvars rd wr nvs (k', kv') = Some (ms'', k1, kv1)"
    using Cons.prems(1) by (auto simp: p split: Option.bind_splits)
  have "mk_field ` set kv' \<subseteq> insert n (mk_field ` set kv)"
    using step(1) Cons.prems(2) mc_backup_names [of n _ kv kv']
    by (auto simp: p mc_setkernvar_def split: mc_read.splits mc_saved.splits option.splits Option.bind_splits)
  moreover have "mk_field ` set kv1 \<subseteq> fst ` set nvs \<union> mk_field ` set kv'"
    using Cons.IH [OF step(2)] Cons.prems(2) by simp
  ultimately show ?case unfolding p by simp blast
qed


lemma sdec_var_ok:
  assumes "mc_name_ok F n" and "decimal_files rd k0 F"
  shows "var_ok rd k0 procfileprefix F (\<lambda>n. butlast (the (rd k0 (procfileprefix @ n)))) n"
proof -
  obtain v where v: "int_ok v" "rd k0 (procfileprefix @ n) = Some (sdec v @ NL)"
    using assms by (auto simp: decimal_files_def mc_name_ok_def)
  then show ?thesis
    using assms(1) length_sdec [OF v(1)] unfolding var_ok_def mc_name_ok_def by (simp add: butlast_append)
qed

lemma restore_from_empty:
  assumes files: "proc_files rd (line_wr wr) F" and dec: "decimal_files rd k0 F"
    and vars: "\<forall>(n, v) \<in> set nvs. mc_name_ok F n \<and> int_ok v" and card: "card (fst ` set nvs) \<le> 32"
    and kv0: "mk_table_ok kv0" "mk_field ` set kv0 \<subseteq> {[]}" "map mk_abs kv0 = replicate 32 empty_kvar"
  shows "\<exists>ms k1 kv. mc_setkernvars rd wr nvs (k0, kv0) = Some (ms, k1, kv) \<and>
    (\<exists>ms' k2. mc_restorekernvars wr kv k1 = Some (ms', k2) \<and> (\<forall>f. rd k2 f = rd k0 f))"
proof -
  let ?nvs = "map (\<lambda>(n, v). (n, sdec v)) nvs"
  have names_ok: "mc_name_ok F n" if "n \<in> fst ` set nvs" for n using vars that by auto
  obtain ms k1 kv where set: "mc_setkernvars rd wr nvs (k0, kv0) = Some (ms, k1, kv)"
    "setkernvars rd (line_wr wr) KV_26_LT18 procfileprefix ?nvs (k0, map mk_abs kv0) =
      (map mk_msg ms, k1, map mk_abs kv)" "mk_table_ok kv"
    using setkernvars_refines [OF vars kv0(1) dec files] by blast
  have "mk_field ` set kv \<subseteq> fst ` set nvs \<union> mk_field ` set kv0"
    using vars by (intro setkernvars_names [OF set(1)]) (auto simp: mc_name_ok_def)
  then have "\<forall>e \<in> set kv. mk_field e \<noteq> [] \<longrightarrow> mc_name_ok F (mk_field e)"
  proof (intro ballI impI)
    fix e assume e: "e \<in> set kv" "mk_field e \<noteq> []"
    with \<open>_ \<subseteq> fst ` set nvs \<union> _\<close> kv0(2) have "mk_field e \<in> fst ` set nvs" by blast
    then show "mc_name_ok F (mk_field e)" by (rule names_ok)
  qed
  then obtain ms' k2 where res: "mc_restorekernvars wr kv k1 = Some (ms', k2)"
    "restorekernvars (line_wr wr) procfileprefix (map mk_abs kv) k1 = (map mk_msg ms', k2)"
    using restore_refines [OF _ set(3)] by metis
  have img: "fst ` set ?nvs = fst ` set nvs" by force
  have "rd (snd (restorekernvars (line_wr wr) procfileprefix (map mk_abs kv) k1)) f = rd k0 f" for f
  proof (rule restore_all [OF files _ _ _ _ set(2) [unfolded kv0(3)]])
    show "before_26_33 KV_26_LT18" by (simp add: before_26_33_def)
    show "\<forall>(n, v) \<in> set ?nvs. v \<noteq> []" by auto
    show "card (fst ` set ?nvs) \<le> 32" unfolding img by (rule card)
    show "\<forall>n \<in> fst ` set ?nvs. var_ok rd k0 procfileprefix F (\<lambda>n. butlast (the (rd k0 (procfileprefix @ n)))) n"
      unfolding img by (intro ballI sdec_var_ok [OF names_ok dec])
  qed
  then have "\<forall>f. rd k2 f = rd k0 f" unfolding res(2) snd_conv by blast
  then show ?thesis using set(1) res(1) by blast
qed

lemma empty_entry_ok: "length (mk_field mk_empty) < KVARNAMELEN" "int_ok (mk_value mk_empty)" "mk_field mk_empty = []"
  by (simp_all add: mk_empty_def int_ok_def)

lemma empty_table_ok:
  "mk_table_ok (replicate n mk_empty)" "mk_field ` set (replicate n mk_empty) \<subseteq> {[]}"
  "map mk_abs (replicate n mk_empty) = replicate n empty_kvar"
  by (auto simp: mk_table_ok_def empty_entry_ok mk_abs_empty)

text \<open>
  Whatever at most 32 kernel variables with short names and decimal values the program sets, in whatever order
  and how often, every file has the content it had at the start when \<open>restorekernvars\<close> returns.
\<close>

theorem minimal_restore_undoes_settings:
  assumes "proc_files rd (line_wr wr) F" and "decimal_files rd k0 F"
    and "\<forall>(n, v) \<in> set nvs. mc_name_ok F n \<and> int_ok v" and "card (fst ` set nvs) \<le> 32"
  shows "\<exists>ms k1 kv. mc_setkernvars rd wr nvs (k0, replicate 32 mk_empty) = Some (ms, k1, kv) \<and>
    (\<exists>ms' k2. mc_restorekernvars wr kv k1 = Some (ms', k2) \<and> (\<forall>f. rd k2 f = rd k0 f))"
  by (rule restore_from_empty [OF assms empty_table_ok])

definition digits_wr :: "(string \<Rightarrow> string option) writer" where
  "digits_wr f v k = Some (k(f := Some v))"

theorem minimal_restore_undoes_settings_witness:
  "\<exists>ms k1 kv. mc_setkernvars map_rd digits_wr (mc_trace_vars 1) (\<lambda>_. Some (sdec 42 @ NL), replicate 32 mk_empty) = Some (ms, k1, kv) \<and>
    (\<exists>ms' k2. mc_restorekernvars digits_wr kv k1 = Some (ms', k2) \<and> (\<forall>f. map_rd k2 f = Some (sdec 42 @ NL)))"
proof -
  have dec: "decimal_files map_rd (\<lambda>_. Some (sdec 42 @ NL)) UNIV"
    by (auto simp: decimal_files_def map_rd_def int_ok_def intro!: exI [of _ 42])
  have files: "proc_files map_rd (line_wr digits_wr) UNIV"
    by (simp add: proc_files_def map_rd_def digits_wr_def line_wr_def)
  have vars: "\<forall>(n, v) \<in> set (mc_trace_vars 1). mc_name_ok UNIV n \<and> int_ok v"
    by (simp add: mc_trace_vars_def mc_name_ok_def int_ok_def)
  have card: "card (fst ` set (mc_trace_vars 1)) \<le> 32"
    using card_length [of "map fst (mc_trace_vars 1)"] by (simp add: mc_trace_vars_def)
  show ?thesis
    using minimal_restore_undoes_settings [OF files dec vars card] unfolding map_rd_def .
qed

end
