(* ===== verification/CyclicLoop.thy ===== *)
theory CyclicLoop
  imports CyclicTimer
begin

text \<open>
  What the loop of cyclictest's \<open>timerthread\<close> keeps and promises: the well-formedness of its
  statistics block (every buffer access stays inside its buffer), the histogram's account of
  the cycles, the grid on which the deadlines lie, and when the loop stops.
\<close>

section \<open>The effect of an iteration on the statistics\<close>

definition iter_stat :: "cyc_cfg \<Rightarrow> thread_param \<Rightarrow> int \<Rightarrow> thread_stat \<Rightarrow> thread_stat option" where
  "iter_stat cfg par diff s =
     do { s2 \<leftarrow> store_value par diff (update_minmax diff s);
          s3 \<leftarrow> update_histogram cfg diff s2;
          Some (s3\<lparr>st_cycles := u64 (st_cycles s3 + 1)\<rparr>) }"

text \<open>The buffers have the sizes \<open>main\<close> allocates them with.\<close>

definition stat_wf :: "cyc_cfg \<Rightarrow> thread_param \<Rightarrow> thread_stat \<Rightarrow> bool" where
  "stat_wf cfg par s \<longleftrightarrow>
     0 \<le> tp_bufmsk par \<and> (tp_bufmsk par \<noteq> 0 \<longrightarrow> tp_bufmsk par < int (length (st_values s))) \<and>
     0 \<le> c_histogram cfg \<and> c_histogram cfg < 2147483648 \<and>
     (c_histogram cfg \<noteq> 0 \<longrightarrow> int (length (st_hist_array s)) = c_histogram cfg \<and>
        int (length (st_outliers s)) = c_histogram cfg) \<and>
     0 \<le> st_num_outliers s \<and> 0 \<le> st_cycles s"

lemma stat_wfD:
  assumes "stat_wf cfg par s"
  shows "0 \<le> tp_bufmsk par" "0 \<le> c_histogram cfg" "0 \<le> st_num_outliers s" "0 \<le> st_cycles s"
  using assms by (auto simp: stat_wf_def)

lemma update_minmax_stat_wf [simp]: "stat_wf cfg par (update_minmax d s) = stat_wf cfg par s"
  by (simp add: stat_wf_def)

lemma store_value_total:
  assumes "stat_wf cfg par s"
  shows "\<exists>s'. store_value par d s = Some s' \<and> stat_wf cfg par s'"
proof (cases "tp_bufmsk par = 0")
  case True
  then show ?thesis using assms by (simp add: store_value_def Let_def stat_wf_def)
next
  case False
  have "0 \<le> st_cycles s AND tp_bufmsk par" "st_cycles s AND tp_bufmsk par \<le> tp_bufmsk par"
    using stat_wfD [OF assms] by (simp_all add: AND_upper2)
  then have "c_write (st_values s) (st_cycles s AND tp_bufmsk par) (s64 d) =
      Some ((st_values s)[nat (st_cycles s AND tp_bufmsk par) := s64 d])"
    using False assms by (intro c_write_in) (auto simp: stat_wf_def)
  with False assms show ?thesis
    by (simp add: store_value_def Let_def stat_wf_def)
qed

lemma update_histogram_total:
  assumes "stat_wf cfg par s" and "0 \<le> d"
  shows "\<exists>s'. update_histogram cfg d s = Some s' \<and> stat_wf cfg par s'"
proof (cases "c_histogram cfg = 0")
  case True
  then show ?thesis using assms by (simp add: update_histogram_def)
next
  case False
  have "u64 (c_histogram cfg) = c_histogram cfg"
    using assms by (intro u64_fits) (auto simp: stat_wf_def)
  with False assms show ?thesis
    by (auto simp: update_histogram_def Let_def stat_wf_def)
qed

lemma iter_stat_total:
  assumes "stat_wf cfg par s" and "0 \<le> d"
  shows "\<exists>s'. iter_stat cfg par d s = Some s' \<and> stat_wf cfg par s'"
proof -
  obtain s2 where s2: "store_value par d (update_minmax d s) = Some s2" "stat_wf cfg par s2"
    using store_value_total [of cfg par "update_minmax d s" d] assms by auto
  obtain s3 where "update_histogram cfg d s2 = Some s3" "stat_wf cfg par s3"
    using update_histogram_total [OF s2(2) assms(2)] by blast
  with s2 show ?thesis
    by (simp add: iter_stat_def stat_wf_def u64_range)
qed

lemma iter_stat_frame:
  assumes "iter_stat cfg par d s = Some s'"
  shows "st_cycles s' = u64 (st_cycles s + 1)" "st_min s' = st_min (update_minmax d s)"
    "st_max s' = st_max (update_minmax d s)" "st_avg s' = st_avg s + d" "st_act s' = s64 d"
    "length (st_values s') = length (st_values s)"
    "length (st_hist_array s') = length (st_hist_array s)"
proof -
  obtain s2 s3 where s: "store_value par d (update_minmax d s) = Some s2"
    "update_histogram cfg d s2 = Some s3" "s' = s3\<lparr>st_cycles := u64 (st_cycles s3 + 1)\<rparr>"
    using assms by (auto simp: iter_stat_def split: Option.bind_splits)
  note [simp] = store_value_frame [OF s(1)] update_histogram_frame [OF s(2)]
  show "st_cycles s' = u64 (st_cycles s + 1)" "st_min s' = st_min (update_minmax d s)"
    "st_max s' = st_max (update_minmax d s)" "st_avg s' = st_avg s + d" "st_act s' = s64 d"
    "length (st_values s') = length (st_values s)"
    "length (st_hist_array s') = length (st_hist_array s)"
    by (simp_all add: s(3)) (simp add: update_minmax_def Let_def)
qed

section \<open>The histogram accounts for every cycle\<close>

definition hist_total :: "thread_stat \<Rightarrow> int" where
  "hist_total s = sum_list (st_hist_array s) + st_hist_overflow s"

lemma update_histogram_counts:
  assumes "update_histogram cfg d s = Some s'" and "c_histogram cfg \<noteq> 0" and "0 \<le> d"
  shows "hist_total s' = hist_total s + 1"
  using assms by (auto simp: update_histogram_def Let_def hist_total_def c_read_def c_write_def
      sum_list_update_int split: if_splits Option.bind_splits)

lemma update_histogram_outliers:
  assumes "update_histogram cfg d s = Some s'" and "c_histogram cfg \<noteq> 0"
    and "st_num_outliers s = min (st_hist_overflow s) (c_histogram cfg)"
  shows "st_num_outliers s' = min (st_hist_overflow s') (c_histogram cfg)"
  using assms by (auto simp: update_histogram_def Let_def min_def
      split: if_splits Option.bind_splits)

lemma iter_stat_hist:
  assumes "iter_stat cfg par d s = Some s'" and "c_histogram cfg \<noteq> 0" and "0 \<le> d"
  shows "hist_total s' = hist_total s + 1"
    and "st_num_outliers s = min (st_hist_overflow s) (c_histogram cfg) \<Longrightarrow>
      st_num_outliers s' = min (st_hist_overflow s') (c_histogram cfg)"
proof -
  obtain s2 s3 where s: "store_value par d (update_minmax d s) = Some s2"
    "update_histogram cfg d s2 = Some s3" "s' = s3\<lparr>st_cycles := u64 (st_cycles s3 + 1)\<rparr>"
    using assms(1) by (auto simp: iter_stat_def split: Option.bind_splits)
  note f [simp] = store_value_frame [OF s(1)]
  have h2: "hist_total s2 = hist_total s" by (simp add: hist_total_def)
  have h': "hist_total s' = hist_total s3" by (simp add: hist_total_def s(3))
  show "hist_total s' = hist_total s + 1"
    using update_histogram_counts [OF s(2) assms(2,3)] h2 h' by simp
  show "st_num_outliers s' = min (st_hist_overflow s') (c_histogram cfg)"
    if "st_num_outliers s = min (st_hist_overflow s) (c_histogram cfg)"
    using update_histogram_outliers [OF s(2) assms(2)] that by (simp add: s(3))
qed

section \<open>What an iteration does\<close>

text \<open>An iteration that is not left by an error: its parts, and how it ends.\<close>

lemma timer_iter_done:
  assumes "timer_iter cfg par interval stop w t = r" and "r = Continue t' \<or> r = Break t'"
  shows "\<exists>log1 now1 next1. wait_period par interval w (t_now t) (t_next t) = (log1, Some (now1, next1)) \<and>
      wk_clock2_ret w = 0 \<and> t_now t' = wk_clock2 w \<and>
      iter_stat cfg par (latency cfg (wk_clock2 w) next1) (t_stat t) = Some (t_stat t') \<and>
      catch_up (wk_clock2 w) interval (next_deadline par interval w next1) = Some (t_next t') \<and>
      (r = Break t' \<longleftrightarrow> tp_max_cycles par \<noteq> 0 \<and> tp_max_cycles par = st_cycles (t_stat t'))"
  using assms
  by (auto simp: timer_iter_def Let_def iter_stat_def split: prod.splits option.splits if_splits Option.bind_splits)

definition period_ok :: "timespec \<Rightarrow> bool" where
  "period_ok iv \<longleftrightarrow> ts_normal iv \<and> 0 < ts_ns iv"

definition wake_ok :: "wake \<Rightarrow> bool" where
  "wake_ok w \<longleftrightarrow> ts_normal (wk_clock1 w) \<and> ts_normal (wk_clock2 w) \<and> 0 \<le> wk_overrun w"

definition thread_wf :: "cyc_cfg \<Rightarrow> thread_param \<Rightarrow> tstate \<Rightarrow> bool" where
  "thread_wf cfg par t \<longleftrightarrow> stat_wf cfg par (t_stat t) \<and> ts_normal (t_next t)"

lemma ts_normal_nonneg: "ts_normal t \<Longrightarrow> 0 \<le> tv_nsec t"
  by (simp add: ts_normal_def)

lemma latency_range: "0 \<le> latency cfg a b" "latency cfg a b < 18446744073709551616"
  by (simp_all add: latency_def u64_range)

lemma wait_period_normal:
  assumes "wait_period par interval w now next = (lg, Some (now1, next1))"
    and "period_ok interval" and "wake_ok w" and "ts_normal next"
  shows "ts_normal next1"
  using assms
  by (auto simp: wait_period_def period_ok_def wake_ok_def
      intro!: cyc.norm_add_normal ts_normal_nonneg split: if_splits)

lemma next_deadline_normal:
  assumes "period_ok interval" and "wake_ok w" and "ts_normal next"
  shows "ts_normal (next_deadline par interval w next)"
  using assms
  by (auto simp: next_deadline_def Let_def period_ok_def wake_ok_def ts_add_def
      intro!: cyc.norm_normal dest!: ts_normal_nonneg)

lemma next_deadline_ns:
  "ts_ns (next_deadline par interval w next) =
     ts_ns next + (1 + (if tp_mode par = MODE_CYCLIC then wk_overrun w else 0)) * ts_ns interval"
  by (simp add: next_deadline_def Let_def tsnorm_ns) (simp add: ts_ns_def ts_add_def algebra_simps)

lemma timer_iter_total:
  assumes "thread_wf cfg par t" and "period_ok interval" and "wake_ok w"
  shows "timer_iter cfg par interval stop w t \<noteq> Hangs \<and> timer_iter cfg par interval stop w t \<noteq> Fault"
proof (cases "snd (wait_period par interval w (t_now t) (t_next t))")
  case None
  then obtain lg where "wait_period par interval w (t_now t) (t_next t) = (lg, None)"
    by (metis prod.collapse)
  then show ?thesis by (simp add: timer_iter_def)
next
  case (Some nn)
  then obtain lg now1 next1 where
    wp: "wait_period par interval w (t_now t) (t_next t) = (lg, Some (now1, next1))"
    by (metis prod.collapse)
  have n1: "ts_normal next1"
    using wait_period_normal [OF wp assms(2,3)] assms(1) by (simp add: thread_wf_def)
  let ?d = "latency cfg (wk_clock2 w) next1"
  obtain s2 s3 where s2: "store_value par ?d (update_minmax ?d (t_stat t)) = Some s2"
    and s3: "update_histogram cfg ?d s2 = Some s3"
    using iter_stat_total [of cfg par "t_stat t" ?d] assms(1) latency_range
    by (fastforce simp: thread_wf_def iter_stat_def split: Option.bind_splits)
  obtain next3 where "catch_up (wk_clock2 w) interval (next_deadline par interval w next1) = Some next3"
    using catch_up_total_cyc [of "wk_clock2 w" "next_deadline par interval w next1" interval]
      next_deadline_normal [OF assms(2,3) n1] assms(2,3)
    by (auto simp: period_ok_def wake_ok_def ts_normal_nonneg)
  with wp s2 s3 show ?thesis
    by (auto simp: timer_iter_def Let_def split: prod.splits)
qed

lemma timer_iter_wf:
  assumes "timer_iter cfg par interval stop w t = r" and "r = Continue t' \<or> r = Break t'"
    and "thread_wf cfg par t" and "period_ok interval" and "wake_ok w"
  shows "thread_wf cfg par t' \<and> ts_ns (wk_clock2 w) \<le> ts_ns (t_next t')"
proof -
  obtain lg now1 next1 where
    wp: "wait_period par interval w (t_now t) (t_next t) = (lg, Some (now1, next1))"
    and st: "iter_stat cfg par (latency cfg (wk_clock2 w) next1) (t_stat t) = Some (t_stat t')"
    and cu: "catch_up (wk_clock2 w) interval (next_deadline par interval w next1) = Some (t_next t')"
    using timer_iter_done [OF assms(1,2)] by blast
  have n1: "ts_normal next1"
    using wait_period_normal [OF wp assms(4,5)] assms(3) by (simp add: thread_wf_def)
  have "stat_wf cfg par (t_stat t')"
    using iter_stat_total [of cfg par "t_stat t" "latency cfg (wk_clock2 w) next1"] st assms(3)
      latency_range by (auto simp: thread_wf_def)
  moreover have "ts_normal (t_next t') \<and> ts_ns (wk_clock2 w) \<le> ts_ns (t_next t')"
    using catch_up_total_cyc [of "wk_clock2 w" "next_deadline par interval w next1" interval]
      next_deadline_normal [OF assms(4,5) n1] assms(4,5) cu
    by (auto simp: period_ok_def wake_ok_def ts_normal_nonneg)
  ultimately show ?thesis by (simp add: thread_wf_def)
qed

section \<open>The loop as a state machine\<close>

text \<open>
  A step is a completed iteration that was not preceded by a shutdown request. The invariant
  says that the blocks are well formed, that the histogram accounts for the cycles, and that
  the deadlines of the absolute modes stay on the grid of the interval that starts at \<open>g\<close>.
\<close>

inductive tm_step :: "cyc_cfg \<Rightarrow> thread_param \<Rightarrow> timespec \<Rightarrow> timespec \<Rightarrow> tstate \<Rightarrow> tstate \<Rightarrow> bool"
  for cfg par interval stop
where
  tm_step: "period_ok interval \<Longrightarrow> wake_ok w \<Longrightarrow>
    timer_iter cfg par interval stop w (t\<lparr>t_sh := sh\<rparr>) = r \<Longrightarrow> r = Continue t' \<or> r = Break t' \<Longrightarrow>
    tm_step cfg par interval stop t t'"

inductive_cases tm_stepE: "tm_step cfg par interval stop t t'"

definition abs_mode :: "thread_param \<Rightarrow> bool" where
  "abs_mode par \<longleftrightarrow> tp_mode par = MODE_CYCLIC \<or> tp_mode par = MODE_SYS_ITIMER \<or>
     (tp_mode par = MODE_CLOCK_NANOSLEEP \<and> tp_timermode par = TIMER_ABSTIME)"

definition hist_account :: "cyc_cfg \<Rightarrow> thread_stat \<Rightarrow> bool" where
  "hist_account cfg s \<longleftrightarrow> (c_histogram cfg \<noteq> 0 \<longrightarrow> u64 (hist_total s) = st_cycles s \<and>
     st_num_outliers s = min (st_hist_overflow s) (c_histogram cfg))"

definition on_grid :: "timespec \<Rightarrow> int \<Rightarrow> tstate \<Rightarrow> bool" where
  "on_grid interval g t \<longleftrightarrow>
     (\<exists>k. st_cycles (t_stat t) \<le> k \<and> ts_ns (t_next t) = g + k * ts_ns interval)"

definition tm_inv :: "cyc_cfg \<Rightarrow> thread_param \<Rightarrow> timespec \<Rightarrow> int \<Rightarrow> tstate \<Rightarrow> bool" where
  "tm_inv cfg par interval g t \<longleftrightarrow> thread_wf cfg par t \<and> hist_account cfg (t_stat t) \<and>
     (abs_mode par \<longrightarrow> on_grid interval g t)"

lemma hist_account_step:
  assumes "iter_stat cfg par d s = Some s'" and "hist_account cfg s" and "0 \<le> d"
  shows "hist_account cfg s'"
proof (cases "c_histogram cfg = 0")
  case True
  then show ?thesis by (simp add: hist_account_def)
next
  case False
  have "u64 (hist_total s + 1) = u64 (u64 (hist_total s) + 1)"
    by (simp add: take_bit_eq_mod mod_add_left_eq)
  with False assms(2) show ?thesis
    using iter_stat_hist [OF assms(1) False assms(3)] iter_stat_frame(1) [OF assms(1)]
    by (simp add: hist_account_def)
qed

lemma wait_period_abs:
  assumes "wait_period par interval w now next = (lg, Some (now1, next1))" and "abs_mode par"
  shows "next1 = next"
  using assms by (auto simp: wait_period_def abs_mode_def split: if_splits)

lemma u64_succ_le: "0 \<le> c \<Longrightarrow> c \<le> k \<Longrightarrow> u64 (c + 1) \<le> k + (1 :: int)"
  by (rule order_trans [OF take_bit_int_less_eq_self_iff [THEN iffD2]]) auto

lemma on_grid_step:
  assumes "on_grid interval g t" and "0 \<le> st_cycles (t_stat t)" and "period_ok interval" and "wake_ok w"
    and "ts_normal (t_next t)"
    and "catch_up (wk_clock2 w) interval (next_deadline par interval w (t_next t)) = Some (t_next t')"
    and "st_cycles (t_stat t') = u64 (st_cycles (t_stat t) + 1)"
  shows "on_grid interval g t'"
proof -
  obtain k where k: "st_cycles (t_stat t) \<le> k" "ts_ns (t_next t) = g + k * ts_ns interval"
    using assms(1) by (auto simp: on_grid_def)
  let ?n = "next_deadline par interval w (t_next t)"
  let ?o = "if tp_mode par = MODE_CYCLIC then wk_overrun w else 0"
  have o: "0 \<le> ?o" using assms(4) by (simp add: wake_ok_def)
  obtain j where j: "0 \<le> j" "ts_ns (t_next t') = ts_ns ?n + j * ts_ns interval"
    using catch_up_total_cyc [of "wk_clock2 w" ?n interval]
      next_deadline_normal [OF assms(3,4,5)] assms(3,4,6)
    by (auto simp: period_ok_def wake_ok_def ts_normal_nonneg)
  have "ts_ns (t_next t') = g + (k + (1 + ?o) + j) * ts_ns interval"
    using k(2) j(2) next_deadline_ns [of par interval w "t_next t"] by (simp add: algebra_simps)
  moreover have "st_cycles (t_stat t') \<le> k + (1 + ?o) + j"
    using u64_succ_le [OF assms(2) k(1)] assms(7) o j(1) by linarith
  ultimately show ?thesis unfolding on_grid_def by blast
qed

interpretation tm: machine "tm_inv cfg par interval g" "tm_step cfg par interval stop"
    "tm_inv cfg par interval g" for cfg par interval stop g
proof unfold_locales
  fix t t' assume inv: "tm_inv cfg par interval g t" and st: "tm_step cfg par interval stop t t'"
  from st obtain w sh r where p: "period_ok interval" "wake_ok w"
    and r: "timer_iter cfg par interval stop w (t\<lparr>t_sh := sh\<rparr>) = r" "r = Continue t' \<or> r = Break t'"
    by (elim tm_stepE) blast
  have wf: "thread_wf cfg par (t\<lparr>t_sh := sh\<rparr>)" using inv by (simp add: tm_inv_def thread_wf_def)
  obtain lg now1 next1 where
    wp: "wait_period par interval w (t_now t) (t_next t) = (lg, Some (now1, next1))"
    and ist: "iter_stat cfg par (latency cfg (wk_clock2 w) next1) (t_stat t) = Some (t_stat t')"
    and cu: "catch_up (wk_clock2 w) interval (next_deadline par interval w next1) = Some (t_next t')"
    using timer_iter_done [OF r] by auto
  have "on_grid interval g t'" if "abs_mode par"
  proof (rule on_grid_step [OF _ _ p])
    have n1: "next1 = t_next t" using wait_period_abs [OF wp that] by simp
    show "catch_up (wk_clock2 w) interval (next_deadline par interval w (t_next t)) = Some (t_next t')"
      using cu n1 by simp
    show "on_grid interval g t" "ts_normal (t_next t)" "0 \<le> st_cycles (t_stat t)"
      using inv that by (simp_all add: tm_inv_def thread_wf_def stat_wf_def)
    show "st_cycles (t_stat t') = u64 (st_cycles (t_stat t) + 1)"
      by (rule iter_stat_frame(1) [OF ist])
  qed
  then show "tm_inv cfg par interval g t'"
    using timer_iter_wf [OF r wf p] hist_account_step [OF ist] inv latency_range
    by (simp add: tm_inv_def)
qed

text \<open>Every run of the loop is a sequence of such steps; the exits change no statistics.\<close>

lemma timer_iter_goto:
  "timer_iter cfg par interval stop w t = Goto_out u \<Longrightarrow> t_stat u = t_stat t \<and> t_next u = t_next t"
  by (auto simp: timer_iter_def Let_def split: prod.splits option.splits if_splits)

lemma tm_stepI:
  assumes "period_ok interval" and "wake_ok w"
    and "timer_iter cfg par interval stop w (others_shutdown w t) = Continue u \<or>
      timer_iter cfg par interval stop w (others_shutdown w t) = Break u"
  shows "tm_step cfg par interval stop t u"
  using assms(1,2) refl assms(3) unfolding others_shutdown_def by (rule tm_step)

lemma timer_loop_steps:
  assumes "period_ok interval" and "\<forall>w \<in> set ws. wake_ok w"
    and "timer_loop cfg par interval stop ws t = Exited t' \<or> timer_loop cfg par interval stop ws t = Running t'"
  shows "\<exists>u. (tm_step cfg par interval stop)\<^sup>*\<^sup>* t u \<and> t_stat t' = t_stat u \<and> t_next t' = t_next u"
  using assms(2,3)
proof (induction ws arbitrary: t)
  case Nil
  then show ?case by auto
next
  case (Cons w ws)
  note step = tm_stepI [OF assms(1), of w cfg par stop t]
  show ?case
  proof (cases "sh_shutdown (t_sh t) + wk_shutdown w = 0")
    case False
    with Cons.prems(2) show ?thesis by auto
  next
    case True
    show ?thesis
    proof (cases "timer_iter cfg par interval stop w (others_shutdown w t)")
      case (Goto_out u)
      then show ?thesis using True Cons.prems(2) timer_iter_goto [OF Goto_out] by auto
    next
      case (Break u)
      then show ?thesis using True Cons.prems step [of u] by auto
    next
      case (Continue u)
      then have "\<exists>v. (tm_step cfg par interval stop)\<^sup>*\<^sup>* u v \<and> t_stat t' = t_stat v \<and> t_next t' = t_next v"
        using True Cons.prems by (intro Cons.IH) auto
      moreover have "tm_step cfg par interval stop t u" using Continue Cons.prems(1) step by simp
      ultimately show ?thesis by (meson converse_rtranclp_into_rtranclp)
    qed (use True Cons.prems(2) in auto)
  qed
qed

lemma timer_loop_inv:
  assumes "period_ok interval" and "\<forall>w \<in> set ws. wake_ok w" and "tm_inv cfg par interval g t"
    and "timer_loop cfg par interval stop ws t = Exited t' \<or> timer_loop cfg par interval stop ws t = Running t'"
  shows "tm_inv cfg par interval g t'"
proof -
  obtain u where "(tm_step cfg par interval stop)\<^sup>*\<^sup>* t u" "t_stat t' = t_stat u" "t_next t' = t_next u"
    using timer_loop_steps [OF assms(1,2,4)] by blast
  with tm.runs_inv [of cfg par interval stop t u g] assms(3) show ?thesis
    by (simp add: tm_inv_def thread_wf_def on_grid_def)
qed

section \<open>Totality\<close>

lemma timer_loop_total:
  assumes "thread_wf cfg par t" and "period_ok interval" and "\<forall>w \<in> set ws. wake_ok w"
  shows "timer_loop cfg par interval stop ws t \<noteq> RunHangs \<and>
    timer_loop cfg par interval stop ws t \<noteq> RunFault"
  using assms(1,3)
proof (induction ws arbitrary: t)
  case Nil
  then show ?case by simp
next
  case (Cons w ws)
  let ?t1 = "others_shutdown w t"
  have wf: "thread_wf cfg par ?t1" using Cons.prems(1) by (simp add: thread_wf_def)
  have w: "wake_ok w" using Cons.prems(2) by simp
  note tot = timer_iter_total [OF wf assms(2) w, of stop]
  show ?case
  proof (cases "timer_iter cfg par interval stop w ?t1")
    case (Continue u)
    then have "thread_wf cfg par u"
      using timer_iter_wf [OF Continue _ wf assms(2) w] by auto
    then show ?thesis using Cons Continue by simp
  qed (use tot in simp_all)
qed

lemma period_ok_thread_interval: "0 < tp_interval par \<Longrightarrow> period_ok (thread_interval par)"
proof -
  assume pos: "0 < tp_interval par"
  have eq: "tp_interval par = USEC_PER_SEC * (tp_interval par div USEC_PER_SEC) +
      tp_interval par mod USEC_PER_SEC" by simp
  have "ts_ns (thread_interval par) = 1000 * tp_interval par"
    by (simp add: ts_ns_def thread_interval_def) (use eq in linarith)
  moreover have "tp_interval par mod USEC_PER_SEC < USEC_PER_SEC" by simp
  then have "(tp_interval par mod USEC_PER_SEC) * 1000 < NSEC_PER_SEC" by linarith
  ultimately show ?thesis
    using pos by (simp add: period_ok_def ts_normal_def thread_interval_def)
qed

text \<open>The offset option does not make the start time negative.\<close>

definition offset_ok :: "cyc_cfg \<Rightarrow> thread_param \<Rightarrow> bool" where
  "offset_ok cfg par \<longleftrightarrow> 0 \<le> c_offset cfg \<and> 0 \<le> s32 (c_offset cfg * tp_tnum par)"

lemma start_now_normal:
  "offset_ok cfg par \<Longrightarrow> ts_normal (si_globalt si) \<Longrightarrow> ts_normal (si_clock si) \<Longrightarrow>
     ts_normal (start_now cfg par (si_globalt si) (si_clock si))"
  by (auto simp: start_now_def offset_ok_def ts_normal_nonneg intro!: cyc.norm_normal)

lemma first_deadline_normal:
  "period_ok interval \<Longrightarrow> ts_normal now \<Longrightarrow> ts_normal (first_deadline interval now)"
  by (auto simp: first_deadline_def period_ok_def ts_normal_nonneg intro: cyc.norm_add_normal)

lemma timerthread_result:
  assumes "0 < tp_interval par" and "stat_wf cfg par stat" and "offset_ok cfg par"
    and "ts_normal (si_globalt si)" and "ts_normal (si_clock si)" and "\<forall>w \<in> set ws. wake_ok w"
    and "si_sched_ret si = 0"
  shows "\<exists>t. timerthread cfg par si ws stat sh = Some (Running t) \<or>
     (timerthread cfg par si ws stat sh = Some (Exited t) \<and>
        st_threadstarted (t_stat t) = -1 \<and> last (t_log t) = SetScheduler SCHED_OTHER 0)"
proof -
  define interval where "interval = thread_interval par"
  define now where "now = start_now cfg par (si_globalt si) (si_clock si)"
  define nxt where "nxt = first_deadline interval now"
  obtain log0 where pro: "timer_prologue par (si_tid si) (si_affinity_ret si) (si_sched_ret si) = (log0, True)"
    using assms(7) by (simp add: timer_prologue_def Let_def)
  define t0 where "t0 = \<lparr>t_now = now, t_next = nxt, t_stopped = 0,
      t_stat = stat\<lparr>st_tid := si_tid si, st_threadstarted := st_threadstarted stat + 1\<rparr>, t_sh = sh,
      t_log = log0 @ arm_timer par interval nxt\<rparr>"
  have per: "period_ok interval" unfolding interval_def by (rule period_ok_thread_interval [OF assms(1)])
  have "ts_normal nxt"
    unfolding nxt_def now_def by (intro first_deadline_normal [OF per] start_now_normal assms)
  then have wf: "thread_wf cfg par t0"
    using assms(2) by (simp add: t0_def thread_wf_def stat_wf_def)
  have run: "timerthread cfg par si ws stat sh = Some (case timer_loop cfg par interval (stop_time cfg now) ws t0 of
      Exited t \<Rightarrow> Exited (timer_epilogue par t) | r \<Rightarrow> r)"
    using pro by (simp add: timerthread_def Let_def t0_def interval_def now_def nxt_def)
  show ?thesis
    using timer_loop_total [OF wf per assms(6), of "stop_time cfg now"] run
    by (cases "timer_loop cfg par interval (stop_time cfg now) ws t0") (simp_all add: timer_epilogue_def)
qed

text \<open>
  C1: started on a well-formed block with a positive interval, the thread function either
  stops the program because its priority could not be set, or it runs its loop on every
  sequence of wake-ups without an access outside a buffer and without a deadline loop that
  does not return; when it leaves, its last call gives up the real-time policy and its
  block says that it has ended.
\<close>

theorem timerthread_total:
  assumes "0 < tp_interval par" and "stat_wf cfg par stat" and "offset_ok cfg par"
    and "ts_normal (si_globalt si)" and "ts_normal (si_clock si)" and "\<forall>w \<in> set ws. wake_ok w"
  shows "if si_sched_ret si \<noteq> 0 then timerthread cfg par si ws stat sh = None
    else (\<exists>t. timerthread cfg par si ws stat sh = Some (Running t)) \<or>
         (\<exists>t. timerthread cfg par si ws stat sh = Some (Exited t) \<and>
            st_threadstarted (t_stat t) = -1 \<and> last (t_log t) = SetScheduler SCHED_OTHER 0)"
proof (cases "si_sched_ret si = 0")
  case False
  then show ?thesis by (simp add: timerthread_def timer_prologue_def Let_def)
next
  case True
  then show ?thesis using timerthread_result [OF assms True, of sh] by auto
qed

text \<open>A configuration with a histogram, a thread in the default mode, and a wake-up.\<close>

definition ex_cfg :: cyc_cfg where
  "ex_cfg = \<lparr>c_tracelimit = 0, c_histogram = 3, c_duration = 0, c_use_nsecs = 0, c_refresh_on_max = 0,
     c_aligned = 0, c_secaligned = 0, c_offset = 0\<rparr>"

definition ex_par :: thread_param where
  "ex_par = \<lparr>tp_prio = 80, tp_policy = 1, tp_mode = MODE_CLOCK_NANOSLEEP, tp_timermode = TIMER_ABSTIME,
     tp_signal = 14, tp_clock = 1, tp_max_cycles = 2, tp_bufmsk = 0, tp_interval = 1000, tp_cpu = -1,
     tp_node = -1, tp_tnum = 0\<rparr>"

definition ex_stat :: thread_stat where
  "ex_stat = empty_stat\<lparr>st_hist_array := [0, 0, 0], st_outliers := [0, 0, 0]\<rparr>"

definition ex_wake :: "int \<Rightarrow> int \<Rightarrow> wake" where
  "ex_wake s n = \<lparr>wk_shutdown = 0, wk_sigwait = 0, wk_clock1_ret = 0, wk_clock1 = \<lparr>tv_sec = 0, tv_nsec = 0\<rparr>,
     wk_sleep_ret = 0, wk_sleep_errno = 0, wk_clock2_ret = 0, wk_clock2 = \<lparr>tv_sec = s, tv_nsec = n\<rparr>,
     wk_overrun = 0\<rparr>"

definition ex_start :: start_in where
  "ex_start = \<lparr>si_tid = 7, si_affinity_ret = 0, si_sched_ret = 0, si_clock = \<lparr>tv_sec = 5, tv_nsec = 0\<rparr>,
     si_globalt = \<lparr>tv_sec = 0, tv_nsec = 0\<rparr>\<rparr>"

lemmas ex_defs = ex_cfg_def ex_par_def ex_stat_def ex_wake_def ex_start_def empty_stat_def

lemma ex_ok:
  "stat_wf ex_cfg ex_par ex_stat" "offset_ok ex_cfg ex_par" "0 < tp_interval ex_par"
  "0 \<le> n \<Longrightarrow> n < NSEC_PER_SEC \<Longrightarrow> wake_ok (ex_wake s n)"
  by (simp_all add: ex_defs stat_wf_def offset_ok_def wake_ok_def ts_normal_def)

theorem timerthread_total_witness:
  "(\<exists>t. timerthread ex_cfg ex_par ex_start [ex_wake 5 1003000] ex_stat
        \<lparr>sh_shutdown = 0, sh_break_id = 0, sh_break_value = 0\<rparr> = Some (Running t)) \<or>
   (\<exists>t. timerthread ex_cfg ex_par ex_start [ex_wake 5 1003000] ex_stat
        \<lparr>sh_shutdown = 0, sh_break_id = 0, sh_break_value = 0\<rparr> = Some (Exited t) \<and>
      st_threadstarted (t_stat t) = -1 \<and> last (t_log t) = SetScheduler SCHED_OTHER 0)"
proof -
  have ok: "ts_normal (si_globalt ex_start)" "ts_normal (si_clock ex_start)" "si_sched_ret ex_start = 0"
    "\<forall>w \<in> set [ex_wake 5 1003000]. wake_ok w"
    by (simp_all add: ex_defs ts_normal_def wake_ok_def)
  show ?thesis
    using timerthread_total [OF ex_ok(3,1,2) ok(1,2,4)] ok(3) by simp
qed

section \<open>The histogram and the deadlines\<close>


definition ex_t0 :: tstate where
  "ex_t0 = \<lparr>t_now = \<lparr>tv_sec = 5, tv_nsec = 0\<rparr>, t_next = \<lparr>tv_sec = 5, tv_nsec = 1000000\<rparr>, t_stopped = 0,
     t_stat = ex_stat, t_sh = \<lparr>sh_shutdown = 0, sh_break_id = 0, sh_break_value = 0\<rparr>, t_log = []\<rparr>"

definition ex_stop :: timespec where
  "ex_stop = \<lparr>tv_sec = 0, tv_nsec = 0\<rparr>"

lemma ex_t0_ok:
  "thread_wf ex_cfg ex_par ex_t0" "period_ok (thread_interval ex_par)"
  "st_cycles (t_stat ex_t0) = 0" "st_hist_overflow (t_stat ex_t0) = 0" "st_num_outliers (t_stat ex_t0) = 0"
  "c_histogram ex_cfg \<noteq> 0" "hist_total (t_stat ex_t0) = 0" "tp_max_cycles ex_par = 2"
  "c_tracelimit ex_cfg = 0" "c_duration ex_cfg = 0" "sh_shutdown (t_sh ex_t0) = 0"
  "ts_ns (t_next ex_t0) = 5001000000" "abs_mode ex_par" "ts_ns (thread_interval ex_par) = 1000000"
  using ex_ok(1) period_ok_thread_interval [OF ex_ok(3)]
  by (simp_all add: ex_t0_def thread_wf_def ts_normal_def ex_defs hist_total_def ts_ns_def
      abs_mode_def thread_interval_def)

lemma timer_loop_result:
  assumes "thread_wf cfg par t" and "period_ok interval" and "\<forall>w \<in> set ws. wake_ok w"
  shows "\<exists>t'. timer_loop cfg par interval stop ws t = Exited t' \<or> timer_loop cfg par interval stop ws t = Running t'"
  using timer_loop_total [OF assms, of stop] by (cases "timer_loop cfg par interval stop ws t") auto

lemma ex_wakes_ok: "\<forall>w \<in> set [ex_wake 5 1003000, ex_wake 5 4000000]. wake_ok w"
  by (simp add: ex_ok)


text \<open>
  C3: in the absolute modes the deadlines do not drift: after any run of the loop the next
  deadline is the first one plus a whole number of intervals, at least as many as cycles
  were completed.
\<close>

theorem deadlines_do_not_drift:
  assumes "thread_wf cfg par t" and "period_ok interval" and "\<forall>w \<in> set ws. wake_ok w"
    and "abs_mode par" and "st_cycles (t_stat t) = 0" and "hist_account cfg (t_stat t)"
    and "timer_loop cfg par interval stop ws t = Exited t' \<or> timer_loop cfg par interval stop ws t = Running t'"
  shows "\<exists>k. st_cycles (t_stat t') \<le> k \<and> ts_ns (t_next t') = ts_ns (t_next t) + k * ts_ns interval"
proof -
  have "tm_inv cfg par interval (ts_ns (t_next t)) t"
    using assms by (auto simp: tm_inv_def on_grid_def intro!: exI [of _ 0])
  from timer_loop_inv [OF assms(2,3) this assms(7)] show ?thesis
    using assms(4) by (simp add: tm_inv_def on_grid_def)
qed

theorem deadlines_do_not_drift_witness:
  "\<exists>t' k. (timer_loop ex_cfg ex_par (thread_interval ex_par) ex_stop [ex_wake 5 1003000, ex_wake 5 4000000] ex_t0 = Exited t' \<or>
     timer_loop ex_cfg ex_par (thread_interval ex_par) ex_stop [ex_wake 5 1003000, ex_wake 5 4000000] ex_t0 = Running t') \<and>
   st_cycles (t_stat t') \<le> k \<and> ts_ns (t_next t') = 5001000000 + k * 1000000"
proof -
  have "hist_account ex_cfg (t_stat ex_t0)"
    using ex_t0_ok(3-7) by (simp add: hist_account_def ex_defs)
  then show ?thesis
    using timer_loop_result [OF ex_t0_ok(1,2) ex_wakes_ok, of ex_stop]
      deadlines_do_not_drift [OF ex_t0_ok(1,2) ex_wakes_ok ex_t0_ok(13,3)] ex_t0_ok(12,14)
    by metis
qed

section \<open>When the loop stops\<close>

text \<open>A wake-up in which no call fails and nobody asks for a shutdown.\<close>

definition wake_quiet :: "wake \<Rightarrow> bool" where
  "wake_quiet w \<longleftrightarrow> wk_shutdown w = 0 \<and> 0 \<le> wk_sigwait w \<and> wk_clock1_ret w = 0 \<and> wk_sleep_ret w = 0 \<and>
     wk_clock2_ret w = 0"

lemma timer_iter_quiet:
  assumes "thread_wf cfg par t" and "period_ok interval" and "wake_ok w" and "wake_quiet w"
  shows "\<exists>t'. timer_iter cfg par interval stop w t = Continue t' \<or> timer_iter cfg par interval stop w t = Break t'"
proof -
  have "timer_iter cfg par interval stop w t \<noteq> Goto_out u" for u
  proof -
    have "snd (wait_period par interval w (t_now t) (t_next t)) \<noteq> None"
      using assms(4) by (auto simp: wait_period_def wake_quiet_def)
    then show ?thesis
      using assms(4) by (auto simp: timer_iter_def Let_def wake_quiet_def split: prod.splits option.splits)
  qed
  with timer_iter_total [OF assms(1-3), of stop] show ?thesis
    by (cases "timer_iter cfg par interval stop w t") auto
qed

lemma timer_iter_no_request:
  assumes "timer_iter cfg par interval stop w t = r" and "r = Continue t' \<or> r = Break t'"
    and "c_duration cfg = 0" and "c_tracelimit cfg = 0"
  shows "t_sh t' = t_sh t"
  using assms
  by (auto simp: timer_iter_def Let_def check_tracelimit_def
      split: prod.splits option.splits if_splits)

lemma timer_loop_max_cycles:
  assumes "period_ok interval" and "\<forall>w \<in> set ws. wake_ok w \<and> wake_quiet w"
    and "c_duration cfg = 0" and "c_tracelimit cfg = 0" and "tp_max_cycles par < 18446744073709551616"
    and "thread_wf cfg par t" and "sh_shutdown (t_sh t) = 0" and "st_cycles (t_stat t) < tp_max_cycles par"
  shows "if int (length ws) \<ge> tp_max_cycles par - st_cycles (t_stat t)
    then \<exists>t'. timer_loop cfg par interval stop ws t = Exited t' \<and> st_cycles (t_stat t') = tp_max_cycles par
    else \<exists>t'. timer_loop cfg par interval stop ws t = Running t' \<and>
      st_cycles (t_stat t') = st_cycles (t_stat t) + int (length ws)"
  using assms(2,6-8)
proof (induction ws arbitrary: t)
  case Nil
  then show ?case by simp
next
  case (Cons w ws)
  let ?t1 = "others_shutdown w t"
  have w: "wake_ok w" "wake_quiet w" using Cons.prems(1) by simp_all
  have wf1: "thread_wf cfg par ?t1" using Cons.prems(2) by (simp add: thread_wf_def)
  obtain r u where r: "timer_iter cfg par interval stop w ?t1 = r" "r = Continue u \<or> r = Break u"
    using timer_iter_quiet [OF wf1 assms(1) w, of stop] by blast
  have sh: "sh_shutdown (t_sh u) = 0"
    using timer_iter_no_request [OF r assms(3,4)] Cons.prems(3) w(2) by (simp add: wake_quiet_def)
  have c0: "0 \<le> st_cycles (t_stat t)" using Cons.prems(2) by (simp add: thread_wf_def stat_wf_def)
  obtain d where d: "iter_stat cfg par d (t_stat t) = Some (t_stat u)"
    "r = Break u \<longleftrightarrow> tp_max_cycles par \<noteq> 0 \<and> tp_max_cycles par = st_cycles (t_stat u)"
    using timer_iter_done [OF r] by auto
  have cyc: "st_cycles (t_stat u) = st_cycles (t_stat t) + 1"
    using iter_stat_frame(1) [OF d(1)] u64_fits [of "st_cycles (t_stat t) + 1"] c0 Cons.prems(4) assms(5)
    by simp
  have run: "sh_shutdown (t_sh ?t1) = 0" using Cons.prems(3) w(2) by (simp add: wake_quiet_def)
  show ?case
  proof (cases "st_cycles (t_stat u) = tp_max_cycles par")
    case True
    then have "r = Break u" using d(2) cyc c0 by auto
    with True r(1) run cyc show ?thesis by simp
  next
    case False
    then have co: "timer_iter cfg par interval stop w ?t1 = Continue u" using d(2) r by auto
    have "thread_wf cfg par u" using timer_iter_wf [OF r wf1 assms(1) w(1)] by simp
    then have "if int (length ws) \<ge> tp_max_cycles par - st_cycles (t_stat u)
      then \<exists>t'. timer_loop cfg par interval stop ws u = Exited t' \<and> st_cycles (t_stat t') = tp_max_cycles par
      else \<exists>t'. timer_loop cfg par interval stop ws u = Running t' \<and>
        st_cycles (t_stat t') = st_cycles (t_stat u) + int (length ws)"
      using Cons.prems(1,4) sh False cyc by (intro Cons.IH) auto
    with co run cyc show ?thesis by (auto split: if_splits)
  qed
qed

text \<open>
  C4: with \<open>--loops n\<close>, no limit and no failing call, the thread records exactly \<open>n\<close>
  samples: it leaves the loop at the \<open>n\<close>-th wake-up and not before.
\<close>

theorem loops_option_exact:
  assumes "period_ok interval" and "\<forall>w \<in> set ws. wake_ok w \<and> wake_quiet w"
    and "c_duration cfg = 0" and "c_tracelimit cfg = 0" and "0 < tp_max_cycles par"
    and "tp_max_cycles par < 18446744073709551616"
    and "thread_wf cfg par t" and "sh_shutdown (t_sh t) = 0" and "st_cycles (t_stat t) = 0"
  shows "if int (length ws) \<ge> tp_max_cycles par
    then \<exists>t'. timer_loop cfg par interval stop ws t = Exited t' \<and> st_cycles (t_stat t') = tp_max_cycles par
    else \<exists>t'. timer_loop cfg par interval stop ws t = Running t' \<and> st_cycles (t_stat t') = int (length ws)"
  using timer_loop_max_cycles [OF assms(1-4,6-8), of stop] assms(5,9) by auto

theorem loops_option_exact_witness:
  "(\<exists>t'. timer_loop ex_cfg ex_par (thread_interval ex_par) ex_stop [ex_wake 5 1003000, ex_wake 5 4000000] ex_t0 = Exited t' \<and>
      st_cycles (t_stat t') = 2) \<and>
   (\<exists>t'. timer_loop ex_cfg ex_par (thread_interval ex_par) ex_stop [ex_wake 5 1003000] ex_t0 = Running t' \<and>
      st_cycles (t_stat t') = 1)"
  using loops_option_exact [OF ex_t0_ok(2) _ ex_t0_ok(10,9) _ _ ex_t0_ok(1,11,3),
      of "[ex_wake 5 1003000, ex_wake 5 4000000]" ex_stop]
    loops_option_exact [OF ex_t0_ok(2) _ ex_t0_ok(10,9) _ _ ex_t0_ok(1,11,3), of "[ex_wake 5 1003000]" ex_stop]
    ex_t0_ok(8)
  by (simp add: ex_ok wake_quiet_def ex_wake_def wake_ok_def ts_normal_def)



text \<open>
  With \<open>--secaligned\<close> every thread starts on a full second, between a tenth of a second
  and 1.1 seconds after the clock was read, so the start is never in the past.
\<close>

theorem secaligned_start_in_future:
  assumes "ts_normal clock" and "secaligned \<noteq> 0"
  shows "tv_nsec (align_globalt secaligned clock) = 0 \<and>
    ts_ns clock + 100000000 \<le> ts_ns (align_globalt secaligned clock) \<and>
    ts_ns (align_globalt secaligned clock) < ts_ns clock + 1100000000"
  using assms by (auto simp: align_globalt_def ts_ns_def ts_normal_def)

theorem secaligned_start_in_future_witness:
  "ts_ns (align_globalt 1 \<lparr>tv_sec = 9, tv_nsec = 950000000\<rparr>) < 11050000000 \<and>
   ts_ns (align_globalt 1 \<lparr>tv_sec = 9, tv_nsec = 950000000\<rparr>) = 11000000000"
  using secaligned_start_in_future [of "\<lparr>tv_sec = 9, tv_nsec = 950000000\<rparr>" 1]
  by (simp add: ts_normal_def ts_ns_def align_globalt_def)

end
