(* ===== verification/CyclicReport.thy ===== *)
theory CyclicReport
  imports CyclicLoop
begin

text \<open>
  What cyclictest shows of its statistics: \<open>print_stat\<close> (the summary line, and in verbose mode
  the reader of the sample ring buffer), \<open>print_hist\<close> and \<open>print_tids\<close>. What is printed is a
  value that holds the printed numbers in their order; an access outside a buffer has no
  result.
\<close>

section \<open>print_stat\<close>

text \<open>
  The average: \<open>avg\<close> is a \<open>double\<close> that is divided by the cycles and truncated. On sums below
  $2^{53}$ this is C's integer division.
\<close>

definition stat_average :: "thread_stat \<Rightarrow> int" where
  "stat_average s = (if st_cycles s \<noteq> 0 then st_avg s sdiv st_cycles s else 0)"

datatype stat_line =
    Summary int int int int int int int int int  \<comment> \<open>T, tid, P, I, C, Min, Act, Avg, Max\<close>
  | Sample int int int                            \<comment> \<open>thread, cycle, value\<close>

definition stat_summary :: "thread_param \<Rightarrow> int \<Rightarrow> thread_stat \<Rightarrow> stat_line" where
  "stat_summary par index s =
     Summary index (st_tid s) (tp_prio par) (tp_interval par) (st_cycles s) (st_min s) (st_act s)
       (stat_average s) (st_max s)"

text \<open>One round of the verbose reader.\<close>

definition read_one ::
  "int \<Rightarrow> thread_param \<Rightarrow> int \<Rightarrow> thread_stat \<Rightarrow> (stat_line list \<times> thread_stat) option" where
  "read_one reduction par index s =
     do { diff \<leftarrow> c_read (st_values s) (st_cyclesread s AND tp_bufmsk par);
          let s1 = (if diff > st_redmax s then s\<lparr>st_redmax := diff, st_cycleofmax := st_cyclesread s\<rparr> else s);
              s2 = s1\<lparr>st_reduce := st_reduce s1 + 1\<rparr>;
              (out, s3) = (if st_reduce s2 = reduction
                           then ([Sample index (st_cycleofmax s2) (st_redmax s2)],
                                 s2\<lparr>st_reduce := 0, st_redmax := 0\<rparr>)
                           else ([], s2))
          in Some (out, s3\<lparr>st_cyclesread := u64 (st_cyclesread s3 + 1)\<rparr>) }"

lemma read_one_cycles:
  assumes "read_one reduction par index s = Some (out, s')"
  shows "st_cycles s' = st_cycles s" "st_cyclesread s' = u64 (st_cyclesread s + 1)"
    "st_values s' = st_values s"
  using assms by (auto simp: read_one_def Let_def split: Option.bind_splits if_splits prod.splits)

text \<open>The reader runs until it has caught up with the thread; both counters are unsigned.\<close>

function drain ::
  "int \<Rightarrow> thread_param \<Rightarrow> int \<Rightarrow> thread_stat \<Rightarrow> (stat_line list \<times> thread_stat) option" where
  "drain reduction par index s =
     (if u64 (st_cycles s - st_cyclesread s) = 0 then Some ([], s)
      else case read_one reduction par index s of
             None \<Rightarrow> None
           | Some (out, s1) \<Rightarrow>
               (case drain reduction par index s1 of
                  None \<Rightarrow> None
                | Some (outs, s2) \<Rightarrow> Some (out @ outs, s2)))"
  by pat_completeness auto
termination
proof (relation "measure (\<lambda>(_, _, _, s). nat (u64 (st_cycles s - st_cyclesread s)))", goal_cases)
  case 1
  show ?case by simp
next
  case (2 reduction par index s p out s1)
  then show ?case
    using u64_diff_step [of "st_cycles s" "st_cyclesread s"] u64_pos [of "st_cycles s - st_cyclesread s"]
    by (auto simp: read_one_cycles)
qed

declare drain.simps [simp del]

definition print_stat ::
  "int \<Rightarrow> thread_param \<Rightarrow> int \<Rightarrow> int \<Rightarrow> int \<Rightarrow> thread_stat \<Rightarrow> (stat_line list \<times> thread_stat) option" where
  "print_stat reduction par index verbose quiet s =
     (if verbose = 0
      then Some (if quiet \<noteq> 1 then [stat_summary par index s] else [], s)
      else drain reduction par index s)"

section \<open>print_tids and print_hist\<close>

definition print_tids :: "thread_stat list \<Rightarrow> int list" where
  "print_tids ss = map st_tid ss"

record hist_report =
  hr_rows :: "(int \<times> int list \<times> int option) list"
  hr_totals :: "int list"
  hr_total_all :: "int option"
  hr_min :: "int list"
  hr_avg :: "int list"
  hr_max :: "int list"
  hr_maxmax :: "int option"
  hr_overflows :: "int list"
  hr_alloverflow :: "int option"
  hr_outliers :: "(int list \<times> int option) list"

text \<open>The counts of one latency over the threads.\<close>

fun hist_column :: "thread_stat list \<Rightarrow> int \<Rightarrow> int list option" where
  "hist_column [] i = Some []"
| "hist_column (s # ss) i =
     do { n \<leftarrow> c_read (st_hist_array s) i; ns \<leftarrow> hist_column ss i; Some (u64 n # ns) }"

definition hist_row :: "bool \<Rightarrow> thread_stat list \<Rightarrow> int \<Rightarrow> (int \<times> int list \<times> int option) option" where
  "hist_row all ss i =
     do { ns \<leftarrow> hist_column ss i;
          Some (i, ns, if all then Some (u64 (sum_list ns)) else None) }"

fun hist_rows :: "bool \<Rightarrow> thread_stat list \<Rightarrow> int list \<Rightarrow> (int \<times> int list \<times> int option) list option" where
  "hist_rows all ss [] = Some []"
| "hist_rows all ss (i # is) =
     do { r \<leftarrow> hist_row all ss i; rs \<leftarrow> hist_rows all ss is; Some (r # rs) }"

text \<open>The maximum over the threads starts at 0 and compares as unsigned.\<close>

definition max_over :: "thread_stat list \<Rightarrow> int" where
  "max_over ss = fold (\<lambda>s m. if u64 (st_max s) > m then u64 (st_max s) else m) ss 0"

definition outlier_line :: "thread_stat \<Rightarrow> (int list \<times> int option) option" where
  "outlier_line s =
     (if st_num_outliers s \<le> int (length (st_outliers s))
      then Some (take (nat (st_num_outliers s)) (st_outliers s),
                 if st_num_outliers s < st_hist_overflow s
                 then Some (st_hist_overflow s - st_num_outliers s) else None)
      else None)"

fun outlier_lines :: "thread_stat list \<Rightarrow> (int list \<times> int option) list option" where
  "outlier_lines [] = Some []"
| "outlier_lines (s # ss) = do { l \<leftarrow> outlier_line s; ls \<leftarrow> outlier_lines ss; Some (l # ls) }"

definition print_hist :: "int \<Rightarrow> int \<Rightarrow> thread_stat list \<Rightarrow> hist_report option" where
  "print_hist histogram histofall ss =
     (let all = (histofall \<noteq> 0 \<and> length ss > 1)
      in do { rows \<leftarrow> hist_rows all ss [0..histogram - 1];
              outs \<leftarrow> outlier_lines ss;
              Some \<lparr>hr_rows = rows,
                    hr_totals = map (\<lambda>j. u64 (\<Sum>(i, ns, a) \<leftarrow> rows. ns ! j)) [0..<length ss],
                    hr_total_all =
                      (if all then Some (u64 (\<Sum>(i, ns, a) \<leftarrow> rows. (case a of Some n \<Rightarrow> n | None \<Rightarrow> 0)))
                       else None),
                    hr_min = map st_min ss,
                    hr_avg = map stat_average ss,
                    hr_max = map st_max ss,
                    hr_maxmax = (if all then Some (max_over ss) else None),
                    hr_overflows = map st_hist_overflow ss,
                    hr_alloverflow = (if all then Some (u64 (sum_list (map st_hist_overflow ss))) else None),
                    hr_outliers = outs\<rparr> })"

section \<open>The sample ring buffer\<close>

text \<open>The reader and the writer meet in the contract of a sample ring.\<close>

abbreviation VALBUF_SIZE :: int where "VALBUF_SIZE \<equiv> 16384"

definition ring_put :: "int \<Rightarrow> int \<Rightarrow> int list \<Rightarrow> int list" where
  "ring_put k v vs = vs[nat (k AND (VALBUF_SIZE - 1)) := v]"

definition ring_get :: "int \<Rightarrow> int list \<Rightarrow> int" where
  "ring_get k vs = vs ! nat (k AND (VALBUF_SIZE - 1))"

lemma ring_index: "k AND (VALBUF_SIZE - 1) = k mod VALBUF_SIZE"
  using and_pow2_mask [of k 14] by simp

lemma mod_window:
  assumes "0 \<le> j" and "j < k" and "k < j + n" and "0 < (n :: int)"
  shows "k mod n \<noteq> j mod n"
proof
  assume "k mod n = j mod n"
  then have "(k - j) mod n = 0" by (simp add: mod_diff_cong [of k n j j j])
  moreover have "(k - j) mod n = k - j" using assms by (intro mod_pos_pos_trivial) auto
  ultimately show False using assms(2) by simp
qed

interpretation valring: sample_ring ring_put ring_get VALBUF_SIZE "\<lambda>vs. int (length vs) = VALBUF_SIZE"
proof unfold_locales
  fix k j v :: int and b :: "int list"
  assume b: "int (length b) = VALBUF_SIZE"
  show "int (length (ring_put k v b)) = VALBUF_SIZE" using b by (simp add: ring_put_def)
  have "k mod VALBUF_SIZE < int (length b)" "0 \<le> k mod VALBUF_SIZE" by (simp_all add: b)
  then have lt: "nat (k AND (VALBUF_SIZE - 1)) < length b" unfolding ring_index by linarith
  show "ring_get k (ring_put k v b) = v"
    unfolding ring_get_def ring_put_def using lt by (rule nth_list_update_eq)
  assume "0 \<le> j" "j < k" "k < j + VALBUF_SIZE"
  then have "k mod VALBUF_SIZE \<noteq> j mod VALBUF_SIZE" by (intro mod_window) auto
  then have "nat (k AND (VALBUF_SIZE - 1)) \<noteq> nat (j AND (VALBUF_SIZE - 1))"
    unfolding ring_index by (simp add: nat_eq_iff)
  then show "ring_get j (ring_put k v b) = ring_get j b"
    unfolding ring_get_def ring_put_def by (rule nth_list_update_neq)
qed

fun iter_stats :: "cyc_cfg \<Rightarrow> thread_param \<Rightarrow> int list \<Rightarrow> thread_stat \<Rightarrow> thread_stat option" where
  "iter_stats cfg par [] s = Some s"
| "iter_stats cfg par (d # ds) s = do { s1 \<leftarrow> iter_stat cfg par d s; iter_stats cfg par ds s1 }"

definition verbose_block :: "thread_param \<Rightarrow> thread_stat \<Rightarrow> bool" where
  "verbose_block par s \<longleftrightarrow> tp_bufmsk par = VALBUF_SIZE - 1 \<and> int (length (st_values s)) = VALBUF_SIZE \<and>
     0 \<le> st_cycles s \<and> 0 \<le> st_cyclesread s"

lemma store_value_ring:
  assumes "store_value par d s = Some s'" and "tp_bufmsk par = VALBUF_SIZE - 1"
  shows "st_values s' = ring_put (st_cycles s) (s64 d) (st_values s) \<and>
    st_cyclesread s' = st_cyclesread s \<and> st_reduce s' = st_reduce s \<and> st_redmax s' = st_redmax s"
  using assms by (auto simp: store_value_def Let_def c_write_def ring_put_def
      split: if_splits Option.bind_splits)

lemma iter_stat_ring:
  assumes "iter_stat cfg par d s = Some s'" and "tp_bufmsk par = VALBUF_SIZE - 1"
  shows "st_values s' = ring_put (st_cycles s) (s64 d) (st_values s)"
    "st_cyclesread s' = st_cyclesread s" "st_reduce s' = st_reduce s" "st_redmax s' = st_redmax s"
proof -
  obtain s2 s3 where s: "store_value par d (update_minmax d s) = Some s2"
    "update_histogram cfg d s2 = Some s3" "s' = s3\<lparr>st_cycles := u64 (st_cycles s3 + 1)\<rparr>"
    using assms(1) by (auto simp: iter_stat_def split: Option.bind_splits)
  have h: "st_cyclesread s3 = st_cyclesread s2 \<and> st_reduce s3 = st_reduce s2 \<and> st_redmax s3 = st_redmax s2"
    using s(2) by (auto simp: update_histogram_def Let_def split: if_splits Option.bind_splits)
  have m: "st_cyclesread (update_minmax d s) = st_cyclesread s" "st_reduce (update_minmax d s) = st_reduce s"
    "st_redmax (update_minmax d s) = st_redmax s"
    by (simp_all add: update_minmax_def Let_def)
  show "st_values s' = ring_put (st_cycles s) (s64 d) (st_values s)"
    "st_cyclesread s' = st_cyclesread s" "st_reduce s' = st_reduce s" "st_redmax s' = st_redmax s"
    using store_value_ring [OF s(1) assms(2)] h m update_histogram_frame(5) [OF s(2)]
    by (simp_all add: s(3))
qed

lemma iter_stats_ring:
  assumes "iter_stats cfg par ds s = Some s'" and "tp_bufmsk par = VALBUF_SIZE - 1"
    and "0 \<le> st_cycles s" and "st_cycles s + int (length ds) < 18446744073709551616"
  shows "st_values s' = valring.put_all (st_cycles s) (map s64 ds) (st_values s) \<and>
    st_cycles s' = st_cycles s + int (length ds) \<and>
    st_cyclesread s' = st_cyclesread s \<and> st_reduce s' = st_reduce s \<and> st_redmax s' = st_redmax s"
  using assms(1,3,4)
proof (induction ds arbitrary: s)
  case Nil
  then show ?case by simp
next
  case (Cons d ds)
  then obtain s1 where s1: "iter_stat cfg par d s = Some s1" "iter_stats cfg par ds s1 = Some s'"
    by (auto split: Option.bind_splits)
  have c: "st_cycles s1 = st_cycles s + 1"
    using Cons.prems(2,3) iter_stat_frame(1) [OF s1(1)] by (simp add: u64_fits)
  show ?case
    using Cons.IH [OF s1(2)] Cons.prems(2,3) c iter_stat_ring [OF s1(1) assms(2)] by auto
qed

lemma read_one_positive:
  assumes "tp_bufmsk par = VALBUF_SIZE - 1" and "int (length (st_values s)) = VALBUF_SIZE"
    and "st_reduce s = 0" and "st_redmax s = 0" and "0 < ring_get (st_cyclesread s) (st_values s)"
  shows "read_one 1 par index s =
    Some ([Sample index (st_cyclesread s) (ring_get (st_cyclesread s) (st_values s))],
      s\<lparr>st_cycleofmax := st_cyclesread s, st_reduce := 0, st_redmax := 0,
        st_cyclesread := u64 (st_cyclesread s + 1)\<rparr>)"
proof -
  have "c_read (st_values s) (st_cyclesread s AND tp_bufmsk par) =
      Some (ring_get (st_cyclesread s) (st_values s))"
    unfolding ring_get_def assms(1) by (rule c_read_in) (simp_all add: ring_index assms(2) del: diff_numeral_simps)
  with assms(3-5) show ?thesis by (simp add: read_one_def Let_def)
qed

lemma drain_positive:
  assumes "tp_bufmsk par = VALBUF_SIZE - 1" and "int (length (st_values s)) = VALBUF_SIZE"
    and "st_reduce s = 0" and "st_redmax s = 0" and "0 \<le> st_cyclesread s"
    and "st_cycles s = st_cyclesread s + int n" and "st_cycles s < 18446744073709551616"
    and "\<forall>i < n. 0 < ring_get (st_cyclesread s + int i) (st_values s)"
  shows "\<exists>s'. drain 1 par index s =
      Some (map (\<lambda>i. Sample index (st_cyclesread s + int i)
                       (ring_get (st_cyclesread s + int i) (st_values s))) [0..<n], s') \<and>
    st_cyclesread s' = st_cycles s"
  using assms(2-)
proof (induction n arbitrary: s)
  case 0
  then show ?case by (simp add: drain.simps [of 1 par index s])
next
  case (Suc n)
  let ?r = "st_cyclesread s"
  let ?s1 = "s\<lparr>st_cycleofmax := ?r, st_reduce := 0, st_redmax := 0, st_cyclesread := u64 (?r + 1)\<rparr>"
  have r1: "u64 (?r + 1) = ?r + 1" using Suc.prems by (intro u64_fits) auto
  have "ring_get ?r (st_values s) > 0" using Suc.prems(7) [rule_format, of 0] by simp
  from read_one_positive [OF assms(1) Suc.prems(1-3) this]
  have one: "read_one 1 par index s = Some ([Sample index ?r (ring_get ?r (st_values s))], ?s1)" .
  have "u64 (st_cycles s - ?r) = st_cycles s - ?r"
    using Suc.prems(4-6) by (intro u64_fits) auto
  then have go: "u64 (st_cycles s - ?r) \<noteq> 0" using Suc.prems(5) by simp
  have pos: "\<forall>i < n. 0 < ring_get (?r + 1 + int i) (st_values s)"
    using Suc.prems(7) by (auto simp: algebra_simps dest: spec [of _ "Suc _"])
  have "\<exists>s'. drain 1 par index ?s1 =
      Some (map (\<lambda>i. Sample index (st_cyclesread ?s1 + int i)
                       (ring_get (st_cyclesread ?s1 + int i) (st_values ?s1))) [0..<n], s') \<and>
      st_cyclesread s' = st_cycles ?s1"
    using Suc.prems r1 pos by (intro Suc.IH) auto
  then obtain s' where rest: "drain 1 par index ?s1 =
      Some (map (\<lambda>i. Sample index (?r + 1 + int i) (ring_get (?r + 1 + int i) (st_values s))) [0..<n], s')"
    "st_cyclesread s' = st_cycles s"
    using r1 by auto
  have split: "map (\<lambda>i. Sample index (?r + int i) (ring_get (?r + int i) (st_values s))) [0..<Suc n] =
      Sample index ?r (ring_get ?r (st_values s)) #
      map (\<lambda>i. Sample index (?r + 1 + int i) (ring_get (?r + 1 + int i) (st_values s))) [0..<n]"
    by (simp add: upt_conv_Cons map_Suc_upt [symmetric] algebra_simps del: upt_Suc)
  show ?case
    unfolding split using go one rest by (subst drain.simps) simp
qed


definition verbose_par :: thread_param where
  "verbose_par = ex_par\<lparr>tp_bufmsk := 16383\<rparr>"

definition verbose_stat :: thread_stat where
  "verbose_stat = empty_stat\<lparr>st_values := replicate 16384 0\<rparr>"


text \<open>
  A sample of zero is not printed under its own cycle: the reader's running maximum starts at
  zero and the comparison is strict, so the line shows the cycle of an earlier sample.
\<close>

theorem verbose_reader_zero_sample:
  assumes "c_read (st_values s) (st_cyclesread s AND tp_bufmsk par) = Some 0"
    and "st_reduce s = 0" and "st_redmax s = 0"
  shows "\<exists>s'. read_one 1 par index s = Some ([Sample index (st_cycleofmax s) 0], s')"
  using assms by (simp add: read_one_def Let_def)

theorem verbose_reader_zero_sample_witness:
  "\<exists>s'. read_one 1 verbose_par 0 (verbose_stat\<lparr>st_cyclesread := 5, st_cycleofmax := 4\<rparr>) =
     Some ([Sample 0 4 0], s')"
proof -
  have "c_read (replicate 16384 (0 :: int)) (5 AND 16383) = Some 0" by (simp add: c_read_def)
  then show ?thesis
    using verbose_reader_zero_sample [of "verbose_stat\<lparr>st_cyclesread := 5, st_cycleofmax := 4\<rparr>" verbose_par 0]
    by (simp add: verbose_stat_def verbose_par_def empty_stat_def)
qed

section \<open>The histogram report\<close>

definition hist_block :: "int \<Rightarrow> thread_stat \<Rightarrow> bool" where
  "hist_block histogram s \<longleftrightarrow> int (length (st_hist_array s)) = histogram \<and>
     (\<forall>n \<in> set (st_hist_array s). 0 \<le> n) \<and> sum_list (st_hist_array s) < 18446744073709551616 \<and>
     st_num_outliers s \<le> int (length (st_outliers s))"

lemma hist_entry:
  assumes "hist_block histogram s" and "0 \<le> i" and "i < histogram"
  shows "c_read (st_hist_array s) i = Some (st_hist_array s ! nat i)"
    and "u64 (st_hist_array s ! nat i) = st_hist_array s ! nat i"
proof -
  have i: "nat i < length (st_hist_array s)" using assms unfolding hist_block_def by linarith
  then show "c_read (st_hist_array s) i = Some (st_hist_array s ! nat i)"
    using assms by (intro c_read_in) (auto simp: hist_block_def)
  have "0 \<le> st_hist_array s ! nat i" using assms(1) i by (simp add: hist_block_def)
  moreover have "st_hist_array s ! nat i \<le> sum_list (st_hist_array s)"
    using assms(1) i by (intro member_le_sum_list) (auto simp: hist_block_def)
  ultimately show "u64 (st_hist_array s ! nat i) = st_hist_array s ! nat i"
    using assms(1) by (intro u64_fits) (auto simp: hist_block_def)
qed

lemma hist_column_eq:
  assumes "\<forall>s \<in> set ss. hist_block histogram s" and "0 \<le> i" and "i < histogram"
  shows "hist_column ss i = Some (map (\<lambda>s. st_hist_array s ! nat i) ss)"
  using assms(1) by (induction ss) (simp_all add: hist_entry [OF _ assms(2,3)])

definition hist_row_spec :: "bool \<Rightarrow> thread_stat list \<Rightarrow> int \<Rightarrow> int \<times> int list \<times> int option" where
  "hist_row_spec all ss i =
     (i, map (\<lambda>s. st_hist_array s ! nat i) ss,
      if all then Some (u64 (sum_list (map (\<lambda>s. st_hist_array s ! nat i) ss))) else None)"

lemma hist_rows_eq:
  assumes "\<forall>s \<in> set ss. hist_block histogram s" and "\<forall>i \<in> set is. 0 \<le> i \<and> i < histogram"
  shows "hist_rows all ss is = Some (map (hist_row_spec all ss) is)"
  using assms(2)
  by (induction "is")
    (simp_all add: hist_row_def hist_row_spec_def hist_column_eq [OF assms(1)])

lemma outlier_lines_total: "\<forall>s \<in> set ss. hist_block histogram s \<Longrightarrow> \<exists>ls. outlier_lines ss = Some ls"
  by (induction ss) (auto simp: outlier_line_def hist_block_def)

lemma sum_over_index: "(\<Sum>i \<leftarrow> [0..int (length xs) - 1]. f (xs ! nat i)) = (\<Sum>x \<leftarrow> xs. f x)"
proof -
  have "map (\<lambda>i. f (xs ! nat i)) [0..int (length xs) - 1] = map f xs"
    by (rule nth_equalityI) auto
  then show ?thesis by simp
qed



end
