(* ===== verification/CyclicMain.thy ===== *)
theory CyclicMain
  imports CyclicReport CyclicOptions
begin

text \<open>
  cyclictest's \<open>main\<close>: the measurement of the clock's resolution, the creation of the
  measuring threads with their blocks, one round of the display loop, and the shutdown of the
  threads. What the system calls return is an input; a null pointer that is followed is a
  missing result.
\<close>

section \<open>The clock resolution check\<close>

text \<open>
  How many readings to take, from the time the first thousand took: \<open>None\<close> for the division
  by a call time of zero.
\<close>

definition resolution_times :: "int \<Rightarrow> int option" where
  "resolution_times diff =
     (if diff = 0 then Some 100000
      else let call_time = s32 (diff div 1000)
           in if call_time = 0 then None
              else let n = (NSEC_PER_SEC sdiv call_time) sdiv 1000;
                       n1 = (if n < 1000 then 1000 else n)
                   in Some (if n1 \<le> 0 \<or> n1 > 100000 then 100000 else n1))"

text \<open>The smallest step of the clock between consecutive readings; starts at the largest value.\<close>

fun min_step :: "timespec \<Rightarrow> timespec list \<Rightarrow> int \<Rightarrow> int" where
  "min_step prev [] m = m"
| "min_step prev (t # ts) m =
     (let diff = u64 (calcdiff_ns t prev)
      in min_step t ts (if diff \<noteq> 0 \<and> diff < m then diff else m))"

definition reported_resolution :: "int \<Rightarrow> timespec \<Rightarrow> int" where
  "reported_resolution getres_ret res =
     (if getres_ret \<noteq> 0 then ULONG_MAX else u64 (NSEC_PER_SEC * tv_sec res + tv_nsec res))"

text \<open>The two numbers that are printed, if they are.\<close>

definition resolution_check ::
  "int \<Rightarrow> int \<Rightarrow> timespec \<Rightarrow> timespec list \<Rightarrow> (int \<times> int) option" where
  "resolution_check verbose getres_ret res readings =
     (let reported = reported_resolution getres_ret res;
          measured = (case readings of [] \<Rightarrow> ULONG_MAX | t # ts \<Rightarrow> min_step t ts ULONG_MAX)
      in if verbose \<noteq> 0 \<or> (measured \<noteq> 0 \<and> measured > reported)
         then Some (reported, measured) else None)"

section \<open>Creating the threads\<close>

text \<open>The variables the loop over the threads changes, and its fixed settings.\<close>

record create_state =
  cs_priority :: int
  cs_interval :: int
  cs_force_other :: int

record create_cfg =
  cc_policy :: int
  cc_distance :: int
  cc_histogram :: int
  cc_verbose :: int
  cc_priospread :: int
  cc_clock :: int
  cc_mode :: int
  cc_timermode :: int
  cc_max_cycles :: int
  cc_setaffinity :: affinity_mode
  cc_mask :: "bitmask option"
  cc_max_cpus :: int
  cc_numa :: int

text \<open>What the calls for one thread answer.\<close>

record create_in =
  ci_attr_init :: int
  ci_node :: int
  ci_getstack :: int
  ci_stksize :: int
  ci_stack :: bool
  ci_setstack :: int
  ci_par :: bool
  ci_stat :: bool
  ci_hist :: bool
  ci_values :: bool
  ci_create :: int

datatype create_error = CreateFatal string | GotoOutall "thread_stat" | CreateUndefined

abbreviation (input) SIGALRM :: int where "SIGALRM \<equiv> 14"

text \<open>The NUMA part: the node, and the errors on the way to the thread's stack.\<close>

definition thread_node :: "create_cfg \<Rightarrow> create_in \<Rightarrow> create_error + int" where
  "thread_node cfg ci =
     (if cc_numa cfg = 0 then Inr (-1)
      else if ci_node ci = -1 then Inl (CreateFatal ''invalid cpu passed to numa_node_of_cpu'')
      else if ci_getstack ci \<noteq> 0 then Inl (CreateFatal ''failed to get stack size'')
      else if \<not> ci_stack ci then Inl (CreateFatal ''failed to allocate stack'')
      else if ci_setstack ci \<noteq> 0 then Inl (CreateFatal ''failed to set stack addr'')
      else Inr (ci_node ci))"

definition zero_stat :: thread_stat where
  "zero_stat = \<lparr>st_cycles = 0, st_cyclesread = 0, st_min = 0, st_max = 0, st_act = 0, st_avg = 0,
     st_values = [], st_hist_array = [], st_outliers = [], st_threadstarted = 0, st_tid = 0,
     st_reduce = 0, st_redmax = 0, st_cycleofmax = 0, st_hist_overflow = 0, st_num_outliers = 0\<rparr>"

text \<open>The statistics block with its buffers.\<close>

definition alloc_stat :: "create_cfg \<Rightarrow> create_in \<Rightarrow> create_error + thread_stat" where
  "alloc_stat cfg ci =
     (let s1 = (if cc_histogram cfg \<noteq> 0
                then zero_stat\<lparr>st_hist_array := replicate (nat (cc_histogram cfg)) 0,
                               st_outliers := replicate (nat (cc_histogram cfg)) 0\<rparr>
                else zero_stat)
      in if cc_histogram cfg \<noteq> 0 \<and> \<not> ci_hist ci then Inl (CreateFatal ''failed to allocate histogram'')
         else if cc_verbose cfg \<noteq> 0
         then if ci_values ci then Inr (s1\<lparr>st_values := replicate (nat VALBUF_SIZE) 0\<rparr>)
              else Inl (GotoOutall s1)
         else Inr s1)"

definition thread_cpu :: "create_cfg \<Rightarrow> int \<Rightarrow> int option" where
  "thread_cpu cfg i =
     (case cc_setaffinity cfg of
        AFFINITY_UNSPECIFIED \<Rightarrow> Some (-1)
      | AFFINITY_SPECIFIED \<Rightarrow>
          (case cc_mask cfg of None \<Rightarrow> None | Some m \<Rightarrow> cpu_for_thread m i (cc_max_cpus cfg))
      | AFFINITY_USEALL \<Rightarrow> if cc_max_cpus cfg = 0 then None else Some (i smod cc_max_cpus cfg))"

text \<open>The parameter block, the statistics block and the variables after thread \<open>i\<close>.\<close>

definition wants_rt :: "create_cfg \<Rightarrow> create_state \<Rightarrow> bool" where
  "wants_rt cfg cs \<longleftrightarrow> cs_priority cs \<noteq> 0 \<and> (cc_policy cfg = SCHED_FIFO \<or> cc_policy cfg = SCHED_RR)"

definition make_param :: "create_cfg \<Rightarrow> int \<Rightarrow> int \<Rightarrow> int \<Rightarrow> create_state \<Rightarrow> thread_param" where
  "make_param cfg node cpu i cs =
     \<lparr>tp_prio = cs_priority cs,
      tp_policy = (if wants_rt cfg cs then cc_policy cfg else SCHED_OTHER),
      tp_mode = cc_mode cfg, tp_timermode = cc_timermode cfg, tp_signal = SIGALRM,
      tp_clock = cc_clock cfg, tp_max_cycles = u64 (cc_max_cycles cfg),
      tp_bufmsk = (if cc_verbose cfg \<noteq> 0 then VALBUF_SIZE - 1 else 0),
      tp_interval = u64 (cs_interval cs), tp_cpu = cpu, tp_node = node, tp_tnum = i\<rparr>"

definition start_stat :: "thread_stat \<Rightarrow> thread_stat" where
  "start_stat s = s\<lparr>st_min := 1000000, st_max := 0, st_avg := 0, st_threadstarted := 1\<rparr>"

definition next_create_state :: "create_cfg \<Rightarrow> create_state \<Rightarrow> create_state" where
  "next_create_state cfg cs =
     \<lparr>cs_priority = (if cc_priospread cfg \<noteq> 0 then cs_priority cs - 1 else cs_priority cs),
      cs_interval = (if cc_histogram cfg = 0 then s32 (cs_interval cs + cc_distance cfg) else cs_interval cs),
      cs_force_other = (if wants_rt cfg cs then cs_force_other cs else 1)\<rparr>"

text \<open>The body of the loop that creates thread \<open>i\<close>.\<close>

definition create_thread ::
  "create_cfg \<Rightarrow> create_in \<Rightarrow> int \<Rightarrow> create_state
     \<Rightarrow> create_error + (thread_param \<times> thread_stat \<times> create_state)" where
  "create_thread cfg ci i cs =
     (if ci_attr_init ci \<noteq> 0 then Inl (CreateFatal ''error from pthread_attr_init'')
      else case thread_node cfg ci of
        Inl e \<Rightarrow> Inl e
      | Inr node \<Rightarrow>
          if \<not> ci_par ci then Inl (CreateFatal ''error allocating thread_param struct'')
          else if \<not> ci_stat ci then Inl (CreateFatal ''error allocating thread status struct'')
          else case alloc_stat cfg ci of
            Inl e \<Rightarrow> Inl e
          | Inr stat \<Rightarrow>
              (case thread_cpu cfg i of
                 None \<Rightarrow> Inl CreateUndefined
               | Some cpu \<Rightarrow>
                   if ci_create ci \<noteq> 0 then Inl (CreateFatal ''failed to create thread'')
                   else Inr (make_param cfg node cpu i cs, start_stat stat, next_create_state cfg cs)))"

text \<open>The loop over the threads: what was created before an error, and the error.\<close>

fun create_threads ::
  "create_cfg \<Rightarrow> create_in list \<Rightarrow> int \<Rightarrow> create_state
     \<Rightarrow> (thread_param \<times> thread_stat) list \<times> create_error option \<times> create_state" where
  "create_threads cfg [] i cs = ([], None, cs)"
| "create_threads cfg (ci # cis) i cs =
     (case create_thread cfg ci i cs of
        Inl e \<Rightarrow> ([], Some e, cs)
      | Inr (par, stat, cs1) \<Rightarrow>
          (case create_threads cfg cis (i + 1) cs1 of
             (ps, e, cs2) \<Rightarrow> ((par, stat) # ps, e, cs2)))"

section \<open>The display loop\<close>

text \<open>
  One round: the lines printed for all threads, then the test that ends the display. The
  counter is called \<open>allstopped\<close>; the loop ends when it is not zero.
\<close>

fun print_stats ::
  "int \<Rightarrow> int \<Rightarrow> int \<Rightarrow> int \<Rightarrow> (thread_param \<times> thread_stat) list
     \<Rightarrow> (stat_line list \<times> (thread_param \<times> thread_stat) list) option" where
  "print_stats reduction verbose quiet i [] = Some ([], [])"
| "print_stats reduction verbose quiet i ((par, s) # ps) =
     do { (out, s1) \<leftarrow> print_stat reduction par i verbose quiet s;
          (outs, ps1) \<leftarrow> print_stats reduction verbose quiet (i + 1) ps;
          Some (out @ outs, (par, s1) # ps1) }"

definition allstopped :: "int \<Rightarrow> (thread_param \<times> thread_stat) list \<Rightarrow> int" where
  "allstopped max_cycles ps =
     int (length (filter (\<lambda>(par, s). max_cycles \<noteq> 0 \<and> st_cycles s \<ge> u64 max_cycles) ps))"

definition display_round ::
  "int \<Rightarrow> int \<Rightarrow> int \<Rightarrow> int \<Rightarrow> int \<Rightarrow> (thread_param \<times> thread_stat) list
     \<Rightarrow> (stat_line list \<times> (thread_param \<times> thread_stat) list \<times> bool) option" where
  "display_round reduction verbose quiet max_cycles shutdown ps =
     do { (out, ps1) \<leftarrow> print_stats reduction verbose quiet 0 ps;
          Some (out, ps1, shutdown \<noteq> 0 \<or> allstopped max_cycles ps1 \<noteq> 0) }"

section \<open>Stopping the threads\<close>

datatype stop_op = KillThread int | JoinThread int | PrintStat int | FreeValues int

text \<open>
  For each thread of \<open>statistics\<close> (\<open>None\<close> where the pointer is null) the signal, the join and the
  summary; \<open>None\<close> as soon as a null pointer is followed.
\<close>

definition stop_thread :: "int \<Rightarrow> int \<Rightarrow> int \<Rightarrow> thread_stat option \<Rightarrow> stop_op list option" where
  "stop_thread quiet histogram i so =
     (case so of
        None \<Rightarrow> None
      | Some s \<Rightarrow>
          Some ((if st_threadstarted s > 0 then [KillThread i] else []) @
                (if st_threadstarted s \<noteq> 0
                 then JoinThread i # (if quiet \<noteq> 0 \<and> histogram = 0 then [PrintStat i] else [])
                 else []) @
                (if st_values s \<noteq> [] then [FreeValues i] else [])))"

fun stop_threads :: "int \<Rightarrow> int \<Rightarrow> int \<Rightarrow> thread_stat option list \<Rightarrow> stop_op list option" where
  "stop_threads quiet histogram i [] = Some []"
| "stop_threads quiet histogram i (so # ss) =
     do { ops \<leftarrow> stop_thread quiet histogram i so;
          rest \<leftarrow> stop_threads quiet histogram (i + 1) ss;
          Some (ops @ rest) }"

text \<open>What \<open>main\<close> reports about a break of the trace: the thread ids, then id and value.\<close>

definition break_report :: "int \<Rightarrow> cyc_shared \<Rightarrow> thread_stat list \<Rightarrow> (int list \<times> (int \<times> int) option) option" where
  "break_report tracelimit sh ss =
     (if tracelimit = 0 then None
      else Some (print_tids ss,
                 if sh_break_id sh \<noteq> 0 then Some (sh_break_id sh, sh_break_value sh) else None))"

section \<open>The final clean-up\<close>

datatype exit_op =
    TracingStop | CloseTracemark | CloseTrace | EventDisableAll | SetFtraceEnabled0
  | Munlockall | RestoreKernvars | CloseLatencyTarget | FreeAffinityMask

definition final_cleanup ::
  "trace_opts \<Rightarrow> sched_opts \<Rightarrow> int \<Rightarrow> int \<Rightarrow> int \<Rightarrow> kernel_version \<Rightarrow> exit_op list" where
  "final_cleanup tr sc tracemark_fd trace_fd latency_fd kv =
     (if o_tracelimit tr \<noteq> 0 \<and> o_notrace tr = 0 then [TracingStop] else []) @
     (if tracemark_fd \<ge> 0 then [CloseTracemark] else []) @
     (if trace_fd \<ge> 0 then [CloseTrace] else []) @
     (if o_enable_events tr \<noteq> 0 then [EventDisableAll] else []) @
     (if o_tracetype tr \<noteq> NOTRACE \<and> o_notrace tr = 0 then [SetFtraceEnabled0] else []) @
     (if o_lockall sc \<noteq> 0 then [Munlockall] else []) @
     (if kv \<in> {KV_NOT_SUPPORTED, KV_26_LT18, KV_26_LT24} then [RestoreKernvars] else []) @
     (if latency_fd \<ge> 0 then [CloseLatencyTarget] else []) @
     (if o_affinity_mask sc \<noteq> None then [FreeAffinityMask] else [])"

section \<open>Properties\<close>

text \<open>
  The resolution check divides by zero when a thousand readings of the clock took less
  than a microsecond but more than nothing; otherwise it takes between 1000 and 100000 readings.
\<close>

theorem resolution_times_bounds:
  assumes "0 \<le> diff" and "diff < 2147483648000"
  shows "if 0 < diff \<and> diff < 1000 then resolution_times diff = None
    else \<exists>n. resolution_times diff = Some n \<and> 1000 \<le> n \<and> n \<le> 100000"
proof -
  have "s32 (diff div 1000) = diff div 1000" using assms by (intro s32_fits) auto
  then show ?thesis using assms by (auto simp: resolution_times_def Let_def)
qed

theorem resolution_times_bounds_witness:
  "resolution_times 900 = None \<and> (\<exists>n. resolution_times 45000 = Some n \<and> 1000 \<le> n \<and> n \<le> 100000)"
  using resolution_times_bounds [of 900] resolution_times_bounds [of 45000] by simp

lemma create_threadD:
  assumes "create_thread cfg ci i cs = Inr (par, s, cs1)"
  shows "\<exists>node cpu stat. alloc_stat cfg ci = Inr stat \<and> par = make_param cfg node cpu i cs \<and>
    s = start_stat stat \<and> cs1 = next_create_state cfg cs"
  using assms by (auto simp: create_thread_def split: sum.splits option.splits if_splits)

lemma alloc_statD:
  assumes "alloc_stat cfg ci = Inr s"
  shows "st_values s = (if cc_verbose cfg \<noteq> 0 then replicate (nat VALBUF_SIZE) 0 else [])"
    "st_hist_array s = (if cc_histogram cfg \<noteq> 0 then replicate (nat (cc_histogram cfg)) 0 else [])"
    "st_outliers s = (if cc_histogram cfg \<noteq> 0 then replicate (nat (cc_histogram cfg)) 0 else [])"
    "st_cycles s = 0" "st_num_outliers s = 0" "st_hist_overflow s = 0"
  using assms by (auto simp: alloc_stat_def Let_def zero_stat_def split: if_splits)

lemma start_stat_sel [simp]:
  "st_values (start_stat s) = st_values s" "st_hist_array (start_stat s) = st_hist_array s"
  "st_outliers (start_stat s) = st_outliers s" "st_cycles (start_stat s) = st_cycles s"
  "st_num_outliers (start_stat s) = st_num_outliers s" "st_hist_overflow (start_stat s) = st_hist_overflow s"
  "st_min (start_stat s) = 1000000" "st_max (start_stat s) = 0" "st_avg (start_stat s) = 0"
  by (simp_all add: start_stat_def)

lemma created_stat_wf:
  assumes "alloc_stat cfg ci = Inr s" and "0 \<le> cc_histogram cfg" and "cc_histogram cfg < 2147483648"
    and "c_histogram cyc = cc_histogram cfg" and "tp_bufmsk par = (if cc_verbose cfg \<noteq> 0 then VALBUF_SIZE - 1 else 0)"
  shows "stat_wf cyc par (start_stat s)"
  using assms(2-) unfolding stat_wf_def by (simp add: alloc_statD [OF assms(1)])

text \<open>What the loop promises of the \<open>k\<close>-th thread.\<close>

definition created_ok :: "create_cfg \<Rightarrow> create_state \<Rightarrow> nat \<Rightarrow> thread_param \<times> thread_stat \<Rightarrow> bool" where
  "created_ok cfg cs k = (\<lambda>(par, s).
     tp_prio par = cs_priority cs - (if cc_priospread cfg \<noteq> 0 then int k else 0) \<and>
     tp_interval par = cs_interval cs + (if cc_histogram cfg = 0 then int k * cc_distance cfg else 0) \<and>
     (\<forall>cyc. c_histogram cyc = cc_histogram cfg \<longrightarrow> stat_wf cyc par s) \<and>
     hist_total s = 0 \<and> st_cycles s = 0 \<and> st_min s = 1000000 \<and> st_max s = 0 \<and> st_avg s = 0)"

lemma create_threads_nth:
  assumes "0 \<le> cc_histogram cfg" and "cc_histogram cfg < 2147483648" and "0 \<le> cc_distance cfg"
    and "0 \<le> cs_interval cs" and "cs_interval cs + int (length cis) * cc_distance cfg < 2147483648"
    and "create_threads cfg cis i cs = (ps, None, cs')"
  shows "length ps = length cis \<and> (\<forall>k < length ps. created_ok cfg cs k (ps ! k))"
  using assms(4-)
proof (induction cis arbitrary: i cs ps)
  case Nil
  then show ?case by simp
next
  case (Cons ci cis)
  obtain par s cs1 where c: "create_thread cfg ci i cs = Inr (par, s, cs1)"
    using Cons.prems(3) by (cases "create_thread cfg ci i cs") auto
  obtain qs where qs: "create_threads cfg cis (i + 1) cs1 = (qs, None, cs')" "ps = (par, s) # qs"
    using Cons.prems(3) c by (auto split: prod.splits)
  obtain node cpu stat where d: "alloc_stat cfg ci = Inr stat" "par = make_param cfg node cpu i cs"
    "s = start_stat stat" "cs1 = next_create_state cfg cs"
    using create_threadD [OF c] by blast
  have bound: "cs_interval cs + cc_distance cfg + int (length cis) * cc_distance cfg < 2147483648"
    using Cons.prems(2) by (simp add: algebra_simps)
  then have dist: "cs_interval cs + cc_distance cfg < 2147483648"
    using mult_nonneg_nonneg [of "int (length cis)" "cc_distance cfg"] assms(3) by linarith
  have le: "cs_interval cs < 2147483648" using dist assms(3) by linarith
  have iv: "cs_interval cs1 = cs_interval cs + (if cc_histogram cfg = 0 then cc_distance cfg else 0)"
    using dist assms(3) Cons.prems(1) by (simp add: d(4) next_create_state_def s32_fits)
  have ih: "length qs = length cis \<and> (\<forall>k < length qs. created_ok cfg cs1 k (qs ! k))"
  proof (rule Cons.IH [OF _ _ qs(1)])
    show "0 \<le> cs_interval cs1" using iv assms(3) Cons.prems(1) by simp
    show "cs_interval cs1 + int (length cis) * cc_distance cfg < 2147483648"
      using iv bound assms(3) by (cases "cc_histogram cfg = 0") auto
  qed
  have head: "created_ok cfg cs 0 (par, s)"
    unfolding created_ok_def d(2,3) split_def fst_conv snd_conv
    using created_stat_wf [OF d(1) assms(1,2)] le Cons.prems(1)
    by (simp add: make_param_def u64_fits hist_total_def sum_list_replicate alloc_statD [OF d(1)])
  have "created_ok cfg cs (Suc k) (qs ! k)" if "k < length qs" for k
  proof -
    have "created_ok cfg cs1 k (qs ! k)" using ih that by simp
    then show ?thesis
      using iv by (auto simp: created_ok_def d(4) next_create_state_def algebra_simps split: prod.splits if_splits)
  qed
  with head ih qs(2) show ?case by (auto simp: less_Suc_eq_0_disj)
qed

text \<open>
  The \<open>k\<close>-th thread gets the \<open>k\<close>-th priority below the first with \<open>--priospread\<close> and the
  \<open>k\<close>-th interval above the first without a histogram; started on the blocks it is given, its
  thread function runs without an access outside its buffers.
\<close>

theorem created_threads_spread_and_run:
  assumes "0 \<le> cc_histogram cfg" and "cc_histogram cfg < 2147483648" and "0 \<le> cc_distance cfg"
    and "0 < cs_interval cs" and "cs_interval cs + int (length cis) * cc_distance cfg < 2147483648"
    and "create_threads cfg cis 0 cs = (ps, None, cs')" and "k < length ps" and "ps ! k = (par, s)"
    and "c_histogram cyc = cc_histogram cfg" and "c_offset cyc = 0" and "si_sched_ret si = 0"
    and "ts_normal (si_globalt si)" and "ts_normal (si_clock si)" and "\<forall>w \<in> set ws. wake_ok w"
  shows "tp_prio par = cs_priority cs - (if cc_priospread cfg \<noteq> 0 then int k else 0) \<and>
    tp_interval par = cs_interval cs + (if cc_histogram cfg = 0 then int k * cc_distance cfg else 0) \<and>
    (\<exists>t. timerthread cyc par si ws s sh = Some (Exited t) \<or> timerthread cyc par si ws s sh = Some (Running t))"
proof -
  have "created_ok cfg cs k (par, s)"
    using create_threads_nth [OF assms(1-3) _ assms(5,6)] assms(4,7,8) by fastforce
  then have ok: "tp_prio par = cs_priority cs - (if cc_priospread cfg \<noteq> 0 then int k else 0)"
    "tp_interval par = cs_interval cs + (if cc_histogram cfg = 0 then int k * cc_distance cfg else 0)"
    "stat_wf cyc par s"
    using assms(9) by (auto simp: created_ok_def)
  have "0 \<le> int k * cc_distance cfg" using assms(3) by simp
  then have "0 < tp_interval par" using ok(2) assms(4) by simp
  moreover have "offset_ok cyc par" using assms(10) by (simp add: offset_ok_def)
  ultimately show ?thesis
    using timerthread_result [OF _ ok(3) _ assms(12-14,11)] ok(1,2) by blast
qed

definition ex_create :: create_cfg where
  "ex_create = \<lparr>cc_policy = SCHED_FIFO, cc_distance = 500, cc_histogram = 0, cc_verbose = 0,
     cc_priospread = 1, cc_clock = 1, cc_mode = MODE_CLOCK_NANOSLEEP, cc_timermode = TIMER_ABSTIME,
     cc_max_cycles = 0, cc_setaffinity = AFFINITY_UNSPECIFIED, cc_mask = None, cc_max_cpus = 4, cc_numa = 0\<rparr>"

definition ex_ci :: create_in where
  "ex_ci = \<lparr>ci_attr_init = 0, ci_node = -1, ci_getstack = 0, ci_stksize = 0, ci_stack = True, ci_setstack = 0,
     ci_par = True, ci_stat = True, ci_hist = True, ci_values = True, ci_create = 0\<rparr>"

definition ex_cs :: create_state where
  "ex_cs = \<lparr>cs_priority = 80, cs_interval = 1000, cs_force_other = 0\<rparr>"

lemma ex_create_thread:
  "create_thread ex_create ex_ci i cs =
     Inr (make_param ex_create (-1) (-1) i cs, start_stat zero_stat, next_create_state ex_create cs)"
  by (simp add: create_thread_def thread_node_def alloc_stat_def thread_cpu_def ex_create_def ex_ci_def)

theorem created_threads_spread_and_run_witness:
  "\<exists>ps cs' par s t. create_threads ex_create [ex_ci, ex_ci] 0 ex_cs = (ps, None, cs') \<and> ps ! 1 = (par, s) \<and>
     tp_prio par = 79 \<and> tp_interval par = 1500 \<and>
     (timerthread (ex_cfg\<lparr>c_histogram := 0\<rparr>) par ex_start [ex_wake 5 1503000] s
        \<lparr>sh_shutdown = 0, sh_break_id = 0, sh_break_value = 0\<rparr> \<in> {Some (Exited t), Some (Running t)})"
proof -
  let ?par = "make_param ex_create (-1) (-1) 1 (next_create_state ex_create ex_cs)"
  let ?ps = "[(make_param ex_create (-1) (-1) 0 ex_cs, start_stat zero_stat), (?par, start_stat zero_stat)]"
  obtain cs' where run: "create_threads ex_create [ex_ci, ex_ci] 0 ex_cs = (?ps, None, cs')"
    by (simp add: ex_create_thread)
  have ok: "0 \<le> cc_histogram ex_create" "cc_histogram ex_create < 2147483648" "0 \<le> cc_distance ex_create"
    "0 < cs_interval ex_cs"
    "cs_interval ex_cs + int (length [ex_ci, ex_ci]) * cc_distance ex_create < 2147483648"
    "c_histogram (ex_cfg\<lparr>c_histogram := 0\<rparr>) = cc_histogram ex_create" "c_offset (ex_cfg\<lparr>c_histogram := 0\<rparr>) = 0"
    "si_sched_ret ex_start = 0" "ts_normal (si_globalt ex_start)" "ts_normal (si_clock ex_start)"
    "\<forall>w \<in> set [ex_wake 5 1503000]. wake_ok w"
    by (simp_all add: ex_create_def ex_cs_def ex_defs ts_normal_def wake_ok_def)
  from created_threads_spread_and_run [OF ok(1-5) run, of 1 ?par "start_stat zero_stat", OF _ _ ok(6-11)]
  have "tp_prio ?par = 79 \<and> tp_interval ?par = 1500 \<and>
    (\<exists>t. timerthread (ex_cfg\<lparr>c_histogram := 0\<rparr>) ?par ex_start [ex_wake 5 1503000] (start_stat zero_stat)
        \<lparr>sh_shutdown = 0, sh_break_id = 0, sh_break_value = 0\<rparr> \<in> {Some (Exited t), Some (Running t)})"
    by (simp add: ex_create_def ex_cs_def)
  with run show ?thesis by auto
qed

text \<open>Null pointers in the statistics array.\<close>

lemma stop_threads_null: "None \<in> set ss \<Longrightarrow> stop_threads quiet histogram i ss = None"
  by (induction ss arbitrary: i) (auto simp: stop_thread_def split: Option.bind_splits)

text \<open>
  When the sample buffer of a thread other than the last cannot be allocated, the shutdown
  follows the null pointer of a thread that was never set up.
\<close>

theorem failed_values_allocation_crashes:
  assumes "create_threads cfg cis 0 cs = (ps, Some (GotoOutall s), cs')"
    and "int (length ps) + 1 < num_threads"
  shows "stop_threads quiet histogram 0
    (map (\<lambda>p. Some (snd p)) ps @ [Some s] @ replicate (nat num_threads - (length ps + 1)) None) = None"
  using assms(2) by (intro stop_threads_null) auto

theorem failed_values_allocation_crashes_witness:
  "\<exists>s. create_threads (ex_create\<lparr>cc_verbose := 1\<rparr>) [ex_ci\<lparr>ci_values := False\<rparr>, ex_ci] 0 ex_cs =
       ([], Some (GotoOutall s), ex_cs) \<and>
     stop_threads 0 0 0 [Some s, None, None] = None"
proof -
  have run: "create_threads (ex_create\<lparr>cc_verbose := 1\<rparr>) [ex_ci\<lparr>ci_values := False\<rparr>, ex_ci] 0 ex_cs =
      ([], Some (GotoOutall zero_stat), ex_cs)"
    by (simp add: create_thread_def thread_node_def alloc_stat_def ex_create_def ex_ci_def)
  from failed_values_allocation_crashes [OF run, of 3 0 0] run show ?thesis
    by (simp add: numeral_2_eq_2)
qed

text \<open>
  The display ends, and with it every measurement, as soon as one thread has done its
  cycles, although the others may not have.
\<close>

theorem first_finished_thread_ends_display:
  assumes "(par, s) \<in> set ps" and "u64 max_cycles \<le> st_cycles s" and "max_cycles \<noteq> 0" and "verbose = 0"
  shows "\<exists>out. display_round reduction verbose quiet max_cycles 0 ps = Some (out, ps, True)"
proof -
  have "\<exists>out. print_stats reduction 0 quiet i ps = Some (out, ps)" for i
  proof (induction ps arbitrary: i)
    case (Cons p ps)
    obtain out where "print_stats reduction 0 quiet (i + 1) ps = Some (out, ps)" using Cons by blast
    then show ?case by (cases p) (simp add: print_stat_def)
  qed simp
  then obtain out where "print_stats reduction verbose quiet 0 ps = Some (out, ps)" using assms(4) by blast
  moreover have "(par, s) \<in> set (filter (\<lambda>(par, s). max_cycles \<noteq> 0 \<and> st_cycles s \<ge> u64 max_cycles) ps)"
    using assms by simp
  then have "allstopped max_cycles ps \<noteq> 0"
    unfolding allstopped_def by (metis length_0_conv list.set(1) empty_iff of_nat_eq_0_iff)
  ultimately show ?thesis by (simp add: display_round_def)
qed

theorem first_finished_thread_ends_display_witness:
  "\<exists>out. display_round 1 0 0 100 0 [(ex_par, ex_stat\<lparr>st_cycles := 3\<rparr>), (ex_par, ex_stat\<lparr>st_cycles := 100\<rparr>)] =
     Some (out, [(ex_par, ex_stat\<lparr>st_cycles := 3\<rparr>), (ex_par, ex_stat\<lparr>st_cycles := 100\<rparr>)], True)"
  using first_finished_thread_ends_display [of ex_par "ex_stat\<lparr>st_cycles := 100\<rparr>"
      "[(ex_par, ex_stat\<lparr>st_cycles := 3\<rparr>), (ex_par, ex_stat\<lparr>st_cycles := 100\<rparr>)]" 100 0 1 0]
  by simp

end
