(* ===== verification/SignalTest.thy ===== *)
theory SignalTest
  imports RtTime
begin

text \<open>
  \<^verbatim>\<open>src/signaltest/signaltest.c\<close>: threads in a ring pass a signal on, and each measures how long
  the signal takes to come round. First the thread function with its statistics, then the display, the
  option checks and the set-up of \<open>main\<close>, and last the ring as a step relation.
\<close>

section \<open>The thread\<close>

record sg_param =
  sp_id :: int
  sp_prio :: int
  sp_max_cycles :: int
  sp_bufmsk :: int

record sg_stat =
  sg_cycles :: int
  sg_cyclesread :: int
  sg_min :: int
  sg_max :: int
  sg_act :: int
  sg_avg :: int
  sg_values :: "int list"
  sg_threadstarted :: int
  sg_tid :: int

text \<open>
  The difference in microseconds is computed without a conversion to \<open>long\<close>: the seconds are
  multiplied as \<open>int\<close>, and there is no result when that overflows.
\<close>

definition sg_calcdiff :: "timespec \<Rightarrow> timespec \<Rightarrow> int option" where
  "sg_calcdiff t1 t2 =
     (let ds = s32 (tv_sec t1) - s32 (tv_sec t2)
      in if s32 ds = ds \<and> s32 (USEC_PER_SEC * ds) = USEC_PER_SEC * ds
         then Some (USEC_PER_SEC * ds + (s32 (tv_nsec t1) - s32 (tv_nsec t2)) sdiv 1000)
         else None)"

datatype sg_call =
    System string | SchedSet int int | TracingOld bool | TracingPrctl bool | Usleep int | KillNext

definition sg_trace_setup :: "sg_call list" where
  "sg_trace_setup =
     map System
       [''echo 1 > /proc/sys/kernel/trace_all_cpus'', ''echo 1 > /proc/sys/kernel/trace_enabled'',
        ''echo 1 > /proc/sys/kernel/trace_freerunning'', ''echo 0 > /proc/sys/kernel/trace_print_at_crash'',
        ''echo 1 > /proc/sys/kernel/trace_user_triggered'', ''echo -1 > /proc/sys/kernel/trace_user_trigger_irq'',
        ''echo 0 > /proc/sys/kernel/trace_verbose'', ''echo 0 > /proc/sys/kernel/preempt_thresh'',
        ''echo 0 > /proc/sys/kernel/wakeup_timing'', ''echo 0 > /proc/sys/kernel/preempt_max_latency'']"

definition sg_tracing :: "int \<Rightarrow> bool \<Rightarrow> sg_call" where
  "sg_tracing oldtrace on = (if oldtrace \<noteq> 0 then TracingOld on else TracingPrctl on)"

text \<open>Minimum, maximum and sum, compared as signed numbers.\<close>

definition sg_minmax :: "int \<Rightarrow> sg_stat \<Rightarrow> sg_stat" where
  "sg_minmax diff s =
     (let s1 = (if diff < sg_min s then s\<lparr>sg_min := diff\<rparr> else s);
          s2 = (if diff > sg_max s1 then s1\<lparr>sg_max := diff\<rparr> else s1)
      in s2\<lparr>sg_avg := sg_avg s2 + diff\<rparr>)"

text \<open>The cycle is counted before the value is stored.\<close>

definition sg_store :: "sg_param \<Rightarrow> int \<Rightarrow> sg_stat \<Rightarrow> sg_stat option" where
  "sg_store par diff s =
     (let s1 = s\<lparr>sg_act := diff, sg_cycles := u64 (sg_cycles s + 1)\<rparr>
      in if sp_bufmsk par \<noteq> 0
         then map_option (\<lambda>vs. s1\<lparr>sg_values := vs\<rparr>)
                (c_write (sg_values s1) (sg_cycles s1 AND sp_bufmsk par) diff)
         else Some s1)"

text \<open>What a cycle sees: the result of \<open>sigwait\<close>, the two readings of the clock, and whether another
  thread has asked for the end.\<close>

record sg_wake =
  sw_ret :: int
  sw_after :: timespec
  sw_now :: timespec
  sw_shutdown :: int

record sg_state =
  sg_before :: timespec
  sg_first :: bool
  sg_stopped :: int
  sg_shutdown :: int
  sg_stat_of :: sg_stat
  sg_log :: "sg_call list"

datatype sg_result = SgOut sg_state | SgContinue sg_state | SgBreak sg_state | SgUndefined

definition sg_pass_on :: "sg_param \<Rightarrow> sg_stat \<Rightarrow> sg_call list" where
  "sg_pass_on par s = (if sp_id par = 0 \<and> sg_cycles s AND 15 = 0 then [Usleep 10000] else []) @ [KillNext]"

definition signal_iter :: "int \<Rightarrow> int \<Rightarrow> sg_param \<Rightarrow> sg_wake \<Rightarrow> sg_state \<Rightarrow> sg_result" where
  "signal_iter tracelimit oldtrace par w st =
     (if sw_ret w < 0 then SgOut st
      else
        let st1 = st\<lparr>sg_log := sg_log st @ sg_pass_on par (sg_stat_of st)\<rparr>
        in if sg_first st1 then SgContinue (st1\<lparr>sg_first := False, sg_before := sw_now w\<rparr>)
           else case sg_calcdiff (sw_after w) (sg_before st1) of
                  None \<Rightarrow> SgUndefined
                | Some diff \<Rightarrow>
                    let over = (sg_stopped st1 = 0 \<and> tracelimit \<noteq> 0 \<and> diff > tracelimit);
                        st2 = (if over then st1\<lparr>sg_stopped := sg_stopped st1 + 1, sg_shutdown := sg_shutdown st1 + 1,
                                 sg_log := sg_log st1 @ [sg_tracing oldtrace False]\<rparr> else st1)
                    in case sg_store par diff (sg_minmax diff (sg_stat_of st2)) of
                         None \<Rightarrow> SgUndefined
                       | Some s \<Rightarrow>
                           let st3 = st2\<lparr>sg_before := sw_now w, sg_stat_of := s\<rparr>
                           in if sp_max_cycles par \<noteq> 0 \<and> sp_max_cycles par = sg_cycles s
                              then SgBreak st3 else SgContinue st3)"

text \<open>The loop over the wake-ups; the flag says whether the thread has left it. No result where
  the program has none.\<close>

fun signal_loop :: "int \<Rightarrow> int \<Rightarrow> sg_param \<Rightarrow> sg_wake list \<Rightarrow> sg_state \<Rightarrow> (bool \<times> sg_state) option" where
  "signal_loop tracelimit oldtrace par [] st = Some (False, st)"
| "signal_loop tracelimit oldtrace par (w # ws) st =
     (let st0 = st\<lparr>sg_shutdown := sg_shutdown st + sw_shutdown w\<rparr>
      in if sg_shutdown st0 \<noteq> 0 then Some (True, st0)
         else case signal_iter tracelimit oldtrace par w st0 of
                SgOut st1 \<Rightarrow> Some (True, st1)
              | SgBreak st1 \<Rightarrow> Some (True, st1)
              | SgUndefined \<Rightarrow> None
              | SgContinue st1 \<Rightarrow> signal_loop tracelimit oldtrace par ws st1)"

abbreviation (input) sgFIFO :: int where "sgFIFO \<equiv> 1"
abbreviation (input) sgOTHER :: int where "sgOTHER \<equiv> 0"

definition signalthread ::
  "int \<Rightarrow> int \<Rightarrow> sg_param \<Rightarrow> int \<Rightarrow> timespec \<Rightarrow> sg_wake list \<Rightarrow> int \<Rightarrow> sg_stat \<Rightarrow> (bool \<times> sg_state) option" where
  "signalthread tracelimit oldtrace par tid before ws shutdown stat =
     (let log0 = (if tracelimit \<noteq> 0 then sg_trace_setup else []) @
            [SchedSet (if sp_prio par \<noteq> 0 then sgFIFO else sgOTHER) (sp_prio par)] @
            (if tracelimit \<noteq> 0 then [sg_tracing oldtrace True] else []);
          st0 = \<lparr>sg_before = before, sg_first = True, sg_stopped = 0, sg_shutdown = shutdown,
            sg_stat_of = stat\<lparr>sg_tid := tid, sg_threadstarted := sg_threadstarted stat + 1\<rparr>, sg_log = log0\<rparr>
      in map_option
           (\<lambda>(left, st). if left
              then (True, st\<lparr>sg_log := sg_log st @ [SchedSet sgOTHER 0],
                     sg_stat_of := (sg_stat_of st)\<lparr>sg_threadstarted := -1\<rparr>\<rparr>)
              else (False, st))
           (signal_loop tracelimit oldtrace par ws st0))"

section \<open>Display, options and set-up\<close>

datatype sg_line = SgSummary int int int int int int int int | SgSample int int int

definition sg_summary :: "sg_param \<Rightarrow> int \<Rightarrow> sg_stat \<Rightarrow> sg_line" where
  "sg_summary par index s =
     SgSummary index (sg_tid s) (sp_prio par) (sg_cycles s) (sg_min s) (sg_act s)
       (if sg_cycles s \<noteq> 0 then sg_avg s sdiv sg_cycles s else 0) (sg_max s)"

function sg_drain :: "sg_param \<Rightarrow> int \<Rightarrow> sg_stat \<Rightarrow> (sg_line list \<times> sg_stat) option" where
  "sg_drain par index s =
     (if u64 (sg_cycles s - sg_cyclesread s) = 0 then Some ([], s)
      else case c_read (sg_values s) (sg_cyclesread s AND sp_bufmsk par) of
             None \<Rightarrow> None
           | Some diff \<Rightarrow>
               (case sg_drain par index (s\<lparr>sg_cyclesread := u64 (sg_cyclesread s + 1)\<rparr>) of
                  None \<Rightarrow> None
                | Some (outs, s') \<Rightarrow> Some (SgSample index (sg_cyclesread s) diff # outs, s')))"
  by pat_completeness auto
termination
proof (relation "measure (\<lambda>(_, _, s). nat (u64 (sg_cycles s - sg_cyclesread s)))", goal_cases)
  case 1
  show ?case by simp
next
  case (2 par index s diff)
  then show ?case
    using u64_diff_step [of "sg_cycles s" "sg_cyclesread s"] u64_pos [of "sg_cycles s - sg_cyclesread s"] by auto
qed

declare sg_drain.simps [simp del]

definition sg_print_stat :: "sg_param \<Rightarrow> int \<Rightarrow> int \<Rightarrow> int \<Rightarrow> sg_stat \<Rightarrow> (sg_line list \<times> sg_stat) option" where
  "sg_print_stat par index verbose quiet s =
     (if verbose = 0
      then Some (if quiet \<noteq> 1 then [sg_summary par index s] else [], s)
      else sg_drain par index s)"

text \<open>The options; those that \<open>getopt_long\<close> accepts and the \<open>switch\<close> does not know change nothing.\<close>

record sg_opts =
  so_tracelimit :: int
  so_max_cycles :: int
  so_priority :: int
  so_quiet :: int
  so_threads :: int
  so_lockall :: int
  so_verbose :: int
  so_error :: bool

datatype sg_opt = SgB string | SgL string | SgP string | SgQ | SgT string | SgM | SgV | SgHelp | SgIgnored

definition sg_option :: "sg_opt \<Rightarrow> sg_opts \<Rightarrow> sg_opts" where
  "sg_option opt p =
     (case opt of
        SgB a \<Rightarrow> p\<lparr>so_tracelimit := atoi a\<rparr>
      | SgL a \<Rightarrow> p\<lparr>so_max_cycles := atoi a\<rparr>
      | SgP a \<Rightarrow> p\<lparr>so_priority := atoi a\<rparr>
      | SgQ \<Rightarrow> p\<lparr>so_quiet := 1\<rparr>
      | SgT a \<Rightarrow> p\<lparr>so_threads := atoi a\<rparr>
      | SgM \<Rightarrow> p\<lparr>so_lockall := 1\<rparr>
      | SgV \<Rightarrow> p\<lparr>so_verbose := 1\<rparr>
      | SgHelp \<Rightarrow> p\<lparr>so_error := True\<rparr>
      | SgIgnored \<Rightarrow> p)"

definition sg_options :: "sg_opt list \<Rightarrow> sg_opts option" where
  "sg_options opts =
     (let p = fold sg_option opts \<lparr>so_tracelimit = 0, so_max_cycles = 0, so_priority = 0, so_quiet = 0,
            so_threads = 2, so_lockall = 0, so_verbose = 0, so_error = False\<rparr>
      in if so_error p \<or> so_priority p < 0 \<or> so_priority p > 99 \<or> so_threads p < 2 then None else Some p)"

definition sg_oldtrace :: "int \<times> int \<times> int \<Rightarrow> int" where
  "sg_oldtrace v = (case v of (maj, minor, sub) \<Rightarrow> if maj = 2 \<and> minor = 6 \<and> sub < 18 then 1 else 0)"

abbreviation (input) sgVALBUF :: int where "sgVALBUF \<equiv> 16384"

text \<open>The blocks of thread \<open>i\<close>; none when the buffer of values cannot be allocated.\<close>

definition sg_create :: "sg_opts \<Rightarrow> bool \<Rightarrow> int \<Rightarrow> (sg_param \<times> sg_stat) option" where
  "sg_create p values_ok i =
     (if so_verbose p \<noteq> 0 \<and> \<not> values_ok then None
      else Some (\<lparr>sp_id = i, sp_prio = so_priority p, sp_max_cycles = u64 (so_max_cycles p),
                  sp_bufmsk = (if so_verbose p \<noteq> 0 then sgVALBUF - 1 else 0)\<rparr>,
                 \<lparr>sg_cycles = 0, sg_cyclesread = 0, sg_min = 1000000, sg_max = -1000000, sg_act = 0, sg_avg = 0,
                  sg_values = (if so_verbose p \<noteq> 0 then replicate (nat sgVALBUF) 0 else []),
                  sg_threadstarted = 1, sg_tid = 0\<rparr>))"

text \<open>The threads are linked once all of them have started; each sends to the next, the last to the first.\<close>

definition sg_allstarted :: "sg_stat list \<Rightarrow> bool" where
  "sg_allstarted ss = list_all (\<lambda>s. sg_threadstarted s = 2) ss"

definition sg_links :: "nat \<Rightarrow> nat list" where
  "sg_links n = map Suc [0..<n - 1] @ [0]"

text \<open>One round of the display: only the first thread is shown and tested.\<close>

definition sg_display_round ::
  "int \<Rightarrow> int \<Rightarrow> int \<Rightarrow> int \<Rightarrow> sg_param \<Rightarrow> sg_stat \<Rightarrow> (sg_line list \<times> sg_stat \<times> bool) option" where
  "sg_display_round verbose quiet max_cycles shutdown par s =
     map_option
       (\<lambda>(out, s1). (out, s1, shutdown \<noteq> 0 \<or> (max_cycles \<noteq> 0 \<and> sg_cycles s1 \<ge> u64 max_cycles)))
       (sg_print_stat par 0 verbose quiet s)"

datatype sg_stop_op = SgKill int | SgJoin int | SgPrint int | SgFree int

fun sg_stop_threads :: "int \<Rightarrow> int \<Rightarrow> sg_stat list \<Rightarrow> sg_stop_op list" where
  "sg_stop_threads quiet i [] = []"
| "sg_stop_threads quiet i (s # ss) =
     (if sg_threadstarted s > 0 then [SgKill i] else []) @
     (if sg_threadstarted s \<noteq> 0 then SgJoin i # (if quiet \<noteq> 0 then [SgPrint i] else []) else []) @
     (if sg_values s \<noteq> [] then [SgFree i] else []) @
     sg_stop_threads quiet (i + 1) ss"

section \<open>What a thread measures\<close>

lemma sg_calcdiff_near:
  assumes "- 2147483648 \<le> tv_sec a" "tv_sec a < 2147483648" "- 2147483648 \<le> tv_sec b" "tv_sec b < 2147483648"
    and "0 \<le> tv_nsec a" "tv_nsec a < 1000000000" "0 \<le> tv_nsec b" "tv_nsec b < 1000000000"
  shows "sg_calcdiff a b =
    (if \<bar>tv_sec a - tv_sec b\<bar> \<le> 2147 then Some (USEC_PER_SEC * (tv_sec a - tv_sec b) + (tv_nsec a - tv_nsec b) sdiv 1000)
     else None)"
proof -
  have iff: "s32 x = x \<longleftrightarrow> - 2147483648 \<le> x \<and> x < 2147483648" for x
    by (simp add: signed_take_bit_int_eq_self_iff)
  have "s32 (tv_sec a) = tv_sec a" "s32 (tv_sec b) = tv_sec b" "s32 (tv_nsec a) = tv_nsec a" "s32 (tv_nsec b) = tv_nsec b"
    using assms by (simp_all add: c_int)
  moreover have "s32 d = d \<and> s32 (USEC_PER_SEC * d) = USEC_PER_SEC * d \<longleftrightarrow> \<bar>d\<bar> \<le> 2147" for d
    unfolding iff by linarith
  ultimately show ?thesis by (simp add: sg_calcdiff_def Let_def)
qed

text \<open>
  The difference of two times less than 36 minutes apart is exact up to a microsecond; from 2148
  seconds on the multiplication overflows.
\<close>

theorem signal_calcdiff_range:
  assumes "- 2147483648 \<le> tv_sec a" "tv_sec a < 2147483648" "- 2147483648 \<le> tv_sec b" "tv_sec b < 2147483648"
    and "ts_normal a" "ts_normal b"
  shows "(\<bar>tv_sec a - tv_sec b\<bar> \<le> 2147 \<longrightarrow>
      (\<exists>d. sg_calcdiff a b = Some d \<and> \<bar>ts_ns a - ts_ns b - 1000 * d\<bar> < 1000)) \<and>
    (2147 < \<bar>tv_sec a - tv_sec b\<bar> \<longrightarrow> sg_calcdiff a b = None)"
proof -
  have eq: "sg_calcdiff a b =
    (if \<bar>tv_sec a - tv_sec b\<bar> \<le> 2147 then Some (USEC_PER_SEC * (tv_sec a - tv_sec b) + (tv_nsec a - tv_nsec b) sdiv 1000)
     else None)"
    using assms by (intro sg_calcdiff_near) (simp_all add: ts_normal_def)
  let ?q = "(tv_nsec a - tv_nsec b) sdiv 1000"
  have "\<bar>(tv_nsec a - tv_nsec b) - 1000 * ?q\<bar> < 1000" by (rule sdiv_bounds) simp
  then have "\<bar>ts_ns a - ts_ns b - 1000 * (USEC_PER_SEC * (tv_sec a - tv_sec b) + ?q)\<bar> < 1000"
    by (simp add: ts_ns_def algebra_simps)
  then show ?thesis using eq by auto
qed

theorem signal_calcdiff_range_witness:
  "sg_calcdiff \<lparr>tv_sec = 2148, tv_nsec = 0\<rparr> \<lparr>tv_sec = 0, tv_nsec = 0\<rparr> = None"
  using signal_calcdiff_range [of "\<lparr>tv_sec = 2148, tv_nsec = 0\<rparr>" "\<lparr>tv_sec = 0, tv_nsec = 0\<rparr>"]
  by (simp add: ts_normal_def)

interpretation sgstat: latency_stats sg_minmax sg_min sg_max sg_avg "\<lambda>_. True" "\<lambda>_. True"
  by unfold_locales (auto simp: sg_minmax_def Let_def)

text \<open>The samples of a run that nothing interrupts, and what recording them does.\<close>

fun sg_samples :: "bool \<Rightarrow> timespec \<Rightarrow> sg_wake list \<Rightarrow> int list" where
  "sg_samples first before [] = []"
| "sg_samples first before (w # ws) =
     (if first then [] else [the (sg_calcdiff (sw_after w) before)]) @ sg_samples False (sw_now w) ws"

fun sg_records :: "sg_param \<Rightarrow> int list \<Rightarrow> sg_stat \<Rightarrow> sg_stat option" where
  "sg_records par [] s = Some s"
| "sg_records par (d # ds) s =
     (case sg_store par d (sg_minmax d s) of None \<Rightarrow> None | Some s1 \<Rightarrow> sg_records par ds s1)"

fun sg_quiet :: "bool \<Rightarrow> timespec \<Rightarrow> sg_wake list \<Rightarrow> bool" where
  "sg_quiet first before [] = True"
| "sg_quiet first before (w # ws) \<longleftrightarrow>
     0 \<le> sw_ret w \<and> sw_shutdown w = 0 \<and> (first \<or> sg_calcdiff (sw_after w) before \<noteq> None) \<and> sg_quiet False (sw_now w) ws"

lemma signal_loop_records:
  assumes "sg_quiet (sg_first st) (sg_before st) ws" and "sg_shutdown st = 0" and "sp_max_cycles par = 0"
    and "sg_records par (sg_samples (sg_first st) (sg_before st) ws) (sg_stat_of st) = Some s"
  shows "\<exists>st'. signal_loop 0 oldtrace par ws st = Some (False, st') \<and> sg_stat_of st' = s"
  using assms
proof (induction ws arbitrary: st)
  case (Cons w ws)
  show ?case
  proof (cases "sg_first st")
    case True
    then show ?thesis using Cons by (simp add: signal_iter_def Let_def)
  next
    case False
    then obtain d s1 where "sg_calcdiff (sw_after w) (sg_before st) = Some d"
      and "sg_store par d (sg_minmax d (sg_stat_of st)) = Some s1"
      using Cons.prems by (auto split: option.splits)
    then show ?thesis using Cons False by (simp add: signal_iter_def Let_def)
  qed
qed simp

lemma sg_store_other:
  "sg_store par d s = Some s1 \<Longrightarrow>
     sg_min s1 = sg_min s \<and> sg_max s1 = sg_max s \<and> sg_avg s1 = sg_avg s \<and> sg_cyclesread s1 = sg_cyclesread s"
  by (auto simp: sg_store_def Let_def split: if_splits)

lemma sg_minmax_other [simp]:
  "sg_cycles (sg_minmax d s) = sg_cycles s" "sg_values (sg_minmax d s) = sg_values s"
  "sg_cyclesread (sg_minmax d s) = sg_cyclesread s"
  by (simp_all add: sg_minmax_def Let_def)

lemma sg_records_stats:
  "sg_records par ds s = Some s' \<Longrightarrow>
     sg_min s' = sg_min (fold sg_minmax ds s) \<and> sg_max s' = sg_max (fold sg_minmax ds s) \<and>
     sg_avg s' = sg_avg (fold sg_minmax ds s)"
proof (induction ds arbitrary: s)
  case (Cons d ds)
  then obtain s1 where s1: "sg_store par d (sg_minmax d s) = Some s1" "sg_records par ds s1 = Some s'"
    by (auto split: option.splits)
  have "sg_min s1 = sg_min (sg_minmax d s)" "sg_max s1 = sg_max (sg_minmax d s)" "sg_avg s1 = sg_avg (sg_minmax d s)"
    using sg_store_other [OF s1(1)] by simp_all
  then show ?case using Cons.IH [OF s1(2)] by (simp add: sgstat.fold_stats)
qed simp

lemma and_16383: "k AND 16383 = (k :: int) mod 16384"
  using and_pow2_mask [of k 14] by simp

lemma sg_records_values:
  assumes "sp_bufmsk par = 16383" and "length (sg_values s) = 16384" and "sg_cycles s = int c"
    and "c + length ds < 16384"
  shows "\<exists>s'. sg_records par ds s = Some s' \<and> sg_cycles s' = int (c + length ds) \<and>
    sg_cyclesread s' = sg_cyclesread s \<and>
    sg_values s' = take (Suc c) (sg_values s) @ ds @ drop (Suc c + length ds) (sg_values s)"
  using assms(2-)
proof (induction ds arbitrary: s c)
  case (Cons d ds)
  have u: "u64 (int c + 1) = int (Suc c)" using Cons.prems by (simp add: c_int)
  have i: "int (Suc c) AND 16383 = int (Suc c)" using Cons.prems by (simp add: and_16383)
  let ?s1 = "(sg_minmax d s)\<lparr>sg_act := d, sg_cycles := int (Suc c), sg_values := (sg_values s)[Suc c := d]\<rparr>"
  have st: "sg_store par d (sg_minmax d s) = Some ?s1"
    using Cons.prems assms(1) u i by (simp add: sg_store_def Let_def nat_add_distrib)
  obtain s' where s': "sg_records par ds ?s1 = Some s'" "sg_cycles s' = int (Suc c + length ds)"
    "sg_cyclesread s' = sg_cyclesread ?s1"
    "sg_values s' = take (Suc (Suc c)) (sg_values ?s1) @ ds @ drop (Suc (Suc c) + length ds) (sg_values ?s1)"
    using Cons.IH [of ?s1 "Suc c"] Cons.prems by auto
  have "take (Suc (Suc c)) ((sg_values s)[Suc c := d]) = take (Suc c) (sg_values s) @ [d]"
    using Cons.prems by (simp add: take_Suc_conv_app_nth)
  then show ?case using s' st by simp
qed simp

lemma sg_drain_lines:
  assumes "sp_bufmsk par = 16383" and "length (sg_values s) = 16384" and "sg_cyclesread s = int r"
    and "sg_cycles s = int (r + n)" and "r + n < 16384"
  shows "sg_drain par index s =
    Some (map (\<lambda>i. SgSample index (int i) (sg_values s ! i)) [r..<r + n], s\<lparr>sg_cyclesread := int (r + n)\<rparr>)"
  using assms(2-)
proof (induction n arbitrary: s r)
  case 0
  then show ?case by (subst sg_drain.simps) simp
next
  case (Suc n)
  have u: "u64 (int r + 1) = int (Suc r)" using Suc.prems by (simp add: c_int)
  have i: "int r AND 16383 = int r" using Suc.prems by (simp add: and_16383)
  have ne: "u64 (sg_cycles s - sg_cyclesread s) \<noteq> 0" using Suc.prems by (simp add: c_int)
  have "sg_drain par index (s\<lparr>sg_cyclesread := int (Suc r)\<rparr>) =
      Some (map (\<lambda>i. SgSample index (int i) (sg_values s ! i)) [Suc r..<Suc r + n], s\<lparr>sg_cyclesread := int (Suc r + n)\<rparr>)"
    using Suc.IH [of "s\<lparr>sg_cyclesread := int (Suc r)\<rparr>" "Suc r"] Suc.prems by simp
  then show ?case using ne u i Suc.prems assms(1) by (subst sg_drain.simps) (simp add: upt_conv_Cons del: upt_Suc)
qed

text \<open>
  With \<open>--verbose\<close> the display is one sample behind: the thread stores the sample of a cycle under
  the number of the next one, so the line of the first cycle shows the zero of the cleared
  buffer, every later line the sample of the cycle before, and the last sample is not shown.
\<close>

theorem signal_verbose_lags:
  assumes "sg_create p True i = Some (par, stat)" and "so_verbose p \<noteq> 0" and "so_max_cycles p = 0"
    and "sg_quiet True before ws" and "length ws \<le> 16384" and "ds = sg_samples True before ws"
  shows "\<exists>st st'. signalthread 0 oldtrace par tid before ws 0 stat = Some (False, st) \<and>
    sg_drain par index (sg_stat_of st) = Some (map (\<lambda>c. SgSample index (int c) ((0 # ds) ! c)) [0..<length ds], st')"
proof -
  let ?s0 = "stat\<lparr>sg_tid := tid, sg_threadstarted := sg_threadstarted stat + 1\<rparr>"
  have par: "sp_bufmsk par = 16383" "sp_max_cycles par = 0"
    and s0: "sg_values ?s0 = replicate 16384 0" "sg_cycles ?s0 = int 0" "sg_cyclesread ?s0 = int 0"
    using assms(1-3) by (auto simp: sg_create_def)
  have len: "length (sg_samples f b vs) = (if f then length vs - 1 else length vs)" for f b vs
    by (induction vs arbitrary: f b) auto
  have l: "0 + length ds < 16384" using assms(5,6) len [of True before ws] by simp
  obtain s where s: "sg_records par ds ?s0 = Some s" "sg_cycles s = int (length ds)" "sg_cyclesread s = int 0"
    "sg_values s = take (Suc 0) (sg_values ?s0) @ ds @ drop (Suc 0 + length ds) (sg_values ?s0)"
    using sg_records_values [OF par(1) _ s0(2) l] s0 by auto
  have vals: "sg_values s = (0 # ds) @ replicate (16383 - length ds) 0"
    using s(4) s0(1) l by simp
  let ?st0 = "\<lparr>sg_before = before, sg_first = True, sg_stopped = 0, sg_shutdown = 0, sg_stat_of = ?s0,
      sg_log = [SchedSet (if sp_prio par \<noteq> 0 then sgFIFO else sgOTHER) (sp_prio par)]\<rparr>"
  obtain st where st: "signal_loop 0 oldtrace par ws ?st0 = Some (False, st)" "sg_stat_of st = s"
    using signal_loop_records [of ?st0 ws par s oldtrace] assms(4,6) par(2) s(1) by auto
  have run: "signalthread 0 oldtrace par tid before ws 0 stat = Some (False, st)"
    using st(1) by (simp add: signalthread_def Let_def)
  have "length (sg_values s) = 16384" unfolding vals using l by simp
  then have "sg_drain par index s =
      Some (map (\<lambda>c. SgSample index (int c) (sg_values s ! c)) [0..<length ds], s\<lparr>sg_cyclesread := int (length ds)\<rparr>)"
    using sg_drain_lines [of par s 0 "length ds" index] par(1) s l by simp
  moreover have "map (\<lambda>c. SgSample index (int c) (sg_values s ! c)) [0..<length ds] =
      map (\<lambda>c. SgSample index (int c) ((0 # ds) ! c)) [0..<length ds]"
    unfolding vals by (intro map_cong refl) (simp add: nth_append del: append_Cons)
  ultimately show ?thesis using run st(2) by metis
qed

definition ex_sg_opts :: "int \<Rightarrow> sg_opts" where
  "ex_sg_opts v = \<lparr>so_tracelimit = 0, so_max_cycles = 0, so_priority = 80, so_quiet = 0, so_threads = 2,
     so_lockall = 0, so_verbose = v, so_error = False\<rparr>"

definition ex_sg_wake :: "int \<Rightarrow> sg_wake" where
  "ex_sg_wake n = \<lparr>sw_ret = 0, sw_after = \<lparr>tv_sec = 5, tv_nsec = n\<rparr>, sw_now = \<lparr>tv_sec = 5, tv_nsec = n + 1000\<rparr>,
     sw_shutdown = 0\<rparr>"

lemma ex_sg_run:
  "sg_quiet True \<lparr>tv_sec = 5, tv_nsec = 0\<rparr> [ex_sg_wake 2000, ex_sg_wake 9000, ex_sg_wake 15000]"
  "sg_samples True \<lparr>tv_sec = 5, tv_nsec = 0\<rparr> [ex_sg_wake 2000, ex_sg_wake 9000, ex_sg_wake 15000] = [6, 5]"
  by (code_simp, code_simp)

theorem signal_verbose_lags_witness:
  "\<exists>par stat st st'. sg_create (ex_sg_opts 1) True 0 = Some (par, stat) \<and>
    signalthread 0 0 par 77 \<lparr>tv_sec = 5, tv_nsec = 0\<rparr> [ex_sg_wake 2000, ex_sg_wake 9000, ex_sg_wake 15000] 0 stat = Some (False, st) \<and>
    sg_drain par 0 (sg_stat_of st) = Some ([SgSample 0 0 0, SgSample 0 1 6], st')"
proof -
  obtain par stat where c: "sg_create (ex_sg_opts 1) True 0 = Some (par, stat)"
    by (simp add: sg_create_def ex_sg_opts_def)
  show ?thesis
    using signal_verbose_lags [OF c _ _ ex_sg_run(1) _ ex_sg_run(2) [symmetric], of 0 77 0] c
    by (auto simp: ex_sg_opts_def)
qed

lemma sg_records_plain:
  "sp_bufmsk par = 0 \<Longrightarrow> 0 \<le> sg_cycles s \<Longrightarrow> sg_cycles s + int (length ds) < 18446744073709551616 \<Longrightarrow>
     \<exists>s'. sg_records par ds s = Some s' \<and> sg_cycles s' = sg_cycles s + int (length ds)"
proof (induction ds arbitrary: s)
  case (Cons d ds)
  let ?s1 = "(sg_minmax d s)\<lparr>sg_act := d, sg_cycles := sg_cycles s + 1\<rparr>"
  have "sg_store par d (sg_minmax d s) = Some ?s1"
    using Cons.prems by (simp add: sg_store_def Let_def c_int)
  then show ?case using Cons.IH [of ?s1] Cons.prems by auto
qed simp

text \<open>
  Minimum, maximum and sum of a thread are those of the round trips it measured, as long as these
  are within a second in either direction, and it counts every round trip but the first.
\<close>

theorem signal_statistics:
  assumes "sg_create p True i = Some (par, stat)" and "so_verbose p = 0" and "so_max_cycles p = 0"
    and "sg_quiet True before ws" and "ds = sg_samples True before ws" and "ds \<noteq> []"
    and "\<forall>d \<in> set ds. - 1000000 \<le> d \<and> d \<le> 1000000" and "int (length ds) < 18446744073709551616"
  shows "\<exists>st. signalthread 0 oldtrace par tid before ws 0 stat = Some (False, st) \<and>
    sg_min (sg_stat_of st) = Min (set ds) \<and> sg_max (sg_stat_of st) = Max (set ds) \<and>
    sg_avg (sg_stat_of st) = sum_list ds \<and> sg_cycles (sg_stat_of st) = int (length ds)"
proof -
  let ?s0 = "stat\<lparr>sg_tid := tid, sg_threadstarted := sg_threadstarted stat + 1\<rparr>"
  have par: "sp_bufmsk par = 0" "sp_max_cycles par = 0"
    and s0: "sg_cycles ?s0 = 0" "sg_min ?s0 = 1000000" "sg_max ?s0 = -1000000" "sg_avg ?s0 = 0"
    using assms(1-3) by (auto simp: sg_create_def)
  obtain s where s: "sg_records par ds ?s0 = Some s" "sg_cycles s = int (length ds)"
    using sg_records_plain [OF par(1), of ?s0 ds] s0(1) assms(8) by auto
  let ?st0 = "\<lparr>sg_before = before, sg_first = True, sg_stopped = 0, sg_shutdown = 0, sg_stat_of = ?s0,
      sg_log = [SchedSet (if sp_prio par \<noteq> 0 then sgFIFO else sgOTHER) (sp_prio par)]\<rparr>"
  obtain st where st: "signal_loop 0 oldtrace par ws ?st0 = Some (False, st)" "sg_stat_of st = s"
    using signal_loop_records [of ?st0 ws par s oldtrace] assms(4,5) par(2) s(1) by auto
  have "signalthread 0 oldtrace par tid before ws 0 stat = Some (False, st)"
    using st(1) by (simp add: signalthread_def Let_def)
  moreover have "sg_min (fold sg_minmax ds ?s0) = Min (set ds)"
    using assms(6,7) s0(2) by (intro sgstat.fold_mn_Min) auto
  moreover have "sg_max (fold sg_minmax ds ?s0) = Max (set ds)"
    using assms(6,7) s0(3) by (intro sgstat.fold_mx_Max) auto
  moreover have "sg_avg (fold sg_minmax ds ?s0) = sum_list ds"
    using sgstat.fold_sm [where s = ?s0 and ds = ds] s0(4) by simp
  ultimately show ?thesis using sg_records_stats [OF s(1)] s(2) st(2) by auto
qed

theorem signal_statistics_witness:
  "\<exists>par stat st. sg_create (ex_sg_opts 0) True 0 = Some (par, stat) \<and>
    signalthread 0 0 par 77 \<lparr>tv_sec = 5, tv_nsec = 0\<rparr> [ex_sg_wake 2000, ex_sg_wake 9000, ex_sg_wake 15000] 0 stat = Some (False, st) \<and>
    sg_min (sg_stat_of st) = 5 \<and> sg_max (sg_stat_of st) = 6 \<and> sg_cycles (sg_stat_of st) = 2"
proof -
  obtain par stat where c: "sg_create (ex_sg_opts 0) True 0 = Some (par, stat)"
    by (simp add: sg_create_def ex_sg_opts_def)
  show ?thesis
    using signal_statistics [OF c _ _ ex_sg_run(1) ex_sg_run(2) [symmetric], of 0 77] c
    by (auto simp: ex_sg_opts_def)
qed

section \<open>The ring\<close>

text \<open>
  All threads together. A thread that has a signal pending takes it and sends one to the thread it
  is linked to; then it records the round trip (not the first one), and leaves when it has made
  the cycles asked for (\<open>m\<close>, 0 for none). The other threads run in between.
\<close>

datatype sg_phase = SgWaiting | SgRecording | SgGone

record ring =
  rg_pending :: "nat \<Rightarrow> bool"
  rg_phase :: "nat \<Rightarrow> sg_phase"
  rg_received :: "nat \<Rightarrow> nat"
  rg_cycles :: "nat \<Rightarrow> nat"

inductive ring_step :: "nat \<Rightarrow> nat \<Rightarrow> ring \<Rightarrow> ring \<Rightarrow> bool" for n m where
  take_signal: "i < n \<Longrightarrow> rg_pending r i \<Longrightarrow> rg_phase r i = SgWaiting \<Longrightarrow>
    ring_step n m r
      (r\<lparr>rg_pending := (rg_pending r)(i := False, sg_links n ! i := True),
         rg_phase := (rg_phase r)(i := SgRecording), rg_received := (rg_received r)(i := Suc (rg_received r i))\<rparr>)"
| first_cycle: "i < n \<Longrightarrow> rg_phase r i = SgRecording \<Longrightarrow> rg_received r i = 1 \<Longrightarrow>
    ring_step n m r (r\<lparr>rg_phase := (rg_phase r)(i := SgWaiting)\<rparr>)"
| cycle: "i < n \<Longrightarrow> rg_phase r i = SgRecording \<Longrightarrow> rg_received r i \<noteq> 1 \<Longrightarrow>
    ring_step n m r
      (r\<lparr>rg_cycles := (rg_cycles r)(i := Suc (rg_cycles r i)),
         rg_phase := (rg_phase r)(i := if m \<noteq> 0 \<and> Suc (rg_cycles r i) = m then SgGone else SgWaiting)\<rparr>)"

text \<open>\<open>main\<close> sends the first signal to the first thread.\<close>

definition ring_init :: "nat \<Rightarrow> ring \<Rightarrow> bool" where
  "ring_init n r \<longleftrightarrow> 2 \<le> n \<and> (\<forall>i < n. rg_pending r i = (i = 0) \<and> rg_phase r i = SgWaiting \<and>
     rg_received r i = 0 \<and> rg_cycles r i = 0)"

definition thread_count_ok :: "nat \<Rightarrow> sg_phase \<Rightarrow> nat \<Rightarrow> nat \<Rightarrow> bool" where
  "thread_count_ok m ph received cycles \<longleftrightarrow>
     (case ph of
        SgWaiting \<Rightarrow> cycles = received - 1 \<and> (m \<noteq> 0 \<longrightarrow> cycles < m)
      | SgRecording \<Rightarrow> 1 \<le> received \<and> cycles = received - 2 \<and> (m \<noteq> 0 \<longrightarrow> cycles < m)
      | SgGone \<Rightarrow> m \<noteq> 0 \<and> cycles = m \<and> received = Suc m)"

definition token_at :: "nat \<Rightarrow> ring \<Rightarrow> nat \<Rightarrow> nat \<Rightarrow> bool" where
  "token_at n r p k \<longleftrightarrow> p < n \<and> (\<forall>i < n. rg_pending r i = (i = p) \<and> rg_received r i = (if i < p then Suc k else k))"

definition ring_inv :: "nat \<Rightarrow> nat \<Rightarrow> ring \<Rightarrow> bool" where
  "ring_inv n m r \<longleftrightarrow> 2 \<le> n \<and> (\<exists>p k. token_at n r p k) \<and>
     (\<forall>i < n. thread_count_ok m (rg_phase r i) (rg_received r i) (rg_cycles r i))"

lemma sg_links_nth: "i < n \<Longrightarrow> sg_links n ! i = (if Suc i = n then 0 else Suc i)"
  by (auto simp: sg_links_def nth_append)

lemma token_moves:
  assumes "token_at n r p k" and "2 \<le> n"
    and "r' = r\<lparr>rg_pending := (rg_pending r)(p := False, sg_links n ! p := True),
         rg_phase := ph, rg_received := (rg_received r)(p := Suc (rg_received r p))\<rparr>"
  shows "if Suc p = n then token_at n r' 0 (Suc k) else token_at n r' (Suc p) k"
  using assms by (auto simp: token_at_def sg_links_nth)

lemma ring_inv_step:
  assumes "ring_inv n m r" and "ring_step n m r r'"
  shows "ring_inv n m r'"
  using assms(2)
proof cases
  case (take_signal i)
  obtain p k where t: "token_at n r p k" using assms(1) by (auto simp: ring_inv_def)
  then have "i = p" using take_signal by (simp add: token_at_def)
  then have "\<exists>p k. token_at n r' p k"
    using token_moves [OF t _ take_signal(1) [unfolded \<open>i = p\<close>]] assms(1) by (auto simp: ring_inv_def split: if_splits)
  then show ?thesis using assms(1) take_signal by (auto simp: ring_inv_def thread_count_ok_def)
next
  case (first_cycle i)
  then show ?thesis using assms(1) by (auto simp: ring_inv_def token_at_def thread_count_ok_def)
next
  case (cycle i)
  then have "2 \<le> rg_received r i" "rg_cycles r i = rg_received r i - 2" "m \<noteq> 0 \<longrightarrow> rg_cycles r i < m"
    using assms(1) by (auto simp: ring_inv_def thread_count_ok_def)
  then show ?thesis using cycle assms(1) by (auto simp: ring_inv_def token_at_def thread_count_ok_def)
qed

interpretation sgring: machine "ring_init n" "ring_step n m" "ring_inv n m" for n m
proof unfold_locales
  show "ring_inv n m r" if "ring_init n r" for r
    using that by (auto simp: ring_init_def ring_inv_def token_at_def thread_count_ok_def intro!: exI [of _ 0])
qed (rule ring_inv_step)

lemma ring_stuck:
  assumes "ring_inv n m r" and stuck: "\<not> (\<exists>r'. ring_step n m r r')"
  shows "0 < m \<and> (\<forall>i < n. rg_cycles r i = m)"
proof -
  obtain p k where t: "token_at n r p k" using assms(1) by (auto simp: ring_inv_def)
  have ok: "thread_count_ok m (rg_phase r i) (rg_received r i) (rg_cycles r i)" if "i < n" for i
    using assms(1) that by (simp add: ring_inv_def)
  have idle: "rg_phase r i \<noteq> SgRecording" if "i < n" for i
    using stuck first_cycle [OF that, of r m] cycle [OF that, of r m] by blast
  have p: "p < n" "rg_pending r p" "rg_received r p = k" using t by (auto simp: token_at_def)
  then have "rg_phase r p \<noteq> SgWaiting" using stuck take_signal [of p n r m] by blast
  then have k: "m \<noteq> 0" "k = Suc m" using ok [OF p(1)] idle [OF p(1)] p(3)
    by (cases "rg_phase r p"; simp add: thread_count_ok_def)+
  have "rg_cycles r i = m" if "i < n" for i
  proof -
    have "Suc m \<le> rg_received r i" using t that k by (simp add: token_at_def)
    then show ?thesis using ok [OF that] idle [OF that] k by (cases "rg_phase r i") (auto simp: thread_count_ok_def)
  qed
  then show ?thesis using k by simp
qed

lemma cycles_bounds:
  assumes "ring_inv n m r" and "token_at n r p k" and "i < n"
  shows "k - 2 \<le> rg_cycles r i" "rg_cycles r i \<le> k"
proof -
  have "thread_count_ok m (rg_phase r i) (rg_received r i) (rg_cycles r i)" "rg_received r i = (if i < p then Suc k else k)"
    using assms by (auto simp: ring_inv_def token_at_def)
  then show "k - 2 \<le> rg_cycles r i" "rg_cycles r i \<le> k"
    by (cases "rg_phase r i"; auto simp: thread_count_ok_def split: if_splits)+
qed


text \<open>Every step adds one to this sum.\<close>

definition thread_steps :: "ring \<Rightarrow> nat \<Rightarrow> nat" where
  "thread_steps r i = 2 * rg_received r i - (if rg_phase r i = SgRecording then 1 else 0)"

lemma thread_steps_le:
  "thread_count_ok m ph received cycles \<Longrightarrow> 0 < m \<Longrightarrow> received \<le> Suc m"
  by (cases ph) (auto simp: thread_count_ok_def)

lemma sum_one_more:
  assumes "i < (n :: nat)" and "f' i = Suc (f i)" and "\<forall>j < n. j \<noteq> i \<longrightarrow> f' j = f j"
  shows "(\<Sum>j < n. f' j) = Suc (\<Sum>j < n. f j)"
proof -
  have "(\<Sum>j < n. g j) = g i + (\<Sum>j \<in> {..<n} - {i}. g j)" for g :: "nat \<Rightarrow> nat"
    using assms(1) by (intro sum.remove) auto
  moreover have "(\<Sum>j \<in> {..<n} - {i}. f' j) = (\<Sum>j \<in> {..<n} - {i}. f j)" using assms(3) by (intro sum.cong) auto
  ultimately show ?thesis using assms(2) by simp
qed

lemma ring_step_sum:
  assumes "ring_inv n m r" and "ring_step n m r r'"
  shows "(\<Sum>j < n. thread_steps r' j) = Suc (\<Sum>j < n. thread_steps r j)"
  using assms(2)
proof cases
  case (take_signal i)
  then show ?thesis by (intro sum_one_more [of i]) (auto simp: thread_steps_def)
next
  case (first_cycle i)
  then show ?thesis by (intro sum_one_more [of i]) (auto simp: thread_steps_def)
next
  case (cycle i)
  then have "2 \<le> rg_received r i" using assms(1) by (auto simp: ring_inv_def thread_count_ok_def)
  then show ?thesis using cycle by (intro sum_one_more [of i]) (auto simp: thread_steps_def)
qed

lemma ring_run_sum:
  "(ring_step n m ^^ k) r r' \<Longrightarrow> ring_inv n m r \<Longrightarrow>
     ring_inv n m r' \<and> (\<Sum>j < n. thread_steps r' j) = k + (\<Sum>j < n. thread_steps r j)"
proof (induction k arbitrary: r')
  case (Suc k)
  from Suc.prems(1) obtain q where q: "(ring_step n m ^^ k) r q" "ring_step n m q r'" by auto
  show ?case
    using Suc.IH [OF q(1) Suc.prems(2)] ring_inv_step [OF _ q(2)] ring_step_sum [OF _ q(2)] by simp
qed simp


definition ex_ring :: ring where
  "ex_ring = \<lparr>rg_pending = (\<lambda>i. i = 0), rg_phase = (\<lambda>_. SgWaiting), rg_received = (\<lambda>_. 0), rg_cycles = (\<lambda>_. 0)\<rparr>"

lemma ex_ring_init: "ring_init 2 ex_ring" by (simp add: ring_init_def ex_ring_def)

definition ex_ring1 :: ring where
  "ex_ring1 = \<lparr>rg_pending = (\<lambda>i. i = 0)(0 := False, 1 := True), rg_phase = (\<lambda>_. SgWaiting)(0 := SgRecording),
     rg_received = (\<lambda>_. 0)(0 := 1), rg_cycles = (\<lambda>_. 0)\<rparr>"

lemma ex_ring_step: "ring_step 2 5 ex_ring ex_ring1"
proof -
  have "sg_links 2 ! 0 = 1" by (simp add: sg_links_nth)
  then show ?thesis using take_signal [of 0 2 ex_ring 5] by (simp add: ex_ring_def ex_ring1_def)
qed



end
