(* ===== verification/CyclicMinimal.thy ===== *)
theory CyclicMinimal
  imports MinimalVars CyclicMain SignalTest
begin

text \<open>
  \<^verbatim>\<open>src/cyclictest_minimal.c\<close>: the thread function with its blocks, the display, the options and \<open>main\<close>.
  The last sections compare it with \<^verbatim>\<open>src/cyclictest/cyclictest.c\<close>, from which it was cut: on a run in which
  no call fails the two measure the same.
\<close>

unbundle bit_operations_syntax

section \<open>Times\<close>

function mc_tsnorm :: "timespec \<Rightarrow> timespec" where
  "mc_tsnorm ts =
     (if tv_nsec ts \<ge> NSEC_PER_SEC
      then mc_tsnorm (ts\<lparr>tv_nsec := tv_nsec ts - NSEC_PER_SEC, tv_sec := tv_sec ts + 1\<rparr>)
      else ts)"
  by pat_completeness auto
termination
  by (relation "measure (\<lambda>ts. nat (tv_nsec ts))") auto

declare mc_tsnorm.simps [simp del]

definition mc_tsgreater :: "timespec \<Rightarrow> timespec \<Rightarrow> bool" where
  "mc_tsgreater a b \<longleftrightarrow>
     tv_sec a > tv_sec b \<or> (tv_sec a = tv_sec b \<and> tv_nsec a > tv_nsec b)"

text \<open>The seconds are multiplied as \<open>int\<close>: no result when that overflows.\<close>

definition mc_calcdiff :: "timespec \<Rightarrow> timespec \<Rightarrow> int option" where
  "mc_calcdiff t1 t2 =
     (let secs = s32 (tv_sec t1) - s32 (tv_sec t2); nsecs = s32 (tv_nsec t1) - s32 (tv_nsec t2)
      in if s32 secs = secs \<and> s32 (USEC_PER_SEC * secs) = USEC_PER_SEC * secs
         then Some (USEC_PER_SEC * secs + nsecs sdiv 1000) else None)"

definition mc_catch_up :: "timespec \<Rightarrow> timespec \<Rightarrow> timespec \<Rightarrow> timespec option" where
  "mc_catch_up now interval next =
     while_option (\<lambda>n. mc_tsgreater now n) (\<lambda>n. mc_tsnorm (ts_add interval n)) next"

section \<open>The thread\<close>

record mc_param =
  mp_prio :: int
  mp_mode :: int
  mp_timermode :: int
  mp_signal :: int
  mp_clock :: int
  mp_max_cycles :: int
  mp_bufmsk :: int
  mp_interval :: int

record mc_stat =
  ms_cycles :: int
  ms_cyclesread :: int
  ms_min :: int
  ms_max :: int
  ms_act :: int
  ms_avg :: int
  ms_values :: "int list"
  ms_threadstarted :: int
  ms_tid :: int

text \<open>The variables of the file: the limit, the two switches of the tracer.\<close>

record mc_cfg =
  mg_tracelimit :: int
  mg_ftrace :: int
  mg_oldtrace :: int

text \<open>
  What the thread asks of the kernel. \<open>CLOCK_MONOTONIC\<close> is a number that the system headers
  choose; it is an argument of the definitions that use it.
\<close>

datatype mc_call =
    McSet string int | McBlock int | McTimerCreate int int int | McSchedSelf int int | McSched int int
  | McTimerSettime int timespec timespec | McItimer int int int int | McSigwait | McSleepUntil int timespec
  | McSleepFor int timespec | McNanosleep timespec | McClock int | McUserTrace int | McTimerDelete

text \<open>The answers of a cycle. The results of the sleeps and of the clock are not looked at: the times are
  what is in the variables after the calls.\<close>

record mc_wake =
  mw_shutdown :: int
  mw_sigwait :: int
  mw_clock1 :: timespec
  mw_clock2 :: timespec

definition mc_interval :: "mc_param \<Rightarrow> timespec" where
  "mc_interval par =
     \<lparr>tv_sec = mp_interval par div USEC_PER_SEC,
      tv_nsec = (mp_interval par mod USEC_PER_SEC) * 1000\<rparr>"

text \<open>
  Before the clock is read. The notification of the timer is first \<open>SIGEV_SIGNAL\<close> and then overwritten by the
  thread id; the timer is created with what is left.
\<close>

definition mc_prologue :: "mc_cfg \<Rightarrow> mc_param \<Rightarrow> int \<Rightarrow> mc_call list" where
  "mc_prologue cfg par tid =
     (if mg_tracelimit cfg \<noteq> 0 then map (\<lambda>(n, v). McSet n v) (mc_trace_vars (mg_ftrace cfg)) else []) @
     [McBlock (mp_signal par)] @
     (if mp_mode par = MODE_CYCLIC then [McTimerCreate (mp_clock par) (mp_signal par) tid] else []) @
     [McSchedSelf (if mp_prio par \<noteq> 0 then 1 else SCHED_OTHER) (mp_prio par)]"

text \<open>A relative timer expires first after one second, whatever the interval.\<close>

definition mc_arm :: "mc_cfg \<Rightarrow> mc_param \<Rightarrow> timespec \<Rightarrow> timespec \<Rightarrow> mc_call list" where
  "mc_arm cfg par interval next =
     (if mp_mode par = MODE_CYCLIC
      then [McTimerSettime (mp_timermode par)
              (if mp_timermode par = TIMER_ABSTIME then next else \<lparr>tv_sec = 1, tv_nsec = 0\<rparr>) interval]
      else []) @
     (if mp_mode par = MODE_SYS_ITIMER
      then [McItimer 1 0 (tv_sec interval) (tv_nsec interval sdiv 1000)] else []) @
     (if mg_tracelimit cfg \<noteq> 0 \<and> mg_oldtrace cfg \<noteq> 0 then [McUserTrace 1] else [])"

definition mc_wait ::
  "int \<Rightarrow> mc_param \<Rightarrow> timespec \<Rightarrow> mc_wake \<Rightarrow> timespec \<Rightarrow> mc_call list \<times> timespec option" where
  "mc_wait mclk par interval w next =
     (if mp_mode par = MODE_CYCLIC \<or> mp_mode par = MODE_SYS_ITIMER
      then ([McSigwait], if mw_sigwait w < 0 then None else Some next)
      else if mp_mode par = MODE_CLOCK_NANOSLEEP
      then (if mp_timermode par = TIMER_ABSTIME then ([McSleepUntil mclk next], Some next)
            else ([McClock (mp_clock par), McSleepFor (mp_clock par) interval],
                  Some (mc_tsnorm (ts_add interval (mw_clock1 w)))))
      else if mp_mode par = MODE_SYS_NANOSLEEP
      then ([McClock mclk, McNanosleep interval], Some (mc_tsnorm (ts_add interval (mw_clock1 w))))
      else ([], Some next))"

text \<open>Minimum, maximum and sum, compared as signed numbers.\<close>

definition mc_minmax :: "int \<Rightarrow> mc_stat \<Rightarrow> mc_stat" where
  "mc_minmax diff s =
     (let s1 = (if diff < ms_min s then s\<lparr>ms_min := diff\<rparr> else s);
          s2 = (if diff > ms_max s1 then s1\<lparr>ms_max := diff\<rparr> else s1)
      in s2\<lparr>ms_avg := ms_avg s2 + diff\<rparr>)"

text \<open>The limit of the latency: with an old tracer it is stopped; the measurement ends in any case.\<close>

definition mc_check ::
  "mc_cfg \<Rightarrow> int \<Rightarrow> int \<Rightarrow> int \<Rightarrow> mc_call list \<times> int \<times> int" where
  "mc_check cfg diff stopped shutdown =
     (if stopped = 0 \<and> mg_tracelimit cfg \<noteq> 0 \<and> diff > mg_tracelimit cfg
      then (if mg_oldtrace cfg \<noteq> 0 then [McUserTrace 0] else [], stopped + 1, shutdown + 1)
      else ([], stopped, shutdown))"

text \<open>The cycle is counted before the value is stored.\<close>

definition mc_store :: "mc_param \<Rightarrow> int \<Rightarrow> mc_stat \<Rightarrow> mc_stat option" where
  "mc_store par diff s =
     (let s1 = s\<lparr>ms_act := diff, ms_cycles := u64 (ms_cycles s + 1)\<rparr>
      in if mp_bufmsk par \<noteq> 0
         then map_option (\<lambda>vs. s1\<lparr>ms_values := vs\<rparr>)
                (c_write (ms_values s1) (ms_cycles s1 AND mp_bufmsk par) diff)
         else Some s1)"

record mc_state =
  mt_next :: timespec
  mt_stopped :: int
  mt_shutdown :: int
  mt_stat :: mc_stat
  mt_log :: "mc_call list"

datatype mc_result = McOut mc_state | McContinue mc_state | McBreak mc_state | McUndefined | McHangs

definition mc_iter :: "int \<Rightarrow> mc_cfg \<Rightarrow> mc_param \<Rightarrow> timespec \<Rightarrow> mc_wake \<Rightarrow> mc_state \<Rightarrow> mc_result" where
  "mc_iter mclk cfg par interval w t =
     (case mc_wait mclk par interval w (mt_next t) of
        (log1, None) \<Rightarrow> McOut (t\<lparr>mt_log := mt_log t @ log1\<rparr>)
      | (log1, Some next1) \<Rightarrow>
          let now = mw_clock2 w
          in case mc_calcdiff now next1 of
               None \<Rightarrow> McUndefined
             | Some diff \<Rightarrow>
                 let (log2, stopped, shutdown) = mc_check cfg diff (mt_stopped t) (mt_shutdown t)
                 in case mc_store par diff (mc_minmax diff (mt_stat t)) of
                      None \<Rightarrow> McUndefined
                    | Some s \<Rightarrow>
                        (case mc_catch_up now interval (mc_tsnorm (ts_add interval next1)) of
                           None \<Rightarrow> McHangs
                         | Some next2 \<Rightarrow>
                             let t' = \<lparr>mt_next = next2, mt_stopped = stopped, mt_shutdown = shutdown, mt_stat = s,
                                       mt_log = mt_log t @ log1 @ [McClock (mp_clock par)] @ log2\<rparr>
                             in if mp_max_cycles par \<noteq> 0 \<and> mp_max_cycles par = ms_cycles s
                                then McBreak t' else McContinue t'))"

datatype mc_run = McLeft mc_state | McRunning mc_state | McRunUndefined | McRunHangs

definition mc_others :: "mc_wake \<Rightarrow> mc_state \<Rightarrow> mc_state" where
  "mc_others w t = t\<lparr>mt_shutdown := mt_shutdown t + mw_shutdown w\<rparr>"

fun mc_loop :: "int \<Rightarrow> mc_cfg \<Rightarrow> mc_param \<Rightarrow> timespec \<Rightarrow> mc_wake list \<Rightarrow> mc_state \<Rightarrow> mc_run" where
  "mc_loop mclk cfg par interval [] t = McRunning t"
| "mc_loop mclk cfg par interval (w # ws) t =
     (if mt_shutdown (mc_others w t) \<noteq> 0 then McLeft (mc_others w t)
      else case mc_iter mclk cfg par interval w (mc_others w t) of
             McOut t' \<Rightarrow> McLeft t'
           | McBreak t' \<Rightarrow> McLeft t'
           | McUndefined \<Rightarrow> McRunUndefined
           | McHangs \<Rightarrow> McRunHangs
           | McContinue t' \<Rightarrow> mc_loop mclk cfg par interval ws t')"

definition mc_epilogue :: "mc_param \<Rightarrow> mc_state \<Rightarrow> mc_state" where
  "mc_epilogue par t =
     t\<lparr>mt_log := mt_log t @
         (if mp_mode par = MODE_CYCLIC then [McTimerDelete] else []) @
         (if mp_mode par = MODE_SYS_ITIMER then [McItimer 0 0 0 0] else []) @
         [McSched SCHED_OTHER 0],
       mt_stat := (mt_stat t)\<lparr>ms_threadstarted := -1\<rparr>\<rparr>"

definition mc_timerthread ::
  "int \<Rightarrow> mc_cfg \<Rightarrow> mc_param \<Rightarrow> int \<Rightarrow> timespec \<Rightarrow> mc_wake list \<Rightarrow> mc_stat \<Rightarrow> int \<Rightarrow> mc_run" where
  "mc_timerthread mclk cfg par tid clock ws stat shutdown =
     (let interval = mc_interval par;
          next = mc_tsnorm (ts_add interval clock);
          stat1 = stat\<lparr>ms_tid := tid\<rparr>;
          t0 = \<lparr>mt_next = next, mt_stopped = 0, mt_shutdown = shutdown,
                mt_stat = stat1\<lparr>ms_threadstarted := ms_threadstarted stat1 + 1\<rparr>,
                mt_log = mc_prologue cfg par tid @ [McClock mclk] @ mc_arm cfg par interval next\<rparr>
      in case mc_loop mclk cfg par interval ws t0 of
           McLeft t \<Rightarrow> McLeft (mc_epilogue par t)
         | r \<Rightarrow> r)"

section \<open>Display\<close>

datatype mc_line = McSummary int int int int int int int int int | McSample int int int | McLoadavg | McUp int

definition mc_summary :: "mc_param \<Rightarrow> int \<Rightarrow> mc_stat \<Rightarrow> mc_line" where
  "mc_summary par index s =
     McSummary index (ms_tid s) (mp_prio par) (mp_interval par) (ms_cycles s) (ms_min s) (ms_act s)
       (if ms_cycles s \<noteq> 0 then ms_avg s sdiv ms_cycles s else 0) (ms_max s)"

function mc_drain :: "mc_param \<Rightarrow> int \<Rightarrow> mc_stat \<Rightarrow> (mc_line list \<times> mc_stat) option" where
  "mc_drain par index s =
     (if u64 (ms_cycles s - ms_cyclesread s) = 0 then Some ([], s)
      else case c_read (ms_values s) (ms_cyclesread s AND mp_bufmsk par) of
             None \<Rightarrow> None
           | Some diff \<Rightarrow>
               map_option (\<lambda>(outs, s'). (McSample index (ms_cyclesread s) diff # outs, s'))
                 (mc_drain par index (s\<lparr>ms_cyclesread := u64 (ms_cyclesread s + 1)\<rparr>)))"
  by pat_completeness auto
termination
proof (relation "measure (\<lambda>(_, _, s). nat (u64 (ms_cycles s - ms_cyclesread s)))", goal_cases)
  case 1
  show ?case by simp
next
  case (2 par index s diff)
  then show ?case
    using u64_diff_step [of "ms_cycles s" "ms_cyclesread s"] u64_pos [of "ms_cycles s - ms_cyclesread s"] by auto
qed

declare mc_drain.simps [simp del]

definition mc_print_stat :: "mc_param \<Rightarrow> int \<Rightarrow> int \<Rightarrow> int \<Rightarrow> mc_stat \<Rightarrow> (mc_line list \<times> mc_stat) option" where
  "mc_print_stat par index verbose quiet s =
     (if verbose = 0 then Some (if quiet \<noteq> 1 then [mc_summary par index s] else [], s)
      else mc_drain par index s)"

section \<open>Options and checks\<close>

record mc_opts =
  mo_tracelimit :: int
  mo_clocksel :: int
  mo_distance :: int
  mo_ftrace :: int
  mo_interval :: int
  mo_max_cycles :: int
  mo_use_nanosleep :: int
  mo_priority :: int
  mo_quiet :: int
  mo_timermode :: int
  mo_use_system :: int
  mo_threads :: int
  mo_verbose :: int
  mo_error :: bool

definition mc_defaults :: mc_opts where
  "mc_defaults =
     \<lparr>mo_tracelimit = 0, mo_clocksel = 0, mo_distance = 500, mo_ftrace = 0, mo_interval = 1000, mo_max_cycles = 0,
      mo_use_nanosleep = 0, mo_priority = 0, mo_quiet = 0, mo_timermode = TIMER_ABSTIME, mo_use_system = 0,
      mo_threads = 1, mo_verbose = 0, mo_error = False\<rparr>"

datatype mc_opt =
    McB string | McC string | McD string | McF | McI string | McL string | McN | McP string | McQ | McR | McS
  | McT string | McV | McHelp

definition mc_option :: "mc_opt \<Rightarrow> mc_opts \<Rightarrow> mc_opts" where
  "mc_option opt p =
     (case opt of
        McB a \<Rightarrow> p\<lparr>mo_tracelimit := atoi a\<rparr>
      | McC a \<Rightarrow> p\<lparr>mo_clocksel := atoi a\<rparr>
      | McD a \<Rightarrow> p\<lparr>mo_distance := atoi a\<rparr>
      | McF \<Rightarrow> p\<lparr>mo_ftrace := 1\<rparr>
      | McI a \<Rightarrow> p\<lparr>mo_interval := atoi a\<rparr>
      | McL a \<Rightarrow> p\<lparr>mo_max_cycles := atoi a\<rparr>
      | McN \<Rightarrow> p\<lparr>mo_use_nanosleep := MODE_CLOCK_NANOSLEEP\<rparr>
      | McP a \<Rightarrow> p\<lparr>mo_priority := atoi a\<rparr>
      | McQ \<Rightarrow> p\<lparr>mo_quiet := 1\<rparr>
      | McR \<Rightarrow> p\<lparr>mo_timermode := TIMER_RELTIME\<rparr>
      | McS \<Rightarrow> p\<lparr>mo_use_system := MODE_SYS_OFFSET\<rparr>
      | McT a \<Rightarrow> p\<lparr>mo_threads := atoi a\<rparr>
      | McV \<Rightarrow> p\<lparr>mo_verbose := 1\<rparr>
      | McHelp \<Rightarrow> p\<lparr>mo_error := True\<rparr>)"

text \<open>\<open>None\<close> when the usage is shown. The test of the clock lets the size of the array pass.\<close>

definition mc_options :: "mc_opt list \<Rightarrow> mc_opts option" where
  "mc_options opts =
     (let p = fold mc_option opts mc_defaults
      in if mo_error p \<or> mo_clocksel p < 0 \<or> mo_clocksel p > 2 \<or> mo_priority p < 0 \<or> mo_priority p > 99 \<or>
            mo_threads p < 1
         then None else Some p)"

definition mc_oldtrace :: "int \<times> int \<times> int \<Rightarrow> int" where
  "mc_oldtrace v = (case v of (maj, minor, sub) \<Rightarrow> if maj = 2 \<and> minor = 6 \<and> sub < 18 then 1 else 0)"

definition mc_check_timer :: "int \<Rightarrow> int \<times> int \<Rightarrow> int" where
  "mc_check_timer getres_ret res =
     (if getres_ret \<noteq> 0 then 1 else if fst res \<noteq> 0 \<or> snd res \<noteq> 1 then 1 else 0)"

section \<open>main\<close>

text \<open>The checks at the start: the exit status, or the options, with the resolution that is printed.\<close>

definition mc_main_checks :: "int \<Rightarrow> mc_opt list \<Rightarrow> int \<Rightarrow> int \<Rightarrow> int \<Rightarrow> int + (mc_opts \<times> int)" where
  "mc_main_checks euid opts clockperiod_ret getres_ret res_nsec =
     (if euid \<noteq> 0 then Inl (-1)
      else case mc_options opts of
             None \<Rightarrow> Inl 0
           | Some p \<Rightarrow>
               if clockperiod_ret = -1 \<or> getres_ret = -1 then Inl 1
               else Inr (p, res_nsec sdiv 1000))"

definition mc_mode :: "mc_opts \<Rightarrow> int" where
  "mc_mode p = mo_use_nanosleep p + mo_use_system p"

text \<open>What \<open>calloc\<close> leaves in a statistics block.\<close>

definition mc_zero_stat :: mc_stat where
  "mc_zero_stat = \<lparr>ms_cycles = 0, ms_cyclesread = 0, ms_min = 0, ms_max = 0, ms_act = 0, ms_avg = 0,
     ms_values = [], ms_threadstarted = 0, ms_tid = 0\<rparr>"

datatype mc_create_error = McNoMemory | McNoClock

text \<open>Thread \<open>i\<close>, with the priority and the interval that the threads before it have left.\<close>

definition mc_create ::
  "mc_opts \<Rightarrow> int list \<Rightarrow> bool \<Rightarrow> int \<times> int \<Rightarrow> mc_create_error + ((mc_param \<times> mc_stat) \<times> int \<times> int)" where
  "mc_create p clocksources values_ok st =
     (let (priority, interval) = st
      in if mo_verbose p \<noteq> 0 \<and> \<not> values_ok then Inl McNoMemory
         else case c_read clocksources (mo_clocksel p) of
                None \<Rightarrow> Inl McNoClock
              | Some clock \<Rightarrow>
                  Inr ((\<lparr>mp_prio = priority, mp_mode = mc_mode p, mp_timermode = mo_timermode p,
                         mp_signal = SIGALRM, mp_clock = clock, mp_max_cycles = u64 (mo_max_cycles p),
                         mp_bufmsk = (if mo_verbose p \<noteq> 0 then VALBUF_SIZE - 1 else 0),
                         mp_interval = u64 interval\<rparr>,
                        mc_zero_stat\<lparr>ms_values := (if mo_verbose p \<noteq> 0 then replicate (nat VALBUF_SIZE) 0 else []),
                          ms_min := 1000000, ms_max := -1000000, ms_threadstarted := 1\<rparr>),
                       if priority \<noteq> 0 then priority - 1 else priority, s32 (interval + mo_distance p)))"

fun mc_create_all ::
  "mc_opts \<Rightarrow> int list \<Rightarrow> bool list \<Rightarrow> int \<times> int \<Rightarrow> (mc_param \<times> mc_stat) list \<times> mc_create_error option" where
  "mc_create_all p clocksources [] st = ([], None)"
| "mc_create_all p clocksources (ok # oks) st =
     (case mc_create p clocksources ok st of
        Inl e \<Rightarrow> ([], Some e)
      | Inr (ps, st1) \<Rightarrow> (case mc_create_all p clocksources oks st1 of (rest, e) \<Rightarrow> (ps # rest, e)))"

text \<open>One round of the display: its lines, the blocks after it, and whether it was the last.\<close>

fun mc_print_all ::
  "int \<Rightarrow> int \<Rightarrow> int \<Rightarrow> (mc_param \<times> mc_stat) list \<Rightarrow> (mc_line list \<times> (mc_param \<times> mc_stat) list) option" where
  "mc_print_all verbose quiet i [] = Some ([], [])"
| "mc_print_all verbose quiet i ((par, s) # ps) =
     (case mc_print_stat par i verbose quiet s of
        None \<Rightarrow> None
      | Some (out, s1) \<Rightarrow>
          map_option (\<lambda>(outs, ps1). (out @ outs, (par, s1) # ps1)) (mc_print_all verbose quiet (i + 1) ps))"

definition mc_round ::
  "mc_opts \<Rightarrow> int \<Rightarrow> (mc_param \<times> mc_stat) list \<Rightarrow> (mc_line list \<times> (mc_param \<times> mc_stat) list \<times> bool) option" where
  "mc_round p shutdown ps =
     map_option
       (\<lambda>(out, ps1).
          let stopped = length (filter (\<lambda>(par, s). mo_max_cycles p \<noteq> 0 \<and> ms_cycles s \<ge> u64 (mo_max_cycles p)) ps1);
              fin = (shutdown \<noteq> 0 \<or> stopped \<noteq> 0);
              loud = (mo_verbose p = 0 \<and> mo_quiet p = 0)
          in ((if loud then [McLoadavg] else []) @ out @
              (if loud \<and> \<not> fin then [McUp (mo_threads p + 2)] else []), ps1, fin))
       (mc_print_all (mo_verbose p) (mo_quiet p) 0 ps)"

datatype mc_stop_op = McKill int | McJoin int | McShow int | McFree int | McFreeStat | McFreePar | McRestore

text \<open>
  The end: over all entries, those of threads that were never created included, which \<open>calloc\<close> has
  cleared.
\<close>

definition mc_stop :: "int \<Rightarrow> int \<Rightarrow> mc_stat \<Rightarrow> mc_stop_op list" where
  "mc_stop quiet i s =
     (if ms_threadstarted s > 0 then [McKill i] else []) @
     (if ms_threadstarted s \<noteq> 0 then McJoin i # (if quiet \<noteq> 0 then [McShow i] else []) else []) @
     (if ms_values s \<noteq> [] then [McFree i] else [])"

definition mc_stop_all :: "int \<Rightarrow> mc_stat list \<Rightarrow> mc_stop_op list" where
  "mc_stop_all quiet ss = concat (map (\<lambda>(i, s). mc_stop quiet (int i) s) (enumerate 0 ss))"

definition mc_entries :: "mc_opts \<Rightarrow> (mc_param \<times> mc_stat) list \<Rightarrow> mc_stat list" where
  "mc_entries p ps = map snd ps @ replicate (nat (mo_threads p) - length ps) mc_zero_stat"

text \<open>
  From \<open>outall\<close>, \<open>outpar\<close> or \<open>out\<close> to the exit: the status, which is 0 only after the display loop, and
  the operations.
\<close>

definition mc_end ::
  "bool \<Rightarrow> mc_opts \<Rightarrow> bool \<Rightarrow> bool \<Rightarrow> (mc_param \<times> mc_stat) list \<Rightarrow> int \<times> mc_stop_op list" where
  "mc_end displayed p par_ok stat_ok ps =
     (if \<not> par_ok then (-1, [McRestore])
      else if \<not> stat_ok then (-1, [McFreePar, McRestore])
      else (if displayed then 0 else -1,
            mc_stop_all (if mo_quiet p \<noteq> 0 then 2 else 0) (mc_entries p ps) @ [McFreeStat, McFreePar, McRestore]))"

section \<open>The same arithmetic\<close>

lemma mc_tsnorm_eq: "mc_tsnorm t = tsnorm t"
  by (induction t rule: mc_tsnorm.induct) (subst mc_tsnorm.simps, subst tsnorm.simps, simp)

interpretation mcts: ts_normaliser mc_tsnorm
  by unfold_locales (simp_all add: mc_tsnorm_eq tsnorm_ns tsnorm_normal)

lemma mc_tsgreater_eq: "mc_tsgreater a b = tsgreater a b"
  by (simp add: mc_tsgreater_def tsgreater_def)

lemma mc_catch_up_eq: "mc_catch_up now interval next = catch_up now interval next"
  by (simp add: mc_catch_up_def catch_up_def mc_tsgreater_eq mc_tsnorm_eq)

lemma mc_calcdiff_eq: "mc_calcdiff = sg_calcdiff"
  by (intro ext) (simp add: mc_calcdiff_def sg_calcdiff_def Let_def)

interpretation mcstat: latency_stats mc_minmax ms_min ms_max ms_avg "\<lambda>_. True" "\<lambda>_. True"
  by unfold_locales (auto simp: mc_minmax_def Let_def min_def max_def)

text \<open>Two times whose difference \<open>calcdiff\<close> of this program can compute.\<close>

definition ts_near :: "timespec \<Rightarrow> timespec \<Rightarrow> bool" where
  "ts_near a b \<longleftrightarrow> ts_normal a \<and> ts_normal b \<and> - 2147483648 < tv_sec a \<and> tv_sec a < 2147483648 \<and>
     - 2147483648 < tv_sec b \<and> tv_sec b < 2147483648 \<and> \<bar>tv_sec a - tv_sec b\<bar> \<le> 2147"

lemma differences_agree:
  assumes "ts_near now next" and "ts_ns next \<le> ts_ns now"
  shows "mc_calcdiff now next = Some (calcdiff now next)" and "sample_ok (calcdiff now next)"
    and "u64 (calcdiff now next) = calcdiff now next"
proof -
  let ?d = "USEC_PER_SEC * (tv_sec now - tv_sec next) + (tv_nsec now - tv_nsec next) sdiv 1000"
  have "mc_calcdiff now next = Some ?d"
    using assms(1) by (simp add: mc_calcdiff_eq sg_calcdiff_near ts_near_def ts_normal_def)
  moreover have eq: "calcdiff now next = ?d"
    using assms(1) by (intro calcdiff_value) (auto simp: ts_near_def sec_ok_def)
  ultimately show "mc_calcdiff now next = Some (calcdiff now next)" by simp
  have "\<bar>(tv_nsec now - tv_nsec next) - 1000 * ((tv_nsec now - tv_nsec next) sdiv 1000)\<bar> < 1000"
    by (rule sdiv_bounds) simp
  then have "\<bar>ts_ns now - ts_ns next - 1000 * ?d\<bar> < 1000" by (simp add: ts_ns_def algebra_simps)
  then have "- 1000 < 1000 * ?d" using assms(2) by linarith
  moreover have "\<bar>(tv_nsec now - tv_nsec next) sdiv 1000\<bar> \<le> \<bar>tv_nsec now - tv_nsec next\<bar>"
    using sdiv_int_range [of "tv_nsec now - tv_nsec next" 1000] by auto
  ultimately show ok: "sample_ok (calcdiff now next)"
    using assms(1) unfolding eq by (auto simp: sample_ok_def ts_near_def ts_normal_def)
  then show "u64 (calcdiff now next) = calcdiff now next" by (rule sample_u64)
qed

section \<open>The same measurement\<close>

definition same_param :: "mc_param \<Rightarrow> thread_param \<Rightarrow> bool" where
  "same_param mp par \<longleftrightarrow>
     mp_mode mp = tp_mode par \<and> mp_timermode mp = tp_timermode par \<and> mp_interval mp = tp_interval par \<and>
     mp_max_cycles mp = tp_max_cycles par \<and> mp_bufmsk mp = 0 \<and> tp_bufmsk par = 0"

definition plain_cfg :: "mc_cfg \<Rightarrow> cyc_cfg \<Rightarrow> bool" where
  "plain_cfg mcfg cfg \<longleftrightarrow>
     mg_tracelimit mcfg = c_tracelimit cfg \<and> 0 \<le> c_tracelimit cfg \<and> c_tracelimit cfg < 2147483648 \<and>
     c_histogram cfg = 0 \<and> c_duration cfg = 0 \<and> c_use_nsecs cfg = 0 \<and> c_aligned cfg = 0 \<and> c_secaligned cfg = 0"

definition same_stat :: "mc_stat \<Rightarrow> thread_stat \<Rightarrow> bool" where
  "same_stat m s \<longleftrightarrow>
     ms_cycles m = st_cycles s \<and> ms_min m = st_min s \<and> ms_act m = st_act s \<and> ms_avg m = st_avg s \<and>
     ms_threadstarted m = st_threadstarted s \<and> minmax_wf s \<and>
     (ms_max m = st_max s \<or> ms_cycles m = 0 \<and> ms_max m = -1000000 \<and> st_max s = 0)"

definition same_state :: "mc_state \<Rightarrow> tstate \<Rightarrow> bool" where
  "same_state m t \<longleftrightarrow>
     mt_next m = t_next t \<and> mt_stopped m = t_stopped t \<and> mt_shutdown m = sh_shutdown (t_sh t) \<and>
     same_stat (mt_stat m) (t_stat t)"

definition mc_of :: "wake \<Rightarrow> mc_wake" where
  "mc_of w = \<lparr>mw_shutdown = wk_shutdown w, mw_sigwait = wk_sigwait w, mw_clock1 = wk_clock1 w,
     mw_clock2 = wk_clock2 w\<rparr>"

definition calls_ok :: "wake \<Rightarrow> bool" where
  "calls_ok w \<longleftrightarrow> wk_clock1_ret w = 0 \<and> wk_sleep_ret w = 0 \<and> wk_clock2_ret w = 0 \<and> wk_overrun w = 0 \<and> wake_ok w"

text \<open>The time the difference is taken to.\<close>

definition due :: "thread_param \<Rightarrow> timespec \<Rightarrow> wake \<Rightarrow> timespec \<Rightarrow> timespec" where
  "due par interval w next =
     (if tp_mode par = MODE_CLOCK_NANOSLEEP \<and> tp_timermode par \<noteq> TIMER_ABSTIME \<or> tp_mode par = MODE_SYS_NANOSLEEP
      then tsnorm (ts_add interval (wk_clock1 w)) else next)"

text \<open>No wake-up comes before the time it is for, or more than half an hour after it.\<close>

fun timely :: "thread_param \<Rightarrow> timespec \<Rightarrow> timespec \<Rightarrow> wake list \<Rightarrow> bool" where
  "timely par interval next [] = True"
| "timely par interval next (w # ws) =
     (let n = due par interval w next
      in ts_near (wk_clock2 w) n \<and> ts_ns n \<le> ts_ns (wk_clock2 w) \<and>
         (case catch_up (wk_clock2 w) interval (tsnorm (ts_add interval n)) of
            None \<Rightarrow> False
          | Some n' \<Rightarrow> timely par interval n' ws))"

lemma waits_agree:
  assumes "same_param mp par" and "calls_ok w"
  shows "(\<exists>l1 l2. mc_wait mclk mp interval (mc_of w) next = (l1, None) \<and> wait_period par interval w now next = (l2, None)) \<or>
    (\<exists>l1 l2 now1. mc_wait mclk mp interval (mc_of w) next = (l1, Some (due par interval w next)) \<and>
       wait_period par interval w now next = (l2, Some (now1, due par interval w next)))"
  using assms
  by (auto simp: same_param_def calls_ok_def mc_wait_def wait_period_def due_def mc_of_def mc_tsnorm_eq)

lemma stats_agree:
  assumes "same_stat m s" and "sample_ok d"
  shows "same_stat ((mc_minmax d m)\<lparr>ms_act := d, ms_cycles := u64 (ms_cycles m + 1)\<rparr>)
      ((update_minmax d s)\<lparr>st_act := s64 d, st_cycles := u64 (st_cycles s + 1)\<rparr>)"
proof -
  have wf: "minmax_wf s" using assms(1) by (simp add: same_stat_def)
  have o: "ms_threadstarted (mc_minmax d m) = ms_threadstarted m" "st_threadstarted (update_minmax d s) = st_threadstarted s"
    by (simp_all add: mc_minmax_def update_minmax_def Let_def)
  have m: "minmax_wf (update_minmax d s)" by (rule cycstat.wf_rec [OF wf assms(2)])
  then have m': "minmax_wf ((update_minmax d s)\<lparr>st_act := a, st_cycles := c\<rparr>)" for a c
    by (simp add: minmax_wf_def)
  have "0 \<le> d" using assms(2) by (simp add: sample_ok_def)
  then show ?thesis
    using assms cycstat.mn_rec [OF wf assms(2)] cycstat.mx_rec [OF wf assms(2)] cycstat.sm_rec [OF wf assms(2)]
    by (auto simp: same_stat_def mcstat.mn_rec mcstat.mx_rec mcstat.sm_rec o m' sample_s64)
qed

fun same_iter :: "mc_result \<Rightarrow> iter_result \<Rightarrow> bool" where
  "same_iter (McOut m) (Goto_out t) = same_state m t"
| "same_iter (McContinue m) (Continue t) = same_state m t"
| "same_iter (McBreak m) (Break t) = same_state m t"
| "same_iter _ _ = False"

lemma iterations_agree:
  assumes p: "same_param mp par" and c: "plain_cfg mcfg cfg" and w: "calls_ok w" and s: "same_state m t"
    and near: "ts_near (wk_clock2 w) (due par interval w (t_next t))"
    and late: "ts_ns (due par interval w (t_next t)) \<le> ts_ns (wk_clock2 w)"
    and cu: "catch_up (wk_clock2 w) interval (tsnorm (ts_add interval (due par interval w (t_next t)))) = Some n"
  shows "same_iter (mc_iter mclk mcfg mp interval (mc_of w) m) (timer_iter cfg par interval stop w t) \<and>
    (timer_iter cfg par interval stop w t = Continue t' \<longrightarrow> t_next t' = n)"
proof -
  let ?n = "due par interval w (t_next t)"
  let ?d = "calcdiff (wk_clock2 w) ?n"
  note d = differences_agree [OF near late]
  have eq: "mt_next m = t_next t" "mt_stopped m = t_stopped t" "mt_shutdown m = sh_shutdown (t_sh t)"
    and st: "same_stat (mt_stat m) (t_stat t)" using s by (simp_all add: same_state_def)
  have lat: "latency cfg (wk_clock2 w) ?n = ?d" using c d(3) by (simp add: latency_def plain_cfg_def)
  have lim: "u64 (c_tracelimit cfg) = c_tracelimit cfg" using c by (intro u64_fits) (auto simp: plain_cfg_def)
  have nd: "next_deadline par interval w ?n = tsnorm (ts_add interval ?n)"
    using w by (simp add: next_deadline_def Let_def calls_ok_def)
  have par: "mp_bufmsk mp = 0" "tp_bufmsk par = 0" "mp_max_cycles mp = tp_max_cycles par"
    "mg_tracelimit mcfg = c_tracelimit cfg" "c_histogram cfg = 0" "c_duration cfg = 0" "wk_clock2_ret w = 0"
    "mw_clock2 (mc_of w) = wk_clock2 w"
    using p c w by (simp_all add: same_param_def plain_cfg_def calls_ok_def mc_of_def)
  have cyc: "ms_cycles (mc_minmax ?d (mt_stat m)) = ms_cycles (mt_stat m)" by (simp add: mc_minmax_def Let_def)
  have cyc2: "ms_cycles (mt_stat m) = st_cycles (t_stat t)" using st by (simp add: same_stat_def)
  from waits_agree [OF p w, of mclk interval "t_next t" "t_now t"] show ?thesis
  proof (elim disjE exE conjE)
    fix l1 l2 assume "mc_wait mclk mp interval (mc_of w) (t_next t) = (l1, None)"
      "wait_period par interval w (t_now t) (t_next t) = (l2, None)"
    then show ?thesis using s by (simp add: mc_iter_def timer_iter_def eq same_state_def)
  next
    fix l1 l2 now1 assume wt: "mc_wait mclk mp interval (mc_of w) (t_next t) = (l1, Some ?n)"
      "wait_period par interval w (t_now t) (t_next t) = (l2, Some (now1, ?n))"
    show ?thesis
      using stats_agree [OF st d(2)]
      by (simp add: mc_iter_def timer_iter_def wt eq lat nd par lim d(1) cu mc_catch_up_eq mc_tsnorm_eq
          mc_store_def store_value_def update_histogram_def mc_check_def check_tracelimit_def record_break_def
          same_state_def Let_def cyc cyc2) (auto simp: same_stat_def)
  qed
qed

fun same_run :: "mc_run \<Rightarrow> run_result \<Rightarrow> bool" where
  "same_run (McLeft m) (Exited t) = same_state m t"
| "same_run (McRunning m) (Running t) = same_state m t"
| "same_run _ _ = False"

lemma others_agree:
  "same_state m t \<Longrightarrow> same_state (mc_others (mc_of w) m) (others_shutdown w t)"
  by (simp add: same_state_def mc_others_def mc_of_def)

lemma loops_agree:
  assumes p: "same_param mp par" and c: "plain_cfg mcfg cfg"
    and "\<forall>w \<in> set ws. calls_ok w" and "timely par interval (t_next t) ws" and "same_state m t"
  shows "same_run (mc_loop mclk mcfg mp interval (map mc_of ws) m) (timer_loop cfg par interval stop ws t)"
  using assms(3-5)
proof (induction ws arbitrary: m t)
  case Nil
  then show ?case by simp
next
  case (Cons w ws)
  let ?m = "mc_others (mc_of w) m" and ?t = "others_shutdown w t"
  have w: "calls_ok w" using Cons.prems(1) by simp
  have s: "same_state ?m ?t" using Cons.prems(3) by (rule others_agree)
  then have sd: "mt_shutdown ?m = sh_shutdown (t_sh ?t)" by (simp add: same_state_def)
  obtain n where due: "ts_near (wk_clock2 w) (due par interval w (t_next ?t))"
    "ts_ns (due par interval w (t_next ?t)) \<le> ts_ns (wk_clock2 w)"
    "catch_up (wk_clock2 w) interval (tsnorm (ts_add interval (due par interval w (t_next ?t)))) = Some n"
    "timely par interval n ws"
    using Cons.prems(2) by (auto simp: Let_def split: option.splits)
  note it = iterations_agree [OF p c w s due(1-3), of mclk stop]
  show ?case
  proof (cases "sh_shutdown (t_sh ?t) = 0")
    case False
    then show ?thesis using s sd by (simp del: others_shutdown_sel)
  next
    case True
    show ?thesis
    proof (cases "mc_iter mclk mcfg mp interval (mc_of w) ?m")
      case (McContinue m')
      then obtain t' where t': "timer_iter cfg par interval stop w ?t = Continue t'" "same_state m' t'" "t_next t' = n"
        using it by (cases "timer_iter cfg par interval stop w ?t") auto
      then show ?thesis
        using Cons.IH [of t' m'] Cons.prems(1) due(4) McContinue True sd by (simp del: others_shutdown_sel)
    qed (use it True sd in \<open>cases "timer_iter cfg par interval stop w ?t"; simp del: others_shutdown_sel\<close>)+
  qed
qed

lemma intervals_agree: "same_param mp par \<Longrightarrow> mc_interval mp = thread_interval par"
  by (simp add: mc_interval_def thread_interval_def same_param_def)

lemma same_run_left:
  "same_run r q \<Longrightarrow>
     same_run (case r of McLeft m \<Rightarrow> McLeft (mc_epilogue mp m) | r' \<Rightarrow> r')
       (case q of Exited t \<Rightarrow> Exited (timer_epilogue par t) | q' \<Rightarrow> q')"
  by (cases r; cases q)
    (auto simp: same_state_def same_stat_def mc_epilogue_def timer_epilogue_def minmax_wf_def)


definition ex_mpar :: mc_param where
  "ex_mpar = \<lparr>mp_prio = 80, mp_mode = MODE_CLOCK_NANOSLEEP, mp_timermode = TIMER_ABSTIME, mp_signal = 14,
     mp_clock = 1, mp_max_cycles = 2, mp_bufmsk = 0, mp_interval = 1000\<rparr>"

definition ex_mstat :: mc_stat where
  "ex_mstat = mc_zero_stat\<lparr>ms_min := 1000000, ms_max := -1000000, ms_threadstarted := 1\<rparr>"

lemma ex_timely:
  "timely ex_par (thread_interval ex_par) (first_deadline (thread_interval ex_par) \<lparr>tv_sec = 5, tv_nsec = 0\<rparr>)
     [ex_wake 5 1003000, ex_wake 5 2250000]"
  by code_simp


text \<open>
  The deadlines come from \<open>CLOCK_MONOTONIC\<close>, the time they are compared with from the clock that \<open>--clock\<close>
  selects: with \<open>CLOCK_REALTIME\<close>, which is years ahead of the other, the first difference already
  overflows.
\<close>

theorem minimal_clock_mismatch:
  assumes "mp_mode par = MODE_CYCLIC \<or> mp_mode par = MODE_SYS_ITIMER \<or>
      mp_mode par = MODE_CLOCK_NANOSLEEP \<and> mp_timermode par = TIMER_ABSTIME"
    and "0 < mp_interval par" and "mw_shutdown w = 0" and "0 \<le> mw_sigwait w"
    and "ts_normal clock" and "0 \<le> tv_sec clock" and "0 \<le> tv_nsec (mw_clock2 w)" and "tv_nsec (mw_clock2 w) < 1000000000"
    and "tv_sec clock + mp_interval par div 1000000 + 2148 < tv_sec (mw_clock2 w)" and "tv_sec (mw_clock2 w) < 2147483648"
  shows "mc_timerthread mclk cfg par tid clock (w # ws) stat 0 = McRunUndefined"
proof -
  let ?n = "mc_tsnorm (ts_add (mc_interval par) clock)"
  have i: "0 \<le> tv_nsec (ts_add (mc_interval par) clock)" "tv_nsec (ts_add (mc_interval par) clock) < 2000000000"
    "tv_sec (ts_add (mc_interval par) clock) = tv_sec clock + mp_interval par div 1000000"
  proof -
    have "tv_nsec (ts_add (mc_interval par) clock) = tv_nsec clock + mp_interval par mod 1000000 * 1000"
      by (simp add: ts_add_def mc_interval_def)
    then show "0 \<le> tv_nsec (ts_add (mc_interval par) clock)" "tv_nsec (ts_add (mc_interval par) clock) < 2000000000"
      using assms(5) pos_mod_bound [of 1000000 "mp_interval par"] pos_mod_sign [of 1000000 "mp_interval par"]
      unfolding ts_normal_def by linarith+
    show "tv_sec (ts_add (mc_interval par) clock) = tv_sec clock + mp_interval par div 1000000"
      by (simp add: ts_add_def mc_interval_def)
  qed
  have n: "ts_normal ?n" using i(1) by (rule mcts.norm_normal)
  have "tv_nsec (ts_add (mc_interval par) clock) div 1000000000 \<le> 1" using i(2) by linarith
  then have sec: "tv_sec ?n \<le> tv_sec clock + mp_interval par div 1000000 + 1" "0 \<le> tv_sec ?n"
    using mcts.norm_eq [OF i(1)] i(1,3) assms(2,6) by (simp_all add: pos_imp_zdiv_nonneg_iff)
  then have "mc_calcdiff (mw_clock2 w) ?n = None"
    using assms(7-10) n sg_calcdiff_near [of "mw_clock2 w" ?n] by (simp add: mc_calcdiff_eq ts_normal_def)
  moreover have "snd (mc_wait mclk par (mc_interval par) w ?n) = Some ?n"
    using assms(1,4) by (auto simp: mc_wait_def)
  ultimately show ?thesis
    using assms(3) by (simp add: mc_timerthread_def Let_def mc_others_def mc_iter_def split_beta)
qed

theorem minimal_clock_mismatch_witness:
  "mc_timerthread 1 \<lparr>mg_tracelimit = 0, mg_ftrace = 0, mg_oldtrace = 0\<rparr> ex_mpar 7 \<lparr>tv_sec = 5000, tv_nsec = 0\<rparr>
     [\<lparr>mw_shutdown = 0, mw_sigwait = 0, mw_clock1 = \<lparr>tv_sec = 0, tv_nsec = 0\<rparr>,
       mw_clock2 = \<lparr>tv_sec = 1700000000, tv_nsec = 0\<rparr>\<rparr>] ex_mstat 0 = McRunUndefined"
  by (rule minimal_clock_mismatch) (simp_all add: ex_mpar_def ts_normal_def)

text \<open>
  In the mode of \<open>setitimer\<close> the timer is armed for one second, whatever the interval, but the first deadline is
  one interval after the start: with an interval below a second the first latency is all of the rest of the
  second, and it stays the maximum of the test.
\<close>

theorem minimal_itimer_first_sample:
  assumes "mp_mode par = MODE_SYS_ITIMER" and "mp_bufmsk par = 0" and "0 < mp_interval par" and "mp_interval par < 1000000"
    and "ts_normal clock" and "mw_shutdown w = 0" and "0 \<le> mw_sigwait w"
    and "ts_ns clock + 1000000000 \<le> ts_ns (mw_clock2 w)"
    and "ts_near (mw_clock2 w) (mc_tsnorm (ts_add (mc_interval par) clock))"
  shows "McItimer 1 0 0 (mp_interval par) \<in> set (mc_arm cfg par (mc_interval par) (mc_tsnorm (ts_add (mc_interval par) clock))) \<and>
    (\<exists>t. mc_timerthread mclk cfg par tid clock [w] stat 0 \<in> {McRunning t, McLeft t} \<and>
       1000000 - mp_interval par \<le> ms_act (mt_stat t) \<and> 1000000 - mp_interval par \<le> ms_max (mt_stat t))"
proof -
  let ?iv = "mc_interval par"
  let ?n = "mc_tsnorm (ts_add ?iv clock)"
  let ?d = "calcdiff (mw_clock2 w) ?n"
  have iv: "?iv = \<lparr>tv_sec = 0, tv_nsec = mp_interval par * 1000\<rparr>"
    using assms(3,4) by (simp add: mc_interval_def)
  then have ns: "ts_ns ?n = ts_ns clock + 1000 * mp_interval par"
    by (simp add: mcts.norm_ns) (simp add: ts_ns_def)
  have le: "ts_ns ?n \<le> ts_ns (mw_clock2 w)" using ns assms(4,8) by linarith
  note d = differences_agree [OF assms(9) le]
  have acc: "\<bar>ts_ns (mw_clock2 w) - ts_ns ?n - 1000 * ?d\<bar> < 1000"
    using assms(9) by (intro calcdiff_exact_us) (auto simp: ts_near_def sec_ok_def)
  have big: "1000000 - mp_interval par \<le> ?d" using acc ns assms(8) by linarith
  have n1: "ts_normal ?n" using assms(9) by (simp add: ts_near_def)
  have "ts_normal (mc_tsnorm (ts_add ?iv ?n))"
    by (rule mcts.norm_add_normal [OF n1]) (simp add: iv assms(3) less_imp_le)
  then obtain n2 where cu: "mc_catch_up (mw_clock2 w) ?iv (mc_tsnorm (ts_add ?iv ?n)) = Some n2"
    using catch_up_total_cyc [of "mw_clock2 w" "mc_tsnorm (ts_add ?iv ?n)" ?iv] assms(3,9) iv
    by (auto simp: mc_catch_up_eq ts_near_def ts_ns_def)
  have wt: "mc_wait mclk par ?iv w ?n = ([McSigwait], Some ?n)" using assms(1,7) by (simp add: mc_wait_def)
  have mx: "?d \<le> ms_max (mc_minmax ?d s)" for s by (simp add: mcstat.mx_rec)
  have arm: "McItimer 1 0 0 (mp_interval par) \<in> set (mc_arm cfg par ?iv ?n)"
    using assms(1) by (simp add: mc_arm_def iv sdiv_nonneg assms(3) less_imp_le)
  moreover have "\<exists>t. mc_timerthread mclk cfg par tid clock [w] stat 0 \<in> {McRunning t, McLeft t} \<and>
       ?d \<le> ms_act (mt_stat t) \<and> ?d \<le> ms_max (mt_stat t)"
    using mx assms(6)
    by (simp add: mc_timerthread_def Let_def mc_others_def mc_iter_def wt d(1) cu mc_store_def assms(2) mc_epilogue_def
        split: prod.splits)
  ultimately show ?thesis using big by (meson order_trans)
qed

theorem minimal_itimer_first_sample_witness:
  "\<exists>t. mc_timerthread 1 \<lparr>mg_tracelimit = 0, mg_ftrace = 0, mg_oldtrace = 0\<rparr> (ex_mpar\<lparr>mp_mode := MODE_SYS_ITIMER\<rparr>) 7
       \<lparr>tv_sec = 5, tv_nsec = 0\<rparr>
       [\<lparr>mw_shutdown = 0, mw_sigwait = 0, mw_clock1 = \<lparr>tv_sec = 0, tv_nsec = 0\<rparr>, mw_clock2 = \<lparr>tv_sec = 6, tv_nsec = 2000\<rparr>\<rparr>]
       ex_mstat 0 \<in> {McRunning t, McLeft t} \<and> 999000 \<le> ms_max (mt_stat t)"
proof -
  let ?par = "ex_mpar\<lparr>mp_mode := MODE_SYS_ITIMER\<rparr>"
  let ?w = "\<lparr>mw_shutdown = 0, mw_sigwait = 0, mw_clock1 = \<lparr>tv_sec = 0, tv_nsec = 0\<rparr>, mw_clock2 = \<lparr>tv_sec = 6, tv_nsec = 2000\<rparr>\<rparr>"
  have n: "mc_tsnorm (ts_add (mc_interval ?par) \<lparr>tv_sec = 5, tv_nsec = 0\<rparr>) = \<lparr>tv_sec = 5, tv_nsec = 1000000\<rparr>"
    by (subst mc_tsnorm.simps) (simp add: ts_add_def mc_interval_def ex_mpar_def)
  have "ts_near (mw_clock2 ?w) (mc_tsnorm (ts_add (mc_interval ?par) \<lparr>tv_sec = 5, tv_nsec = 0\<rparr>))"
    unfolding n by (simp add: ts_near_def ts_normal_def)
  from minimal_itimer_first_sample [of ?par "\<lparr>tv_sec = 5, tv_nsec = 0\<rparr>" ?w, OF _ _ _ _ _ _ _ _ this,
      of "\<lparr>mg_tracelimit = 0, mg_ftrace = 0, mg_oldtrace = 0\<rparr>" 1 7 ex_mstat]
  show ?thesis by (simp add: ex_mpar_def ts_normal_def ts_ns_def) blast
qed

section \<open>The display lags\<close>

text \<open>The thread records a sequence of samples.\<close>

fun mc_records :: "mc_param \<Rightarrow> int list \<Rightarrow> mc_stat \<Rightarrow> mc_stat option" where
  "mc_records par [] s = Some s"
| "mc_records par (d # ds) s =
     (case mc_store par d (mc_minmax d s) of None \<Rightarrow> None | Some s1 \<Rightarrow> mc_records par ds s1)"

lemma mc_store_ring:
  assumes "mp_bufmsk par = VALBUF_SIZE - 1" and "int (length (ms_values s)) = VALBUF_SIZE"
    and "ms_cycles s = int k" and "k < 16384"
  shows "\<exists>s1. mc_store par d (mc_minmax d s) = Some s1 \<and> ms_values s1 = ring_put (int k + 1) d (ms_values s) \<and>
    ms_cycles s1 = int (Suc k) \<and> ms_cyclesread s1 = ms_cyclesread s"
proof -
  have o: "ms_cycles (mc_minmax d s) = ms_cycles s" "ms_values (mc_minmax d s) = ms_values s"
    "ms_cyclesread (mc_minmax d s) = ms_cyclesread s"
    by (simp_all add: mc_minmax_def Let_def)
  have u: "u64 (int k + 1) = int k + 1" using assms(4) by (simp add: c_int)
  have "0 \<le> (int k + 1) mod VALBUF_SIZE" "(int k + 1) mod VALBUF_SIZE < int (length (ms_values s))"
    using assms(2) by simp_all
  then have "c_write (ms_values s) ((int k + 1) AND (VALBUF_SIZE - 1)) d = Some (ring_put (int k + 1) d (ms_values s))"
    unfolding ring_put_def ring_index by (rule c_write_in)
  then show ?thesis
    using assms(1,3) u by (simp add: mc_store_def o Let_def)
qed

lemma mc_records_ring:
  assumes "mp_bufmsk par = VALBUF_SIZE - 1" and "int (length (ms_values s)) = VALBUF_SIZE"
    and "ms_cycles s = int k" and "k + length ds \<le> 16384"
  shows "\<exists>s1. mc_records par ds s = Some s1 \<and> ms_values s1 = valring.put_all (int k + 1) ds (ms_values s) \<and>
    ms_cycles s1 = int (k + length ds) \<and> ms_cyclesread s1 = ms_cyclesread s"
  using assms(2-)
proof (induction ds arbitrary: s k)
  case Nil
  then show ?case by simp
next
  case (Cons d ds)
  obtain s1 where s1: "mc_store par d (mc_minmax d s) = Some s1" "ms_values s1 = ring_put (int k + 1) d (ms_values s)"
    "ms_cycles s1 = int (Suc k)" "ms_cyclesread s1 = ms_cyclesread s"
    using mc_store_ring [OF assms(1) Cons.prems(1,2)] Cons.prems(3) by auto
  have l: "int (length (ms_values s1)) = VALBUF_SIZE" using s1(2) Cons.prems(1) by (simp add: ring_put_def)
  from Cons.IH [OF l s1(3)] Cons.prems(3) s1 show ?case by (auto simp: add.commute)
qed

lemma mc_drain_lines:
  assumes "mp_bufmsk par = VALBUF_SIZE - 1" and "int (length (ms_values s)) = VALBUF_SIZE"
    and "ms_cyclesread s = int r" and "ms_cycles s = int (r + n)" and "r + n \<le> 16384"
  shows "mc_drain par index s =
    Some (map (\<lambda>i. McSample index (int i) (ring_get (int i) (ms_values s))) [r..<r + n], s\<lparr>ms_cyclesread := int (r + n)\<rparr>)"
  using assms(2-)
proof (induction n arbitrary: s r)
  case 0
  then show ?case by (subst mc_drain.simps) simp
next
  case (Suc n)
  have u: "u64 (int r + 1) = int (Suc r)" using Suc.prems by (simp add: c_int)
  have "0 \<le> int r mod VALBUF_SIZE" "int r mod VALBUF_SIZE < int (length (ms_values s))"
    using Suc.prems(1) by simp_all
  then have rd: "c_read (ms_values s) (int r AND (VALBUF_SIZE - 1)) = Some (ring_get (int r) (ms_values s))"
    unfolding ring_get_def ring_index by (rule c_read_in)
  have ne: "u64 (ms_cycles s - ms_cyclesread s) \<noteq> 0" using Suc.prems by (simp add: c_int)
  have "mc_drain par index (s\<lparr>ms_cyclesread := int (Suc r)\<rparr>) =
      Some (map (\<lambda>i. McSample index (int i) (ring_get (int i) (ms_values s))) [Suc r..<Suc r + n],
        s\<lparr>ms_cyclesread := int (Suc r + n)\<rparr>)"
    using Suc.IH [of "s\<lparr>ms_cyclesread := int (Suc r)\<rparr>" "Suc r"] Suc.prems by simp
  then show ?case
    using ne u rd Suc.prems(2) assms(1) by (subst mc_drain.simps) (simp add: upt_conv_Cons del: upt_Suc)
qed

text \<open>
  With \<open>--verbose\<close> the display is one sample behind, as the thread counts the cycle before it stores the
  sample: the line of the first cycle shows the zero of the cleared buffer, each later one the
  sample of the cycle before, and the last sample is not shown.
\<close>

theorem minimal_verbose_lags:
  assumes "mp_bufmsk par = VALBUF_SIZE - 1" and "ms_values s = replicate (nat VALBUF_SIZE) 0"
    and "ms_cycles s = 0" and "ms_cyclesread s = 0" and "length ds < 16384"
  shows "\<exists>s1 s2. mc_records par ds s = Some s1 \<and>
    mc_print_stat par index 1 quiet s1 =
      Some (map (\<lambda>i. McSample index (int i) ((0 # ds) ! i)) [0..<length ds], s2)"
proof -
  let ?z = "replicate (nat VALBUF_SIZE) (0 :: int)"
  have z: "int (length ?z) = VALBUF_SIZE" by simp
  obtain s1 where s1: "mc_records par ds s = Some s1" "ms_values s1 = valring.put_all 1 ds ?z"
    "ms_cycles s1 = int (length ds)" "ms_cyclesread s1 = 0"
    using mc_records_ring [OF assms(1), of s 0 ds] z assms(2-5) by auto
  have wf: "int (length (ms_values s1)) = VALBUF_SIZE"
    unfolding s1(2) using z by (rule valring.put_all_wf) simp
  have get: "ring_get (int i) (ms_values s1) = (0 # ds) ! i" if "i < length ds" for i
  proof (cases i)
    case 0
    have "ring_get 0 (valring.put_all 1 ds ?z) = ring_get 0 ?z"
      using z assms(5) by (intro valring.put_all_other) simp_all
    also have "\<dots> = 0" by (simp add: ring_get_def)
    finally show ?thesis using 0 s1(2) by simp
  next
    case (Suc j)
    have "ring_get (1 + int j) (valring.put_all 1 ds ?z) = ds ! j"
      using that Suc assms(5) z by (intro valring.put_all_get) simp_all
    then show ?thesis using Suc s1(2) by (simp add: add.commute)
  qed
  have "mc_drain par index s1 = Some (map (\<lambda>i. McSample index (int i) (ring_get (int i) (ms_values s1))) [0..<0 + length ds],
      s1\<lparr>ms_cyclesread := int (0 + length ds)\<rparr>)"
    using s1(3,4) assms(5) by (intro mc_drain_lines [OF assms(1) wf]) simp_all
  then have "mc_print_stat par index 1 quiet s1 = Some (map (\<lambda>i. McSample index (int i) ((0 # ds) ! i)) [0..<length ds],
      s1\<lparr>ms_cyclesread := int (length ds)\<rparr>)"
    using get by (simp add: mc_print_stat_def cong: map_cong)
  then show ?thesis using s1(1) by blast
qed

theorem minimal_verbose_lags_witness:
  "\<exists>s1 s2. mc_records (ex_mpar\<lparr>mp_bufmsk := VALBUF_SIZE - 1\<rparr>) [12, 9, 31]
       (ex_mstat\<lparr>ms_values := replicate (nat VALBUF_SIZE) 0\<rparr>) = Some s1 \<and>
     mc_print_stat (ex_mpar\<lparr>mp_bufmsk := VALBUF_SIZE - 1\<rparr>) 0 1 0 s1 =
       Some ([McSample 0 0 0, McSample 0 1 12, McSample 0 2 9], s2)"
proof -
  have s: "ms_values (ex_mstat\<lparr>ms_values := replicate (nat VALBUF_SIZE) 0\<rparr>) = replicate (nat VALBUF_SIZE) 0"
    "ms_cycles (ex_mstat\<lparr>ms_values := replicate (nat VALBUF_SIZE) 0\<rparr>) = 0"
    "ms_cyclesread (ex_mstat\<lparr>ms_values := replicate (nat VALBUF_SIZE) 0\<rparr>) = 0"
    by (simp_all add: ex_mstat_def mc_zero_stat_def del: replicate.simps)
  have p: "mp_bufmsk (ex_mpar\<lparr>mp_bufmsk := VALBUF_SIZE - 1\<rparr>) = VALBUF_SIZE - 1" by simp
  have l: "map (\<lambda>i. McSample 0 (int i) ((0 # [12, 9, 31]) ! i)) [0..<length [12, 9, 31 :: int]] =
      [McSample 0 0 0, McSample 0 1 12, McSample 0 2 9]"
    by (simp add: upt_rec)
  have "length [12, 9, 31 :: int] < 16384" by simp
  from minimal_verbose_lags [OF p s this, of 0 0, unfolded l] show ?thesis .
qed

section \<open>Options and creation\<close>

lemma mc_option_modes:
  "mo_use_nanosleep p \<in> {0, 1} \<and> mo_use_system p \<in> {0, 2} \<Longrightarrow>
     mo_use_nanosleep (fold mc_option opts p) \<in> {0, 1} \<and> mo_use_system (fold mc_option opts p) \<in> {0, 2}"
proof (induction opts arbitrary: p)
  case Nil
  then show ?case by simp
next
  case (Cons opt opts)
  have "mo_use_nanosleep (mc_option opt p) \<in> {0, 1} \<and> mo_use_system (mc_option opt p) \<in> {0, 2}"
    using Cons.prems by (cases opt) (simp_all add: mc_option_def)
  from Cons.IH [OF this] show ?case by simp
qed

text \<open>
  Options that are accepted give one of the four modes, a priority from 0 to 99 and at least one thread. The
  clock may be one past the last: then no thread is created.
\<close>

theorem minimal_accepted_options:
  assumes "mc_options opts = Some p"
  shows "mc_mode p \<in> {MODE_CYCLIC, MODE_CLOCK_NANOSLEEP, MODE_SYS_ITIMER, MODE_SYS_NANOSLEEP} \<and>
    0 \<le> mo_priority p \<and> mo_priority p \<le> 99 \<and> 1 \<le> mo_threads p \<and>
    (mo_clocksel p \<in> {0, 1} \<or>
     mo_clocksel p = 2 \<and> mc_create p [mclk, rclk] True (mo_priority p, mo_interval p) = Inl McNoClock)"
proof -
  have p: "p = fold mc_option opts mc_defaults"
    and ok: "0 \<le> mo_clocksel p" "mo_clocksel p \<le> 2" "0 \<le> mo_priority p" "mo_priority p \<le> 99" "1 \<le> mo_threads p"
    using assms by (simp_all add: mc_options_def Let_def not_less split: if_splits)
  have m: "mo_use_nanosleep p \<in> {0, 1}" "mo_use_system p \<in> {0, 2}"
    using mc_option_modes [of mc_defaults opts] by (simp_all add: p mc_defaults_def)
  have "mo_clocksel p = 0 \<or> mo_clocksel p = 1 \<or> mo_clocksel p = 2" using ok(1,2) by linarith
  then show ?thesis
    using m ok(3-5) by (auto simp: mc_mode_def mc_create_def c_read_def)
qed

theorem minimal_accepted_options_witness:
  "\<exists>p. mc_options [McN, McS, McP ''80'', McC ''2''] = Some p \<and> mc_mode p = MODE_SYS_NANOSLEEP \<and>
     mc_create p [1, 0] True (80, 1000) = Inl McNoClock"
proof -
  let ?p = "fold mc_option [McN, McS, McP ''80'', McC ''2''] mc_defaults"
  have a: "atoi ''80'' = 80" "atoi ''2'' = 2" by code_simp+
  have o: "mc_options [McN, McS, McP ''80'', McC ''2''] = Some ?p"
    by (simp add: mc_options_def mc_option_def mc_defaults_def a Let_def)
  have "mo_clocksel ?p = 2" "mc_mode ?p = 3" "mo_priority ?p = 80" "mo_interval ?p = 1000"
    by (simp_all add: mc_option_def mc_defaults_def mc_mode_def a)
  then show ?thesis using minimal_accepted_options [OF o, of 1 0] o by (intro exI [of _ ?p]) simp
qed

lemma s32_add: "s32 (s32 (x + y) + z) = s32 (x + (y + z))"
  by (metis add.assoc signed_take_bit_add signed_take_bit_signed_take_bit min.idem)

lemma mc_create_all_nth:
  assumes "mc_create_all p clocks oks (prio, s32 (iv + d)) = (ps, e)" and "0 \<le> prio" and "i < length ps"
  shows "mp_prio (fst (ps ! i)) = max 0 (prio - int i) \<and>
    mp_interval (fst (ps ! i)) = u64 (s32 (iv + (d + int i * mo_distance p))) \<and>
    mp_mode (fst (ps ! i)) = mc_mode p \<and> c_read clocks (mo_clocksel p) = Some (mp_clock (fst (ps ! i))) \<and>
    ms_threadstarted (snd (ps ! i)) = 1 \<and> ms_min (snd (ps ! i)) = 1000000 \<and> ms_max (snd (ps ! i)) = -1000000"
  using assms
proof (induction oks arbitrary: prio d ps i)
  case Nil
  then show ?case by simp
next
  case (Cons ok oks)
  from Cons.prems(1,3) obtain q prio1 iv1 where c: "mc_create p clocks ok (prio, s32 (iv + d)) = Inr (q, prio1, iv1)"
    by (auto split: sum.splits)
  then obtain rest where ps: "mc_create_all p clocks oks (prio1, iv1) = (rest, e)" "ps = q # rest"
    using Cons.prems(1) by (auto split: prod.splits)
  have q: "prio1 = max 0 (prio - 1)" "iv1 = s32 (iv + (d + mo_distance p))" "mp_prio (fst q) = prio"
    "mp_interval (fst q) = u64 (s32 (iv + d))" "mp_mode (fst q) = mc_mode p"
    "c_read clocks (mo_clocksel p) = Some (mp_clock (fst q))" "ms_threadstarted (snd q) = 1"
    "ms_min (snd q) = 1000000" "ms_max (snd q) = -1000000"
    using c Cons.prems(2) by (auto simp: mc_create_def Let_def s32_add split: if_splits option.splits)
  show ?case
  proof (cases i)
    case 0
    then show ?thesis using q ps(2) Cons.prems(2) by simp
  next
    case (Suc j)
    have "max 0 (max 0 (prio - 1) - int j) = max 0 (prio - int (Suc j))" by linarith
    then show ?thesis
      using Cons.IH [of prio1 "d + mo_distance p" rest j] q(1,2) ps Suc Cons.prems(3)
      by (simp add: algebra_simps)
  qed
qed

text \<open>
  The threads get the priority asked for, one less each until it is 0, and intervals that grow by the
  distance; each runs in the selected mode on the selected clock, with cleared statistics.
\<close>

theorem minimal_created_threads:
  assumes "mc_create_all p clocks oks (prio, iv) = (ps, e)" and "0 \<le> prio" and "s32 iv = iv" and "i < length ps"
  shows "mp_prio (fst (ps ! i)) = max 0 (prio - int i) \<and>
    mp_interval (fst (ps ! i)) = u64 (s32 (iv + int i * mo_distance p)) \<and>
    mp_mode (fst (ps ! i)) = mc_mode p \<and> c_read clocks (mo_clocksel p) = Some (mp_clock (fst (ps ! i))) \<and>
    ms_threadstarted (snd (ps ! i)) = 1 \<and> ms_min (snd (ps ! i)) = 1000000 \<and> ms_max (snd (ps ! i)) = -1000000"
  using mc_create_all_nth [of p clocks oks prio iv 0 ps e i] assms by simp

definition ex_mopts :: mc_opts where
  "ex_mopts = mc_defaults\<lparr>mo_threads := 3, mo_priority := 1\<rparr>"

theorem minimal_created_threads_witness:
  "\<exists>ps e. mc_create_all ex_mopts [1, 0] [True, True, True] (1, 1000) = (ps, e) \<and> length ps = 3 \<and>
     mp_prio (fst (ps ! 2)) = 0 \<and> mp_interval (fst (ps ! 2)) = 2000"
proof -
  obtain ps e where r: "mc_create_all ex_mopts [1, 0] [True, True, True] (1, 1000) = (ps, e)"
    by (cases "mc_create_all ex_mopts [1, 0] [True, True, True] (1, 1000)") blast
  then have l: "length ps = 3"
    by (auto simp: ex_mopts_def mc_defaults_def mc_create_def Let_def)
  have "s32 1000 = (1000 :: int)" "s32 2000 = (2000 :: int)" "u64 2000 = (2000 :: int)" by simp_all
  with minimal_created_threads [OF r, of 2] l r show ?thesis
    by (simp add: ex_mopts_def mc_defaults_def)
qed

lemma mc_stop_all_set: "x \<in> set (mc_stop_all quiet ss) \<longleftrightarrow> (\<exists>i < length ss. x \<in> set (mc_stop quiet (int i) (ss ! i)))"
proof -
  have "set (enumerate 0 ss) = (\<lambda>i. (i, ss ! i)) ` {..<length ss}"
    by (auto simp: in_set_enumerate_eq)
  then show ?thesis by (auto simp: mc_stop_all_def)
qed

lemma mc_stop_all_mem:
  "McKill k \<in> set (mc_stop_all quiet ss) \<longleftrightarrow> (\<exists>i < length ss. k = int i \<and> 0 < ms_threadstarted (ss ! i))"
  "McJoin k \<in> set (mc_stop_all quiet ss) \<longleftrightarrow> (\<exists>i < length ss. k = int i \<and> ms_threadstarted (ss ! i) \<noteq> 0)"
  by (auto simp: mc_stop_all_set mc_stop_def split: if_splits)

text \<open>
  When the buffer of a thread cannot be allocated, the threads that run are stopped and joined, and no other
  entry is touched: unlike in cyclictest the blocks are there for all threads.
\<close>

theorem minimal_failed_start_stops_created:
  assumes "mc_create_all p clocks oks (prio, iv) = (ps, Some McNoMemory)" and "0 \<le> prio" and "s32 iv = iv"
    and "length ps < nat (mo_threads p)"
  shows "fst (mc_end False p True True ps) = -1 \<and>
    (McKill k \<in> set (snd (mc_end False p True True ps)) \<longleftrightarrow> 0 \<le> k \<and> k < int (length ps)) \<and>
    (McJoin k \<in> set (snd (mc_end False p True True ps)) \<longleftrightarrow> 0 \<le> k \<and> k < int (length ps))"
proof -
  have st: "ms_threadstarted (mc_entries p ps ! i) = (if i < length ps then 1 else 0)" if "i < length (mc_entries p ps)" for i
    using mc_create_all_nth [of p clocks oks prio iv 0 ps _ i] assms(1-3) that
    by (auto simp: mc_entries_def nth_append mc_zero_stat_def)
  have l: "length (mc_entries p ps) = nat (mo_threads p)" using assms(4) by (simp add: mc_entries_def)
  have run: "(\<exists>i < length (mc_entries p ps). k = int i \<and> P (ms_threadstarted (mc_entries p ps ! i))) \<longleftrightarrow>
      0 \<le> k \<and> k < int (length ps)" if "P 1" "\<not> P 0" for P
    using st l assms(4) that by (auto simp: zero_le_imp_eq_int split: if_splits)
      (metis (full_types) int_nat_eq nat_less_iff order_less_trans zero_le_imp_eq_int of_nat_less_iff)
  show ?thesis
    using run [of "\<lambda>x. 0 < x"] run [of "\<lambda>x. x \<noteq> 0"] by (simp add: mc_end_def mc_stop_all_mem)
qed

theorem minimal_failed_start_stops_created_witness:
  "\<exists>ps. mc_create_all (ex_mopts\<lparr>mo_verbose := 1\<rparr>) [1, 0] [True, False, True] (1, 1000) = (ps, Some McNoMemory) \<and>
     McKill 0 \<in> set (snd (mc_end False (ex_mopts\<lparr>mo_verbose := 1\<rparr>) True True ps)) \<and>
     McJoin 1 \<notin> set (snd (mc_end False (ex_mopts\<lparr>mo_verbose := 1\<rparr>) True True ps))"
proof -
  let ?p = "ex_mopts\<lparr>mo_verbose := 1\<rparr>"
  have "\<exists>ps. mc_create_all ?p [1, 0] [True, False, True] (1, 1000) = (ps, Some McNoMemory) \<and> length ps = 1"
    by (simp add: mc_create_def ex_mopts_def mc_defaults_def Let_def)
  then obtain ps where r: "mc_create_all ?p [1, 0] [True, False, True] (1, 1000) = (ps, Some McNoMemory)" "length ps = 1"
    by blast
  have "s32 1000 = (1000 :: int)" by simp
  moreover have "length ps < nat (mo_threads ?p)" using r(2) by (simp add: ex_mopts_def mc_defaults_def)
  ultimately show ?thesis
    using minimal_failed_start_stops_created [OF r(1)] r by (intro exI [of _ ps]) simp
qed

end
