(* ===== verification/CyclicControl.thy ===== *)
theory CyclicControl
  imports CyclicMain CyclicTrace
begin

text \<open>
  How cyclictest is watched and stopped (\<^verbatim>\<open>src/cyclictest/cyclictest.c\<close>): the signal handler \<open>sighand\<close>, the thread
  that serves the status fifo, the header of the display, and the display loop with the condition variable of
  \<open>--refresh_on_max\<close> as a step relation of \<open>main\<close>, the measuring threads and the user's signals.
\<close>

section \<open>Files and modes\<close>

abbreviation (input) MAX_PATH :: nat where "MAX_PATH \<equiv> 256"

text \<open>\<open>None\<close> when the path does not fit its buffer.\<close>

definition trace_file_exists :: "(string \<Rightarrow> bool) \<Rightarrow> string \<Rightarrow> string \<Rightarrow> int option" where
  "trace_file_exists stat_ok tracing_prefix name =
     (if length (tracing_prefix @ name) < MAX_PATH
      then Some (if stat_ok (tracing_prefix @ name) then 1 else 0) else None)"

definition cyclic_mode :: "int \<Rightarrow> int \<Rightarrow> int" where
  "cyclic_mode use_nanosleep use_system = use_nanosleep + use_system"

section \<open>The start of main\<close>

text \<open>
  What \<open>main\<close> does between the options and the threads, and where it goes when a step fails: out of the program, or
  to the clean-up at the label \<open>out\<close>. Only \<open>mlockall\<close> leads there; the warnings do not stop it.
\<close>

datatype cs_call = CcPrivs | CcMaxCpus | CcMlockall | CcLatencyTarget | CcUnknownKernel | CcSetupTracer | CcNoHighRes

datatype cs_end = CcExit int | CcGotoOut | CcGo

definition cyclic_start ::
  "options \<Rightarrow> int \<Rightarrow> int \<Rightarrow> int \<Rightarrow> int \<Rightarrow> kernel_version \<Rightarrow> int \<Rightarrow> cs_call list \<times> cs_end" where
  "cyclic_start p privs numa numa_available mlock kv timer =
     (let c1 = [CcPrivs]; c2 = (if o_verbose (po_ou p) \<noteq> 0 then [CcMaxCpus] else []);
          c3 = (if o_lockall (po_sc p) \<noteq> 0 then [CcMlockall] else [])
      in if privs \<noteq> 0 then (c1, CcExit 1)
         else if \<not> numa_on_and_available numa numa_available then (c1 @ c2, CcExit 1)
         else if o_lockall (po_sc p) \<noteq> 0 \<and> mlock = - 1 then (c1 @ c2 @ c3, CcGotoOut)
         else (c1 @ c2 @ c3 @ [CcLatencyTarget] @ (if kv = KV_NOT_SUPPORTED then [CcUnknownKernel] else []) @
               [CcSetupTracer] @ (if timer \<noteq> 0 then [CcNoHighRes] else []), CcGo))"

text \<open>
  The exits of \<open>main\<close>: the status, and the clean-up unless the program ends at once. A failing allocation of the two
  pointer arrays goes to the clean-up too, like a failing \<open>mlockall\<close>, and that of a sample buffer after the threads
  have been stopped; other failures of the creation are fatal. The variable \<open>ret\<close> is \<open>- 1\<close> until the display has
  ended. \<open>kernelversion\<close> is still zero when the lock fails.
\<close>

datatype main_end = MainEarly int | MainOut "exit_op list" int | MainUndefined

definition cyclic_main_ops ::
  "options \<Rightarrow> cs_end \<Rightarrow> bool \<Rightarrow> create_error option \<Rightarrow> int \<Rightarrow> int \<Rightarrow> int \<Rightarrow> kernel_version \<Rightarrow> main_end" where
  "cyclic_main_ops p start arrays created tracemark_fd trace_fd latency_fd kv =
     (case start of
        CcExit c \<Rightarrow> MainEarly c
      | CcGotoOut \<Rightarrow> MainOut (final_cleanup (po_tr p) (po_sc p) (- 1) (- 1) (- 1) KV_NOT_SUPPORTED) (- 1)
      | CcGo \<Rightarrow>
          (let out = MainOut (final_cleanup (po_tr p) (po_sc p) tracemark_fd trace_fd latency_fd kv)
           in if \<not> arrays then out (- 1)
              else case created of
                     None \<Rightarrow> out 0
                   | Some (CreateFatal msg) \<Rightarrow> MainEarly 1
                   | Some (GotoOutall s) \<Rightarrow> out (- 1)
                   | Some CreateUndefined \<Rightarrow> MainUndefined))"

lemma option_op: "x \<in> set (if c then [y] else []) \<longleftrightarrow> c \<and> x = y"
  by auto

lemma cleanup_members:
  "TracingStop \<in> set (final_cleanup tr sc tm tf lat kv) \<longleftrightarrow> o_tracelimit tr \<noteq> 0 \<and> o_notrace tr = 0"
  "Munlockall \<in> set (final_cleanup tr sc tm tf lat kv) \<longleftrightarrow> o_lockall sc \<noteq> 0"
  "CloseLatencyTarget \<in> set (final_cleanup tr sc tm tf lat kv) \<longleftrightarrow> 0 \<le> lat"
  unfolding final_cleanup_def set_append Un_iff option_op by simp_all

lemma start_go:
  assumes "snd (cyclic_start p privs numa navail mlock kv timer) = CcGo"
  shows "{CcLatencyTarget, CcSetupTracer} \<subseteq> set (fst (cyclic_start p privs numa navail mlock kv timer))"
proof -
  let ?st = "cyclic_start p privs numa navail mlock kv timer"
  consider "privs \<noteq> 0" | "privs = 0" "\<not> numa_on_and_available numa navail"
    | "privs = 0" "numa_on_and_available numa navail" "o_lockall (po_sc p) \<noteq> 0 \<and> mlock = - 1"
    | "privs = 0" "numa_on_and_available numa navail" "\<not> (o_lockall (po_sc p) \<noteq> 0 \<and> mlock = - 1)"
    by blast
  then show ?thesis
  proof cases
    case 1
    then have "snd ?st = CcExit 1" unfolding cyclic_start_def Let_def by (simp only: if_P simp_thms snd_conv)
    then show ?thesis using assms by simp
  next
    case 2
    then have "snd ?st = CcExit 1"
      unfolding cyclic_start_def Let_def by (simp only: if_P if_not_P not_True_eq_False not_False_eq_True if_True if_False snd_conv simp_thms)
    then show ?thesis using assms by simp
  next
    case 3
    then have "snd ?st = CcGotoOut"
      unfolding cyclic_start_def Let_def by (simp only: not_True_eq_False not_False_eq_True if_True if_False snd_conv simp_thms)
    then show ?thesis using assms by simp
  next
    case 4
    then have "fst ?st = [CcPrivs] @ (if o_verbose (po_ou p) \<noteq> 0 then [CcMaxCpus] else []) @
        (if o_lockall (po_sc p) \<noteq> 0 then [CcMlockall] else []) @ [CcLatencyTarget] @
        (if kv = KV_NOT_SUPPORTED then [CcUnknownKernel] else []) @ [CcSetupTracer] @
        (if timer \<noteq> 0 then [CcNoHighRes] else [])"
      unfolding cyclic_start_def Let_def
      by (simp only: not_True_eq_False not_False_eq_True if_True if_False fst_conv simp_thms append_assoc)
    then show ?thesis by simp
  qed
qed

text \<open>
  Every end of \<open>main\<close> that reaches the clean-up stops the tracer and unlocks the memory exactly when the options asked
  for it, whatever failed, and closes the latency target only if it was opened; the status is 0 only when the threads
  were created. A fatal error in the creation is the exception: the program ends with the tracer on.
\<close>

theorem every_end_cleans_up:
  assumes "cyclic_start p privs numa navail mlock kv timer = (ops, st)"
    "cyclic_main_ops p st arrays created tm tr lat kv = MainOut cl c"
  shows "privs = 0 \<and>
    (TracingStop \<in> set cl \<longleftrightarrow> o_tracelimit (po_tr p) \<noteq> 0 \<and> o_notrace (po_tr p) = 0) \<and>
    (Munlockall \<in> set cl \<longleftrightarrow> o_lockall (po_sc p) \<noteq> 0) \<and>
    (CloseLatencyTarget \<in> set cl \<longrightarrow> CcLatencyTarget \<in> set ops) \<and>
    (c = 0 \<longrightarrow> CcSetupTracer \<in> set ops \<and> arrays \<and> created = None) \<and> (c = 0 \<or> c = - 1)"
proof -
  have early: "privs \<noteq> 0 \<Longrightarrow> st = CcExit 1" using assms(1) by (simp add: cyclic_start_def)
  show ?thesis
  proof (cases st)
    case (CcExit e)
    then show ?thesis using assms(2) by (simp add: cyclic_main_ops_def)
  next
    case CcGotoOut
    then have "privs = 0" "cl = final_cleanup (po_tr p) (po_sc p) (- 1) (- 1) (- 1) KV_NOT_SUPPORTED" "c = - 1"
      using early assms(2) by (auto simp: cyclic_main_ops_def)
    then show ?thesis by (simp add: cleanup_members)
  next
    case CcGo
    then have r: "privs = 0" "cl = final_cleanup (po_tr p) (po_sc p) tm tr lat kv"
      "c = (if arrays \<and> created = None then 0 else - 1)"
      using early assms(2) by (auto simp: cyclic_main_ops_def Let_def split: if_splits option.splits create_error.splits)
    have "{CcLatencyTarget, CcSetupTracer} \<subseteq> set ops"
      using start_go [of p privs numa navail mlock kv timer] assms(1) CcGo by simp
    then show ?thesis using r by (auto simp: cleanup_members)
  qed
qed

theorem every_end_cleans_up_witness:
  "Munlockall \<notin> set (final_cleanup (po_tr default_options) (po_sc default_options) 3 4 5 KV_30)"
proof -
  have "cyclic_start default_options 0 0 0 0 KV_30 0 = ([CcPrivs, CcLatencyTarget, CcSetupTracer], CcGo)"
    by (simp add: cyclic_start_def default_options_def numa_on_and_available_def)
  moreover have "cyclic_main_ops default_options CcGo True None 3 4 5 KV_30 =
      MainOut (final_cleanup (po_tr default_options) (po_sc default_options) 3 4 5 KV_30) 0"
    by (simp add: cyclic_main_ops_def)
  ultimately show ?thesis
    using every_end_cleans_up [of default_options 0 0 0 0 KV_30 0 _ _ True None 3 4 5] by (fastforce simp: default_options_def)
qed

section \<open>The signal handler\<close>

abbreviation (input) SIGUSR1 :: int where "SIGUSR1 \<equiv> 10"

datatype sig_op = StatusLines "stat_line list" | SetShutdown | SignalCond | StopTracing

text \<open>
  The status report uses \<open>print_stat\<close> with the verbose and the quiet argument zero, for all threads.
\<close>

definition sighand ::
  "int \<Rightarrow> int \<Rightarrow> int \<Rightarrow> int \<Rightarrow> int \<Rightarrow> (thread_param \<times> thread_stat) list \<Rightarrow> sig_op list option" where
  "sighand reduction refresh_on_max tracelimit notrace sig ps =
     (if sig = SIGUSR1
      then map_option (\<lambda>(out, _). [StatusLines out]) (print_stats reduction 0 0 0 ps)
      else Some ([SetShutdown] @ (if refresh_on_max \<noteq> 0 then [SignalCond] else []) @
                 (if tracelimit \<noteq> 0 \<and> notrace = 0 then [StopTracing] else [])))"

section \<open>The status fifo\<close>

datatype fifo_op = Unlink | Mkfifo | FifoError | OpenFifo | WriteStatus "stat_line list" | CloseFifo | FifoSleep int

text \<open>
  What a round finds: the shutdown flag, whether a reader has opened the fifo, and the threads' blocks at the moment.
\<close>

record fifo_in =
  fi_shutdown :: bool
  fi_open :: int
  fi_stats :: "(thread_param \<times> thread_stat) list"

fun fifo_loop :: "int \<Rightarrow> fifo_in list \<Rightarrow> fifo_op list \<times> bool" where
  "fifo_loop reduction [] = ([], False)"
| "fifo_loop reduction (i # is) =
     (if fi_shutdown i then ([], True)
      else case fifo_loop reduction is of
             (ops, e) \<Rightarrow>
               if fi_open i < 0 then (OpenFifo # FifoSleep 500000 # ops, e)
               else (OpenFifo # (case print_stats reduction 0 0 0 (fi_stats i) of
                                   None \<Rightarrow> [] | Some (out, _) \<Rightarrow> [WriteStatus out]) @
                     [CloseFifo, FifoSleep 250] @ ops, e))"

text \<open>The operations and whether the thread has ended.\<close>

definition fifothread :: "int \<Rightarrow> int \<Rightarrow> int \<Rightarrow> fifo_in list \<Rightarrow> fifo_op list \<times> bool" where
  "fifothread reduction use_fifo mkfifo_ret is =
     (if use_fifo = 0 then ([], True)
      else if mkfifo_ret \<noteq> 0 then ([Unlink, Mkfifo, FifoError], True)
      else case fifo_loop reduction is of
             (ops, e) \<Rightarrow> (Unlink # Mkfifo # ops @ (if e then [Unlink] else []), e))"

section \<open>The header of the display\<close>

text \<open>
  The policy of the threads, with \<open>other\<close> behind a slash when some thread has it; the variables are static, so the
  text is that of the first round.
\<close>

definition policy_header :: "int \<Rightarrow> int \<Rightarrow> string \<times> string \<times> string" where
  "policy_header policy force_sched_other =
     (if force_sched_other \<noteq> 0 then (policyname policy, ''/'', policyname SCHED_OTHER)
      else (policyname policy, [], []))"

section \<open>The display loop and its condition variable\<close>

datatype disp_pc =
    Top         \<comment> \<open>\<open>while (!shutdown)\<close>\<close>
  | Shown       \<comment> \<open>the lines are printed and the finished threads counted; \<open>usleep\<close>\<close>
  | Deciding    \<comment> \<open>the test is behind it, the wait is next\<close>
  | Waiting     \<comment> \<open>in \<open>pthread_cond_wait\<close>\<close>
  | Left        \<comment> \<open>behind the loop\<close>

text \<open>
  The threads are those still measuring and those that have made their cycles; a thread that sees the flag leaves
  its loop.
\<close>

record disp =
  d_pc :: disp_pc
  d_shutdown :: bool
  d_allstopped :: bool
  d_running :: nat
  d_finished :: nat

definition wake_main :: "disp \<Rightarrow> disp" where
  "wake_main s = (if d_pc s = Waiting then s\<lparr>d_pc := Top\<rparr> else s)"

text \<open>What \<open>main\<close> does next; nothing while it waits, and nothing more once it has left.\<close>

fun disp_main :: "bool \<Rightarrow> disp \<Rightarrow> disp" where
  "disp_main refresh s =
     (case d_pc s of
        Top \<Rightarrow> if d_shutdown s then s\<lparr>d_pc := Left\<rparr>
               else s\<lparr>d_pc := Shown, d_allstopped := d_finished s \<noteq> 0\<rparr>
      | Shown \<Rightarrow> if d_shutdown s \<or> d_allstopped s then s\<lparr>d_pc := Left\<rparr>
                 else if refresh then s\<lparr>d_pc := Deciding\<rparr> else s\<lparr>d_pc := Top\<rparr>
      | Deciding \<Rightarrow> s\<lparr>d_pc := Waiting\<rparr>
      | Waiting \<Rightarrow> s
      | Left \<Rightarrow> s)"

definition disp_signal :: "bool \<Rightarrow> disp \<Rightarrow> disp" where
  "disp_signal refresh s = (let s1 = s\<lparr>d_shutdown := True\<rparr> in if refresh then wake_main s1 else s1)"

inductive disp_step :: "bool \<Rightarrow> disp \<Rightarrow> disp \<Rightarrow> bool" for refresh where
  main: "d_pc s \<notin> {Waiting, Left} \<Longrightarrow> disp_step refresh s (disp_main refresh s)"
| new_max: "0 < d_running s \<Longrightarrow> refresh \<Longrightarrow> disp_step refresh s (wake_main s)"
| thread_stops: "0 < d_running s \<Longrightarrow> disp_step refresh s (s\<lparr>d_shutdown := True\<rparr>)"
| thread_leaves: "0 < d_running s \<Longrightarrow> d_shutdown s \<Longrightarrow> disp_step refresh s (s\<lparr>d_running := d_running s - 1\<rparr>)"
| thread_finishes: "0 < d_running s \<Longrightarrow>
    disp_step refresh s (s\<lparr>d_running := d_running s - 1, d_finished := Suc (d_finished s)\<rparr>)"

inductive_cases disp_stepE: "disp_step refresh s s'"

definition disp_init :: "nat \<Rightarrow> disp \<Rightarrow> bool" where
  "disp_init n s \<longleftrightarrow> d_pc s = Top \<and> \<not> d_shutdown s \<and> \<not> d_allstopped s \<and> d_running s = n \<and> d_finished s = 0"

section \<open>Properties of the display loop\<close>

text \<open>Without \<open>--refresh_on_max\<close> \<open>main\<close> never waits.\<close>

definition disp_inv :: "bool \<Rightarrow> disp \<Rightarrow> bool" where
  "disp_inv refresh s \<longleftrightarrow> (\<not> refresh \<longrightarrow> d_pc s \<notin> {Deciding, Waiting})"

interpretation display: machine "disp_init n" "disp_step refresh" "disp_inv refresh" for n refresh
proof unfold_locales
  show "disp_inv refresh s" if "disp_init n s" for s
    using that by (simp add: disp_init_def disp_inv_def)
  show "disp_inv refresh t" if "disp_inv refresh s" "disp_step refresh s t" for s t
    using that(2,1) by cases (auto simp: disp_inv_def wake_main_def split: disp_pc.splits)
qed

lemma main_left: "d_pc s = Left \<Longrightarrow> (disp_main refresh ^^ k) s = s"
  by (induction k) (simp_all add: funpow_swap1)

lemma main_waiting: "d_pc s = Waiting \<Longrightarrow> (disp_main refresh ^^ k) s = s"
  by (induction k) (simp_all add: funpow_swap1)

text \<open>
  C28: whether a signal of the user ends the display: \<open>main\<close> is behind its loop after two more steps, unless it is
  between its last look at the flag and the wait of \<open>--refresh_on_max\<close>. There the notification of the
  handler finds no waiter and is lost, and \<open>main\<close> waits with the flag set, for ever if no thread
  notifies it.
\<close>

theorem signal_ends_display:
  assumes "reach (disp_init n) (disp_step refresh) s"
  shows "(d_pc s \<noteq> Deciding \<longrightarrow> d_pc ((disp_main refresh ^^ 2) (disp_signal refresh s)) = Left) \<and>
    (d_pc s = Deciding \<longrightarrow> refresh \<and>
       (\<forall>k. d_pc ((disp_main refresh ^^ Suc k) (disp_signal refresh s)) = Waiting \<and>
            d_shutdown ((disp_main refresh ^^ Suc k) (disp_signal refresh s))))"
proof -
  have inv: "disp_inv refresh s" using assms by (rule display.reach_inv)
  have two: "d_pc ((disp_main refresh ^^ 2) (disp_signal refresh s)) = Left" if "d_pc s \<noteq> Deciding"
    using that inv
    by (cases "d_pc s") (auto simp: numeral_2_eq_2 disp_signal_def wake_main_def disp_inv_def Let_def)
  have lost: "d_pc ((disp_main refresh ^^ Suc k) (disp_signal refresh s)) = Waiting \<and>
      d_shutdown ((disp_main refresh ^^ Suc k) (disp_signal refresh s))" if "d_pc s = Deciding" for k
  proof -
    have "disp_main refresh (disp_signal refresh s) = s\<lparr>d_shutdown := True, d_pc := Waiting\<rparr>"
      using that by (simp add: disp_signal_def wake_main_def Let_def)
    then have "(disp_main refresh ^^ Suc k) (disp_signal refresh s) = s\<lparr>d_shutdown := True, d_pc := Waiting\<rparr>"
      by (simp add: funpow_Suc_right main_waiting del: funpow.simps)
    then show ?thesis by simp
  qed
  from two lost inv show ?thesis by (auto simp: disp_inv_def)
qed

theorem signal_ends_display_witness:
  "d_pc ((disp_main True ^^ 2) (disp_signal True \<lparr>d_pc = Top, d_shutdown = False, d_allstopped = False,
     d_running = 3, d_finished = 0\<rparr>)) = Left"
proof -
  let ?s = "\<lparr>d_pc = Top, d_shutdown = False, d_allstopped = False, d_running = 3, d_finished = 0\<rparr>"
  have "reach (disp_init 3) (disp_step True) ?s" by (rule reach_init) (simp add: disp_init_def)
  from signal_ends_display [OF this] show ?thesis by simp
qed

text \<open>
  With \<open>--refresh_on_max\<close> the measurement may be over and the program not: a thread that ends it (\<open>--duration\<close>,
  or its number of cycles) does not notify \<open>main\<close> then. A state is reachable from every number of threads
  in which the flag is set, all threads have gone and \<open>main\<close> waits; no step is possible from it.
\<close>

theorem refresh_wait_hangs:
  "\<exists>s. reach (disp_init (Suc n)) (disp_step True) s \<and> d_shutdown s \<and> d_running s = 0 \<and> d_pc s = Waiting \<and>
    (\<forall>s'. \<not> disp_step True s s')"
proof -
  define st where "st pc sd r = \<lparr>d_pc = pc, d_shutdown = sd, d_allstopped = False, d_running = r, d_finished = 0\<rparr>"
    for pc sd r
  let ?r = "reach (disp_init (Suc n)) (disp_step True)"
  have main: "?r (disp_main True t)" if "?r t" "d_pc t \<notin> {Waiting, Left}" for t
    using that by (meson reach_step disp_step.main)
  have "?r (st Top False (Suc n))" by (rule reach_init) (simp add: disp_init_def st_def)
  from main [OF this] have "?r (st Shown False (Suc n))" by (simp add: st_def)
  from main [OF this] have "?r (st Deciding False (Suc n))" by (simp add: st_def)
  from main [OF this] have w: "?r (st Waiting False (Suc n))" by (simp add: st_def)
  have "disp_step True (st Waiting False (Suc n)) (st Waiting True (Suc n))"
    using disp_step.thread_stops [of "st Waiting False (Suc n)" True] by (simp add: st_def)
  with w have sd: "?r (st Waiting True (Suc n))" by (rule reach_step)
  have "?r (st Waiting True r)" if "r \<le> Suc n" for r
    using that
  proof (induction "Suc n - r" arbitrary: r)
    case 0
    then show ?case using sd by simp
  next
    case (Suc k)
    then have "?r (st Waiting True (Suc r))" by simp
    moreover have "disp_step True (st Waiting True (Suc r)) (st Waiting True r)"
      using disp_step.thread_leaves [of "st Waiting True (Suc r)" True] by (simp add: st_def)
    ultimately show ?case by (rule reach_step)
  qed
  then have z: "?r (st Waiting True 0)" by simp
  have "\<not> disp_step True (st Waiting True 0) s'" for s'
    by (auto simp: st_def elim: disp_stepE)
  with z show ?thesis by (intro exI [of _ "st Waiting True 0"]) (simp add: st_def)
qed

section \<open>Properties of the status reports\<close>

lemma print_stats_plain: "\<exists>out. print_stats reduction 0 0 i ps = Some (out, ps) \<and> length out = length ps"
proof (induction ps arbitrary: i)
  case (Cons p ps)
  obtain out where "print_stats reduction 0 0 (i + 1) ps = Some (out, ps)" "length out = length ps" using Cons by blast
  then show ?case by (cases p) (simp add: print_stat_def)
qed simp

fun written :: "fifo_op \<Rightarrow> nat option" where
  "written (WriteStatus out) = Some (length out)"
| "written _ = None"

text \<open>
  The fifo serves every reader: in each round that finds one, until the shutdown is seen, one line for each thread is
  written, and nothing else is; the fifo is removed when the thread ends, and \<open>SIGUSR1\<close> prints the same lines.
\<close>

theorem fifo_serves_readers:
  assumes "use_fifo \<noteq> 0"
  shows "List.map_filter written (fst (fifothread reduction use_fifo 0 is)) =
      map (\<lambda>i. length (fi_stats i)) (filter (\<lambda>i. 0 \<le> fi_open i) (takeWhile (\<lambda>i. \<not> fi_shutdown i) is)) \<and>
    (snd (fifothread reduction use_fifo 0 is) \<longleftrightarrow> (\<exists>i \<in> set is. fi_shutdown i)) \<and>
    (snd (fifothread reduction use_fifo 0 is) \<longrightarrow> last (fst (fifothread reduction use_fifo 0 is)) = Unlink) \<and>
    (\<exists>out. sighand reduction refresh tracelimit notrace SIGUSR1 ps = Some [StatusLines out] \<and> length out = length ps)"
proof -
  have mf: "List.map_filter written (xs @ ys) = List.map_filter written xs @ List.map_filter written ys" for xs ys
    by (simp add: map_filter_def)
  have loop: "List.map_filter written (fst (fifo_loop reduction is)) =
      map (\<lambda>i. length (fi_stats i)) (filter (\<lambda>i. 0 \<le> fi_open i) (takeWhile (\<lambda>i. \<not> fi_shutdown i) is)) \<and>
    (snd (fifo_loop reduction is) \<longleftrightarrow> (\<exists>i \<in> set is. fi_shutdown i))"
  proof (induction "is")
    case Nil
    then show ?case by (simp add: map_filter_def)
  next
    case (Cons i "is")
    obtain out where out: "print_stats reduction 0 0 0 (fi_stats i) = Some (out, fi_stats i)"
      "length out = length (fi_stats i)"
      using print_stats_plain by blast
    obtain ops e where r: "fifo_loop reduction is = (ops, e)" by (cases "fifo_loop reduction is") blast
    show ?case
      using Cons r out by (auto simp: map_filter_def not_less)
  qed
  obtain ops e where r: "fifo_loop reduction is = (ops, e)" by (cases "fifo_loop reduction is") blast
  have "\<exists>out. sighand reduction refresh tracelimit notrace SIGUSR1 ps = Some [StatusLines out] \<and> length out = length ps"
    using print_stats_plain [of reduction 0 ps] by (auto simp: sighand_def)
  then show ?thesis
    using loop assms by (simp add: fifothread_def r) (auto simp: map_filter_def)
qed

theorem fifo_serves_readers_witness:
  "List.map_filter written (fst (fifothread 1 1 0
     [\<lparr>fi_shutdown = False, fi_open = -1, fi_stats = []\<rparr>,
      \<lparr>fi_shutdown = False, fi_open = 4, fi_stats = [(ex_par, ex_stat), (ex_par, ex_stat)]\<rparr>,
      \<lparr>fi_shutdown = True, fi_open = 4, fi_stats = []\<rparr>])) = [2]"
  using fifo_serves_readers [of 1 1 "[\<lparr>fi_shutdown = False, fi_open = -1, fi_stats = []\<rparr>,
      \<lparr>fi_shutdown = False, fi_open = 4, fi_stats = [(ex_par, ex_stat), (ex_par, ex_stat)]\<rparr>,
      \<lparr>fi_shutdown = True, fi_open = 4, fi_stats = []\<rparr>]"]
  by simp

end
