(* ===== verification/CyclicMemory.thy ===== *)
theory CyclicMemory
  imports CyclicMain "HOL-Library.Multiset"
begin

text \<open>
  The memory of cyclictest's threads (\<^verbatim>\<open>src/cyclictest/cyclictest.c\<close>, \<^verbatim>\<open>rt_numa.h\<close>): which blocks \<open>main\<close> allocates for each
  thread, on which node and of which size, and how it gives them back at the end.
\<close>

section \<open>Allocation\<close>

datatype blk = BPar int | BStat int | BHist int | BOutliers int | BValues int

text \<open>
  The blocks of thread \<open>i\<close> on a node. The sizes of the two structures are parameters; that of a histogram is
  computed as an \<open>int\<close>.
\<close>

definition thread_allocs :: "int \<Rightarrow> int \<Rightarrow> create_cfg \<Rightarrow> int \<Rightarrow> int \<Rightarrow> (blk \<times> mem_op) list" where
  "thread_allocs sz_par sz_stat cfg i node =
     [(BPar i, threadalloc sz_par node), (BStat i, threadalloc sz_stat node)] @
     (if cc_histogram cfg \<noteq> 0
      then (let bufsize = s32 (cc_histogram cfg * 8)
            in [(BHist i, threadalloc bufsize node), (BOutliers i, threadalloc bufsize node)])
      else []) @
     (if cc_verbose cfg \<noteq> 0 then [(BValues i, threadalloc (s32 (VALBUF_SIZE * 8)) node)] else [])"

fun create_allocs ::
  "int \<Rightarrow> int \<Rightarrow> create_cfg \<Rightarrow> create_in list \<Rightarrow> int \<Rightarrow> create_state \<Rightarrow> (blk \<times> mem_op) list" where
  "create_allocs sz_par sz_stat cfg [] i cs = []"
| "create_allocs sz_par sz_stat cfg (ci # cis) i cs =
     (case create_thread cfg ci i cs of
        Inl e \<Rightarrow> []
      | Inr (par, s, cs1) \<Rightarrow>
          (case thread_node cfg ci of Inl e \<Rightarrow> [] | Inr node \<Rightarrow> thread_allocs sz_par sz_stat cfg i node) @
          create_allocs sz_par sz_stat cfg cis (i + 1) cs1)"

section \<open>Release\<close>

text \<open>A loop over the threads with their number.\<close>

fun for_threads :: "(int \<Rightarrow> 'a \<Rightarrow> 'b list) \<Rightarrow> int \<Rightarrow> 'a list \<Rightarrow> 'b list" where
  "for_threads f i [] = []"
| "for_threads f i (p # ps) = f i p @ for_threads f (i + 1) ps"

definition free_values :: "int \<Rightarrow> thread_param \<times> thread_stat \<Rightarrow> (blk \<times> mem_op) list" where
  "free_values i p =
     (if st_values (snd p) \<noteq> [] then [(BValues i, threadfree (VALBUF_SIZE * 8) (tp_node (fst p)))] else [])"

definition free_hist :: "int \<Rightarrow> int \<Rightarrow> thread_param \<times> thread_stat \<Rightarrow> (blk \<times> mem_op) list" where
  "free_hist histogram i p =
     [(BHist i, threadfree (histogram * 8) (tp_node (fst p))),
      (BOutliers i, threadfree (histogram * 8) (tp_node (fst p)))]"

text \<open>The sample buffers when the threads are stopped, the histograms, the statistics, and the parameter blocks, in
  which the nodes are, at last.\<close>

definition release_threads ::
  "int \<Rightarrow> int \<Rightarrow> int \<Rightarrow> (thread_param \<times> thread_stat) list \<Rightarrow> (blk \<times> mem_op) list" where
  "release_threads sz_par sz_stat histogram ps =
     for_threads free_values 0 ps @
     (if histogram \<noteq> 0 then for_threads (free_hist histogram) 0 ps else []) @
     for_threads (\<lambda>i p. [(BStat i, threadfree sz_stat (tp_node (fst p)))]) 0 ps @
     for_threads (\<lambda>i p. [(BPar i, threadfree sz_par (tp_node (fst p)))]) 0 ps"

section \<open>Every block is given back\<close>

text \<open>A release fits an allocation when it goes to the same allocator, with the same size where that matters.\<close>

fun released :: "mem_op \<Rightarrow> mem_op \<Rightarrow> bool" where
  "released (Malloc sz) f = (f = Free)"
| "released (NumaAllocOnNode sz node) f = (f = NumaFree sz)"
| "released _ f = False"

lemma released_same [simp]: "released (threadalloc sz node) (threadfree sz node)"
  by (simp add: threadalloc_def threadfree_def)

lemma set_for_threads:
  "x \<in> set (for_threads f i ps) \<longleftrightarrow> (\<exists>k < length ps. x \<in> set (f (i + int k) (ps ! k)))"
proof (induction ps arbitrary: i)
  case (Cons p ps)
  have "(\<exists>k < length (p # ps). x \<in> set (f (i + int k) ((p # ps) ! k))) \<longleftrightarrow>
      x \<in> set (f i p) \<or> (\<exists>k < length ps. x \<in> set (f (i + 1 + int k) (ps ! k)))"
    by (auto simp: less_Suc_eq_0_disj algebra_simps)
  then show ?case using Cons by simp
qed simp

text \<open>The allocations, read off the threads that were created.\<close>

definition allocs_of :: "int \<Rightarrow> int \<Rightarrow> create_cfg \<Rightarrow> int \<Rightarrow> thread_param \<times> thread_stat \<Rightarrow> (blk \<times> mem_op) list" where
  "allocs_of sz_par sz_stat cfg i p = thread_allocs sz_par sz_stat cfg i (tp_node (fst p))"

lemma create_thread_node:
  assumes "create_thread cfg ci i cs = Inr (par, s, cs1)"
  shows "thread_node cfg ci = Inr (tp_node par) \<and> (st_values s = [] \<longleftrightarrow> cc_verbose cfg = 0)"
proof -
  obtain node cpu stat where c: "thread_node cfg ci = Inr node" "alloc_stat cfg ci = Inr stat"
    "par = make_param cfg node cpu i cs" "s = start_stat stat"
    using assms by (auto simp: create_thread_def split: sum.splits option.splits if_splits)
  then show ?thesis using alloc_statD(1) [OF c(2)] by (simp add: make_param_def)
qed

lemma create_allocs_of:
  assumes "create_threads cfg cis i cs = (ps, None, cs')"
  shows "create_allocs sz_par sz_stat cfg cis i cs = for_threads (allocs_of sz_par sz_stat cfg) i ps \<and>
    (\<forall>p \<in> set ps. st_values (snd p) = [] \<longleftrightarrow> cc_verbose cfg = 0)"
  using assms
proof (induction cis arbitrary: i cs ps)
  case (Cons ci cis)
  obtain par s cs1 where c: "create_thread cfg ci i cs = Inr (par, s, cs1)"
    using Cons.prems by (cases "create_thread cfg ci i cs") auto
  obtain qs where qs: "create_threads cfg cis (i + 1) cs1 = (qs, None, cs')" "ps = (par, s) # qs"
    using Cons.prems c by (auto split: prod.splits)
  show ?case
    using Cons.IH [OF qs(1)] c qs(2) create_thread_node [OF c] by (simp add: allocs_of_def)
qed simp

fun blk_thread :: "blk \<Rightarrow> int" where
  "blk_thread (BPar i) = i"
| "blk_thread (BStat i) = i"
| "blk_thread (BHist i) = i"
| "blk_thread (BOutliers i) = i"
| "blk_thread (BValues i) = i"

lemma distinct_for_threads:
  assumes "\<And>i p. distinct (map fst (f i p))" "\<And>i p b. b \<in> fst ` set (f i p) \<Longrightarrow> blk_thread b = i"
  shows "distinct (map fst (for_threads f i ps))"
proof (induction ps arbitrary: i)
  case (Cons p ps)
  have "blk_thread b = i" if "b \<in> fst ` set (f i p)" for b using that by (rule assms(2))
  moreover have "i < blk_thread b" if "b \<in> fst ` set (for_threads f (i + 1) ps)" for b
    using that assms(2) by (fastforce simp: set_for_threads)
  ultimately show ?case using Cons assms(1) by force
qed simp

text \<open>The threads at the end: their parameter blocks are unchanged, and no thread touches the pointer \<open>values\<close>.\<close>

definition same_blocks :: "(thread_param \<times> thread_stat) list \<Rightarrow> (thread_param \<times> thread_stat) list \<Rightarrow> bool" where
  "same_blocks ps qs \<longleftrightarrow> list_all2 (\<lambda>p q. fst q = fst p \<and> (st_values (snd q) = [] \<longleftrightarrow> st_values (snd p) = [])) ps qs"

lemma release_blocks:
  assumes "same_blocks ps qs" "\<forall>p \<in> set ps. st_values (snd p) = [] \<longleftrightarrow> cc_verbose cfg = 0"
  shows "mset (map fst (for_threads (allocs_of sz_par sz_stat cfg) i ps)) =
    mset (map fst (for_threads free_values i qs)) +
    (if cc_histogram cfg \<noteq> 0 then mset (map fst (for_threads (free_hist h) i qs)) else {#}) +
    mset (map fst (for_threads (\<lambda>i p. [(BStat i, threadfree sz_stat (tp_node (fst p)))]) i qs)) +
    mset (map fst (for_threads (\<lambda>i p. [(BPar i, threadfree sz_par (tp_node (fst p)))]) i qs))"
  using assms
proof (induction ps arbitrary: i qs)
  case Nil
  then show ?case by (simp add: same_blocks_def)
next
  case (Cons p ps)
  obtain q rs where q: "qs = q # rs" "same_blocks ps rs" "fst q = fst p"
    "st_values (snd q) = [] \<longleftrightarrow> st_values (snd p) = []"
    using Cons.prems(1) by (auto simp: same_blocks_def list_all2_Cons1)
  then show ?case
    using Cons.IH [OF q(2), of "i + 1"] Cons.prems(2)
    by (auto simp: allocs_of_def thread_allocs_def free_values_def free_hist_def Let_def)
qed

lemma distinct_allocs: "distinct (map fst (for_threads (allocs_of sz_par sz_stat cfg) i ps))"
  by (rule distinct_for_threads) (auto simp: allocs_of_def thread_allocs_def Let_def split: if_splits)

text \<open>What a block's allocation and release look like.\<close>

fun blk_size :: "int \<Rightarrow> int \<Rightarrow> int \<Rightarrow> blk \<Rightarrow> int" where
  "blk_size sz_par sz_stat histogram (BPar i) = sz_par"
| "blk_size sz_par sz_stat histogram (BStat i) = sz_stat"
| "blk_size sz_par sz_stat histogram (BHist i) = histogram * 8"
| "blk_size sz_par sz_stat histogram (BOutliers i) = histogram * 8"
| "blk_size sz_par sz_stat histogram (BValues i) = VALBUF_SIZE * 8"

lemma alloc_form:
  assumes "(b, a) \<in> set (for_threads (allocs_of sz_par sz_stat cfg) 0 ps)" "0 \<le> cc_histogram cfg"
    "cc_histogram cfg \<le> 1000000"
  shows "\<exists>k < length ps. blk_thread b = int k \<and>
    a = threadalloc (blk_size sz_par sz_stat (cc_histogram cfg) b) (tp_node (fst (ps ! k)))"
proof -
  obtain k where k: "k < length ps" "(b, a) \<in> set (allocs_of sz_par sz_stat cfg (int k) (ps ! k))"
    using assms(1) by (auto simp: set_for_threads)
  have fit: "s32 (cc_histogram cfg * 8) = cc_histogram cfg * 8" "s32 (VALBUF_SIZE * 8) = VALBUF_SIZE * 8"
    using assms(2,3) by (simp_all add: c_int)
  show ?thesis
    using k fit by (intro exI [of _ k]) (auto simp: allocs_of_def thread_allocs_def Let_def split: if_splits)
qed

lemma release_form:
  assumes "(b, f) \<in> set (release_threads sz_par sz_stat histogram qs)"
  shows "\<exists>k < length qs. blk_thread b = int k \<and> f = threadfree (blk_size sz_par sz_stat histogram b) (tp_node (fst (qs ! k)))"
  using assms
  by (auto simp: release_threads_def set_for_threads free_values_def free_hist_def split: if_splits)



section \<open>After a failed allocation\<close>

text \<open>
  When the sample buffer of the last thread cannot be allocated, its parameter block has no node yet: the node is that
  of the zeroed block. The block that came from \<open>malloc\<close>, or from another node, is given to \<open>numa_free\<close>.
\<close>

definition unset_node :: int where "unset_node = 0"

theorem failed_buffer_wrong_free:
  assumes "thread_node cfg ci = Inr (- 1)"
  shows "\<not> released (threadalloc sz_par (- 1)) (threadfree sz_par unset_node) \<and>
    (BPar i, threadalloc sz_par (- 1)) \<in> set (case thread_node cfg ci of Inl e \<Rightarrow> [] | Inr node \<Rightarrow> thread_allocs sz_par sz_stat cfg i node)"
  using assms by (simp add: threadalloc_def threadfree_def unset_node_def thread_allocs_def)

theorem failed_buffer_wrong_free_witness:
  "\<not> released (threadalloc 96 (- 1)) (threadfree 96 unset_node)"
  using failed_buffer_wrong_free [of ex_create ex_ci 96 0 160] by (simp add: thread_node_def ex_create_def)

end
