(* ===== verification/Backfire.thy ===== *)
theory Backfire
  imports RtTime
begin

text \<open>
  The device that sends a signal back to its caller, \<^verbatim>\<open>src/backfire/backfire.c\<close>, and its client
  \<^verbatim>\<open>src/backfire/sendme.c\<close>. The driver's variables are guarded by one lock, so its operations are
  atomic steps of a state machine over the open files; the client's measuring loop runs over
  what the clock and the device deliver.
\<close>

unbundle bit_operations_syntax

section \<open>The driver\<close>

abbreviation (input) BACKFIRE_WRITE :: int where "BACKFIRE_WRITE \<equiv> 1"
abbreviation (input) BACKFIRE_EXCL :: int where "BACKFIRE_EXCL \<equiv> 2"

record backfire =
  bf_open_cnt :: int
  bf_open_mode :: int
  bf_sendtime :: timeval

text \<open>How a file is opened: with \<open>O_EXCL\<close>, and for writing (\<open>f_mode & 2\<close>).\<close>

record bfile =
  f_excl :: bool
  f_write :: bool

text \<open>\<open>None\<close> is \<open>-EBUSY\<close>.\<close>

definition backfire_open :: "bfile \<Rightarrow> backfire \<Rightarrow> backfire option" where
  "backfire_open f d =
     (if (bf_open_cnt d \<noteq> 0 \<and> f_excl f) \<or> bf_open_mode d AND BACKFIRE_EXCL \<noteq> 0 then None
      else let m1 = (if f_excl f then bf_open_mode d OR BACKFIRE_EXCL else bf_open_mode d);
               m2 = (if f_write f then m1 OR BACKFIRE_WRITE else m1)
           in Some (d\<lparr>bf_open_mode := m2, bf_open_cnt := bf_open_cnt d + 1\<rparr>))"

definition backfire_release :: "bfile \<Rightarrow> backfire \<Rightarrow> backfire" where
  "backfire_release f d =
     (let d1 = d\<lparr>bf_open_cnt := bf_open_cnt d - 1\<rparr>;
          m1 = (if bf_open_cnt d1 = 1 \<and> bf_open_mode d1 AND BACKFIRE_EXCL \<noteq> 0
                then bf_open_mode d1 AND NOT BACKFIRE_EXCL else bf_open_mode d1);
          m2 = (if f_write f then m1 AND NOT BACKFIRE_WRITE else m1)
      in d1\<lparr>bf_open_mode := m2\<rparr>)"

text \<open>
  Writing: the signal that is sent to the caller, with the time taken before it is; the result is
  always the length of the text. A text without a number, or with another number, sends nothing.
\<close>

definition scan_int :: "string \<Rightarrow> int option" where
  "scan_int s =
     (let t = dropWhile isspace s;
          u = (if t \<noteq> [] \<and> (hd t = CHR ''-'' \<or> hd t = CHR ''+'') then tl t else t)
      in if u = [] \<or> digit_val (hd u) = None then None else Some (s32 (fst (strtol10 s))))"

definition backfire_write :: "timeval \<Rightarrow> string \<Rightarrow> backfire \<Rightarrow> nat \<times> int option \<times> backfire" where
  "backfire_write now buf d =
     (case scan_int buf of
        None \<Rightarrow> (length buf, None, d)
      | Some signo \<Rightarrow>
          if signo > 0 \<and> signo < 32 then (length buf, Some signo, d\<lparr>bf_sendtime := now\<rparr>)
          else (length buf, None, d))"

text \<open>Reading delivers the two numbers of the last signal's time.\<close>

definition backfire_read :: "backfire \<Rightarrow> int \<times> int" where
  "backfire_read d = (s32 (tvl_sec (bf_sendtime d)), s32 (tvl_usec (bf_sendtime d)))"

section \<open>The driver as a state machine\<close>

record bsys =
  b_dev :: backfire
  b_files :: "bfile list"

definition bsys_init :: "bsys \<Rightarrow> bool" where
  "bsys_init s \<longleftrightarrow> bf_open_cnt (b_dev s) = 0 \<and> bf_open_mode (b_dev s) = 0 \<and> b_files s = []"

text \<open>The kernel calls \<open>release\<close> once for every successful \<open>open\<close>, and the others on open files.\<close>

inductive bstep :: "bsys \<Rightarrow> bsys \<Rightarrow> bool" where
  open_ok: "backfire_open f (b_dev s) = Some d \<Longrightarrow> bstep s (s\<lparr>b_dev := d, b_files := f # b_files s\<rparr>)"
| open_busy: "backfire_open f (b_dev s) = None \<Longrightarrow> bstep s s"
| dev_release: "b_files s = xs @ f # ys \<Longrightarrow> bstep s (s\<lparr>b_dev := backfire_release f (b_dev s), b_files := xs @ ys\<rparr>)"
| dev_write: "b_files s \<noteq> [] \<Longrightarrow> backfire_write now buf (b_dev s) = (n, sig, d) \<Longrightarrow> bstep s (s\<lparr>b_dev := d\<rparr>)"
| dev_read: "b_files s \<noteq> [] \<Longrightarrow> bstep s s"

inductive_cases bstepE: "bstep s t"

lemma excl_of_or_write [simp]: "(m OR 1) AND 2 = m AND (2 :: int)"
  by (rule bit_eqI) (auto simp: bit_simps)

lemma excl_of_or_excl [simp]: "(m OR 2) AND 2 = (2 :: int)"
  by (rule bit_eqI) (auto simp: bit_simps)

lemma excl_of_clear_write [simp]: "(m AND - 2) AND 2 = m AND (2 :: int)"
proof -
  have "(m AND NOT 1) AND 2 = m AND (2 :: int)" by (rule bit_eqI) (auto simp: bit_simps)
  then show ?thesis by simp
qed

lemma excl_of_clear_excl [simp]: "(m AND - 3) AND 2 = (0 :: int)"
proof -
  have "(m AND NOT 2) AND 2 = (0 :: int)" by (rule bit_eqI) (auto simp: bit_simps)
  then show ?thesis by simp
qed

lemma open_cases:
  assumes "backfire_open f d = Some d'"
  shows "bf_open_cnt d' = bf_open_cnt d + 1" "bf_open_mode d AND 2 = 0" "f_excl f \<Longrightarrow> bf_open_cnt d = 0"
    "bf_open_mode d' AND 2 = (if f_excl f then 2 else 0)"
  using assms by (auto simp: backfire_open_def Let_def split: if_splits)

lemma write_frame:
  assumes "backfire_write now buf d = (n, sig, d')"
  shows "bf_open_cnt d' = bf_open_cnt d" "bf_open_mode d' = bf_open_mode d"
  using assms by (auto simp: backfire_write_def split: option.splits if_splits)

definition excl_inv :: "bsys \<Rightarrow> bool" where
  "excl_inv s \<longleftrightarrow> bf_open_cnt (b_dev s) = int (length (b_files s)) \<and>
     (bf_open_mode (b_dev s) AND 2 \<noteq> 0 \<longrightarrow> length (b_files s) \<le> 1) \<and>
     ((\<exists>f \<in> set (b_files s). f_excl f) \<longrightarrow> length (b_files s) = 1 \<and> bf_open_mode (b_dev s) AND 2 \<noteq> 0)"

lemma excl_inv_step: "excl_inv s \<Longrightarrow> bstep s t \<Longrightarrow> excl_inv t"
proof (elim bstepE)
  fix f d assume inv: "excl_inv s" and t: "t = s\<lparr>b_dev := d, b_files := f # b_files s\<rparr>"
    and o: "backfire_open f (b_dev s) = Some d"
  show "excl_inv t" using inv open_cases [OF o] by (auto simp: excl_inv_def t split: if_splits)
next
  fix xs f ys assume inv: "excl_inv s" and fs: "b_files s = xs @ f # ys"
    and t: "t = s\<lparr>b_dev := backfire_release f (b_dev s), b_files := xs @ ys\<rparr>"
  show "excl_inv t"
  proof (cases "bf_open_mode (b_dev s) AND 2 = 0")
    case True
    then show ?thesis using inv fs by (auto simp: excl_inv_def t backfire_release_def Let_def)
  next
    case False
    then have "xs = [] \<and> ys = []" using inv fs by (auto simp: excl_inv_def)
    then show ?thesis using inv fs False by (auto simp: excl_inv_def t backfire_release_def Let_def)
  qed
next
  fix now buf n sig d assume inv: "excl_inv s" and t: "t = s\<lparr>b_dev := d\<rparr>"
    and w: "backfire_write now buf (b_dev s) = (n, sig, d)"
  show "excl_inv t" using inv write_frame [OF w] by (simp add: excl_inv_def t)
qed simp_all

interpretation bfdev: machine bsys_init bstep excl_inv
proof unfold_locales
  show "excl_inv s" if "bsys_init s" for s using that by (simp add: bsys_init_def excl_inv_def)
qed (rule excl_inv_step)

text \<open>Once the exclusive flag is set it stays set.\<close>

definition excl_stuck :: "bsys \<Rightarrow> bool" where
  "excl_stuck s \<longleftrightarrow> excl_inv s \<and> bf_open_mode (b_dev s) AND 2 \<noteq> 0"

interpretation bfstuck: machine excl_stuck bstep excl_stuck
proof unfold_locales
  fix s t assume s: "excl_stuck s" and st: "bstep s t"
  then have inv: "excl_inv t" by (auto simp: excl_stuck_def intro: excl_inv_step)
  from st have "bf_open_mode (b_dev t) AND 2 \<noteq> 0"
  proof (elim bstepE)
    fix f d assume o: "backfire_open f (b_dev s) = Some d"
    then show ?thesis using open_cases(2) [OF o] s by (simp add: excl_stuck_def)
  next
    fix xs f ys assume "t = s\<lparr>b_dev := backfire_release f (b_dev s), b_files := xs @ ys\<rparr>" "b_files s = xs @ f # ys"
    then show ?thesis using s by (auto simp: excl_stuck_def excl_inv_def backfire_release_def Let_def)
  next
    fix now buf n sig d assume w: "backfire_write now buf (b_dev s) = (n, sig, d)" and t: "t = s\<lparr>b_dev := d\<rparr>"
    then show ?thesis using s write_frame [OF w] by (simp add: excl_stuck_def)
  qed (use s in \<open>simp_all add: excl_stuck_def\<close>)
  with inv show "excl_stuck t" by (simp add: excl_stuck_def)
qed simp

text \<open>
  A file opened with \<open>O_EXCL\<close> is the only open one, in every state the driver can reach.
\<close>

theorem exclusive_open_is_alone:
  assumes "reach bsys_init bstep s" and "f \<in> set (b_files s)" and "f_excl f"
  shows "b_files s = [f] \<and> backfire_open g (b_dev s) = None"
proof -
  have inv: "excl_inv s" using assms(1) by (rule bfdev.reach_inv)
  then have "length (b_files s) = 1" "bf_open_mode (b_dev s) AND 2 \<noteq> 0"
    using assms(2,3) by (auto simp: excl_inv_def)
  then show ?thesis using assms(2) by (auto simp: length_Suc_conv backfire_open_def)
qed

definition ex_bsys :: bsys where
  "ex_bsys = \<lparr>b_dev = \<lparr>bf_open_cnt = 0, bf_open_mode = 0, bf_sendtime = \<lparr>tvl_sec = 0, tvl_usec = 0\<rparr>\<rparr>, b_files = []\<rparr>"

definition excl_file :: bfile where "excl_file = \<lparr>f_excl = True, f_write = True\<rparr>"

definition ex_bsys1 :: bsys where
  "ex_bsys1 = \<lparr>b_dev = \<lparr>bf_open_cnt = 1, bf_open_mode = 3, bf_sendtime = \<lparr>tvl_sec = 0, tvl_usec = 0\<rparr>\<rparr>,
     b_files = [excl_file]\<rparr>"

lemma ex_open: "backfire_open excl_file (b_dev ex_bsys) = Some (b_dev ex_bsys1)"
  by (simp add: backfire_open_def ex_bsys_def ex_bsys1_def excl_file_def)

lemma ex_step: "bstep ex_bsys ex_bsys1"
  using open_ok [OF ex_open] by (simp add: ex_bsys_def ex_bsys1_def)

lemma ex_reach0: "reach bsys_init bstep ex_bsys"
  by (rule reach_init) (simp add: bsys_init_def ex_bsys_def)

lemma ex_reach: "reach bsys_init bstep ex_bsys1"
  using ex_reach0 ex_step by (rule reach_step)

theorem exclusive_open_is_alone_witness:
  "b_files ex_bsys1 = [excl_file] \<and> backfire_open \<lparr>f_excl = False, f_write = False\<rparr> (b_dev ex_bsys1) = None"
  using exclusive_open_is_alone [OF ex_reach, of excl_file] by (simp add: ex_bsys1_def excl_file_def)

text \<open>
  After one exclusive open the device can never be opened again, whatever is closed or
  written afterwards: \<open>release\<close> clears the flag only when a second file remains open, which an exclusive open
  excludes.
\<close>

theorem exclusive_open_blocks_forever:
  assumes "reach bsys_init bstep s" and "f_excl f" and "backfire_open f (b_dev s) = Some d"
    and "bstep\<^sup>*\<^sup>* (s\<lparr>b_dev := d, b_files := f # b_files s\<rparr>) t"
  shows "backfire_open g (b_dev t) = None"
proof -
  let ?s1 = "s\<lparr>b_dev := d, b_files := f # b_files s\<rparr>"
  have "excl_inv ?s1"
    using bfdev.reach_inv [OF assms(1)] open_ok [OF assms(3)] by (rule excl_inv_step)
  then have "excl_stuck ?s1" using open_cases(4) [OF assms(3)] assms(2) by (simp add: excl_stuck_def)
  with bfstuck.runs_inv [OF assms(4)] have "excl_stuck t" .
  then show ?thesis by (simp add: excl_stuck_def backfire_open_def)
qed

theorem exclusive_open_blocks_forever_witness:
  "backfire_open \<lparr>f_excl = False, f_write = False\<rparr> (backfire_release excl_file (b_dev ex_bsys1)) = None"
proof -
  have "bstep (ex_bsys\<lparr>b_dev := b_dev ex_bsys1, b_files := excl_file # b_files ex_bsys\<rparr>)
      (ex_bsys1\<lparr>b_dev := backfire_release excl_file (b_dev ex_bsys1), b_files := []\<rparr>)"
    using dev_release [of ex_bsys1 "[]" excl_file "[]"] by (simp add: ex_bsys1_def ex_bsys_def)
  then show ?thesis
    using exclusive_open_blocks_forever [OF ex_reach0 _ ex_open r_into_rtranclp, of
      "ex_bsys1\<lparr>b_dev := backfire_release excl_file (b_dev ex_bsys1), b_files := []\<rparr>"
      "\<lparr>f_excl = False, f_write = False\<rparr>"]
    by (simp add: excl_file_def)
qed

section \<open>sendme\<close>

text \<open>
  The client's options, from what \<open>getopt_long\<close> delivers; \<open>None\<close> when it shows its usage and exits.
\<close>

datatype sm_affinity = SmUnspecified | SmSpecified int | SmUseCurrent

record sm_opts =
  sm_affinity :: sm_affinity
  sm_tracelimit :: int
  sm_priority :: int
  sm_max_cycles :: int
  sm_interval :: int
  sm_error :: bool

datatype sm_opt = SmA "string option" "string option" | SmB string | SmI string | SmL string | SmP string | SmHelp

definition sendme_option :: "sm_opt \<Rightarrow> sm_opts \<Rightarrow> sm_opts" where
  "sendme_option opt p =
     (case opt of
        SmA (Some a) nx \<Rightarrow> p\<lparr>sm_affinity := SmSpecified (atoi a)\<rparr>
      | SmA None nx \<Rightarrow>
          (case nx of
             Some a \<Rightarrow> if atoi a \<noteq> 0 then p\<lparr>sm_affinity := SmSpecified (atoi a)\<rparr>
                       else p\<lparr>sm_affinity := SmUseCurrent\<rparr>
           | None \<Rightarrow> p\<lparr>sm_affinity := SmUseCurrent\<rparr>)
      | SmB a \<Rightarrow> p\<lparr>sm_tracelimit := atoi a\<rparr>
      | SmI a \<Rightarrow> p\<lparr>sm_interval := atoi a\<rparr>
      | SmL a \<Rightarrow> p\<lparr>sm_max_cycles := atoi a\<rparr>
      | SmP a \<Rightarrow> p\<lparr>sm_priority := atoi a\<rparr>
      | SmHelp \<Rightarrow> p\<lparr>sm_error := True\<rparr>)"

definition sendme_options :: "int \<Rightarrow> sm_opt list \<Rightarrow> sm_opts option" where
  "sendme_options max_cpus opts =
     (let p = fold sendme_option opts
            \<lparr>sm_affinity = SmUnspecified, sm_tracelimit = 0, sm_priority = 0, sm_max_cycles = 0,
             sm_interval = 1000, sm_error = False\<rparr>;
          bad_cpu = (case sm_affinity p of SmSpecified a \<Rightarrow> a < 0 \<or> a \<ge> max_cpus | _ \<Rightarrow> False)
      in if sm_error p \<or> bad_cpu \<or> sm_priority p < 0 \<or> sm_priority p > 99 then None else Some p)"

text \<open>
  One direction's statistics. The bounds are \<open>unsigned int\<close>, the comparisons are made in
  \<open>long\<close>. The sum stands for the \<open>double\<close>. Only the microseconds of a difference are recorded.
\<close>

record sm_stat =
  ss_min :: int
  ss_max :: int
  ss_sum :: int

definition sm_record :: "int \<Rightarrow> sm_stat \<Rightarrow> sm_stat" where
  "sm_record usec s =
     (let s1 = (if usec < ss_min s then s\<lparr>ss_min := u32 usec\<rparr> else s);
          s2 = (if usec > ss_max s1 then s1\<lparr>ss_max := u32 usec\<rparr> else s1)
      in s2\<lparr>ss_sum := ss_sum s2 + usec\<rparr>)"

text \<open>The rounded average \<open>(int) (sum / n + 0.5)\<close>.\<close>

definition sm_average :: "int \<Rightarrow> int \<Rightarrow> int" where
  "sm_average sm n = (2 * sm + n) sdiv (2 * n)"

record sm_state =
  sx_diffno :: int
  sx_shutdown :: int
  sx_to :: sm_stat
  sx_from :: sm_stat

text \<open>What one round sees: the time before, the device's time stamp if it could be read, the
  handler's time, and whether the handler asked for a shutdown.\<close>

record sm_in =
  si_before :: timeval
  si_stamp :: "timeval option"
  si_after :: timeval
  si_stop :: int

definition sendme_round :: "sm_opts \<Rightarrow> sm_in \<Rightarrow> sm_state \<Rightarrow> bool \<times> sm_state" where
  "sendme_round p i st =
     (case si_stamp i of
        None \<Rightarrow> (False, st)
      | Some sendtime \<Rightarrow>
          let diffno = u32 (sx_diffno st + 1);
              sh0 = (if si_stop i \<noteq> 0 then 1 else sx_shutdown st);
              sh = (if sm_max_cycles p \<noteq> 0 \<and> diffno \<ge> u32 (sm_max_cycles p) then 1 else sh0);
              d1 = timersub sendtime (si_before i);
              d2 = timersub (si_after i) sendtime;
              st1 = st\<lparr>sx_diffno := diffno, sx_shutdown := sh, sx_to := sm_record (tvl_usec d1) (sx_to st),
                       sx_from := sm_record (tvl_usec d2) (sx_from st)\<rparr>
          in (\<not> ((sm_tracelimit p \<noteq> 0 \<and> tvl_usec d2 > sm_tracelimit p) \<or> sh \<noteq> 0), st1))"

text \<open>The loop; the flag says whether it is still running when the input is used up.\<close>

fun sendme_loop :: "sm_opts \<Rightarrow> sm_in list \<Rightarrow> sm_state \<Rightarrow> bool \<times> sm_state" where
  "sendme_loop p [] st = (True, st)"
| "sendme_loop p (i # is) st =
     (case sendme_round p i st of
        (True, st1) \<Rightarrow> sendme_loop p is st1
      | (False, st1) \<Rightarrow> (False, st1))"

definition sm_wf :: "sm_stat \<Rightarrow> bool" where
  "sm_wf s \<longleftrightarrow> 0 \<le> ss_min s \<and> 0 \<le> ss_max s"

interpretation smstat: latency_stats sm_record ss_min ss_max ss_sum usec_ok sm_wf
  by unfold_locales (auto simp: sm_record_def Let_def usec_ok_def sm_wf_def c_int min_def max_def)

lemma sm_average_rounds:
  assumes "0 \<le> s" and "0 < n"
  shows "\<bar>2 * (s - n * sm_average s n)\<bar> \<le> n"
proof -
  have q: "sm_average s n = (2 * s + n) div (2 * n)"
    unfolding sm_average_def using assms by (intro sdiv_nonneg) auto
  have "2 * s + n = 2 * (n * sm_average s n) + (2 * s + n) mod (2 * n)"
    unfolding q by (metis mult.assoc mult_div_mod_eq)
  moreover have "0 \<le> (2 * s + n) mod (2 * n)" "(2 * s + n) mod (2 * n) < 2 * n"
    using assms(2) by simp_all
  ultimately show ?thesis by (simp add: right_diff_distrib)
qed

text \<open>The microseconds one round records in each direction.\<close>

definition to_usec :: "sm_in \<Rightarrow> int" where
  "to_usec i = tvl_usec (timersub (the (si_stamp i)) (si_before i))"

definition from_usec :: "sm_in \<Rightarrow> int" where
  "from_usec i = tvl_usec (timersub (si_after i) (the (si_stamp i)))"

definition sm_in_ok :: "sm_in \<Rightarrow> bool" where
  "sm_in_ok i \<longleftrightarrow> (\<exists>t. si_stamp i = Some t \<and> tv_normal t) \<and> tv_normal (si_before i) \<and> tv_normal (si_after i)"

lemma round_usec_ok: "sm_in_ok i \<Longrightarrow> usec_ok (to_usec i) \<and> usec_ok (from_usec i)"
  by (auto simp: sm_in_ok_def to_usec_def from_usec_def tv_normal_def timersub_usec)

lemma sendme_round_records:
  assumes "sm_in_ok i" and "0 \<le> sx_diffno st" and "sx_diffno st < 4294967295" and "sendme_round p i st = (b, st1)"
  shows "sx_diffno st1 = sx_diffno st + 1 \<and> sx_to st1 = sm_record (to_usec i) (sx_to st) \<and>
    sx_from st1 = sm_record (from_usec i) (sx_from st)"
  using assms by (auto simp: sendme_round_def sm_in_ok_def to_usec_def from_usec_def Let_def c_int)

lemma sendme_loop_records:
  assumes "\<forall>i \<in> set ins. sm_in_ok i" and "0 \<le> sx_diffno st" and "sx_diffno st + int (length ins) < 4294967296"
    and "sendme_loop p ins st = (b, st1)"
  shows "\<exists>k \<le> length ins. (ins \<noteq> [] \<longrightarrow> 0 < k) \<and> (b \<longrightarrow> k = length ins) \<and> sx_diffno st1 = sx_diffno st + int k \<and>
    sx_to st1 = fold sm_record (map to_usec (take k ins)) (sx_to st) \<and>
    sx_from st1 = fold sm_record (map from_usec (take k ins)) (sx_from st)"
  using assms
proof (induction ins arbitrary: st)
  case (Cons i ins)
  obtain c st2 where r: "sendme_round p i st = (c, st2)" by (cases "sendme_round p i st") blast
  have rec: "sx_diffno st2 = sx_diffno st + 1 \<and> sx_to st2 = sm_record (to_usec i) (sx_to st) \<and>
      sx_from st2 = sm_record (from_usec i) (sx_from st)"
    using sendme_round_records [OF _ _ _ r] Cons.prems by simp
  show ?case
  proof (cases c)
    case True
    then have "sendme_loop p ins st2 = (b, st1)" using Cons.prems r by simp
    then obtain k where "k \<le> length ins" "b \<longrightarrow> k = length ins" "sx_diffno st1 = sx_diffno st2 + int k"
      "sx_to st1 = fold sm_record (map to_usec (take k ins)) (sx_to st2)"
      "sx_from st1 = fold sm_record (map from_usec (take k ins)) (sx_from st2)"
      using Cons.IH [of st2] Cons.prems rec by auto
    then show ?thesis using rec by (intro exI [of _ "Suc k"]) simp
  next
    case False
    then have "\<not> b \<and> st1 = st2" using Cons.prems r by simp
    then show ?thesis using rec by (intro exI [of _ 1]) simp
  qed
qed simp

lemma fold_sm_stats:
  assumes "\<forall>d \<in> set ds. usec_ok d" and "ds \<noteq> []" and "s0 = \<lparr>ss_min = 4294967295, ss_max = 0, ss_sum = 0\<rparr>"
  shows "ss_min (fold sm_record ds s0) = Min (set ds) \<and> ss_max (fold sm_record ds s0) = Max (set ds) \<and>
    \<bar>2 * (sum_list ds - int (length ds) * sm_average (ss_sum (fold sm_record ds s0)) (int (length ds)))\<bar> \<le> int (length ds)"
proof -
  have wf: "sm_wf s0" using assms(3) by (simp add: sm_wf_def)
  have "ss_sum (fold sm_record ds s0) = sum_list ds"
    using smstat.fold_sm [OF wf assms(1)] assms(3) by simp
  moreover have "0 \<le> sum_list ds" using assms(1) by (intro sum_list_nonneg) (simp add: usec_ok_def)
  ultimately have "\<bar>2 * (sum_list ds - int (length ds) * sm_average (ss_sum (fold sm_record ds s0)) (int (length ds)))\<bar> \<le> int (length ds)"
    using sm_average_rounds [of "sum_list ds" "int (length ds)"] assms(2) by simp
  moreover have "ss_min (fold sm_record ds s0) = Min (set ds)"
    using assms by (intro smstat.fold_mn_Min [OF wf]) (auto simp: usec_ok_def)
  moreover have "ss_max (fold sm_record ds s0) = Max (set ds)"
    using assms by (intro smstat.fold_mx_Max [OF wf]) (auto simp: usec_ok_def)
  ultimately show ?thesis by simp
qed

definition sm_start :: sm_state where
  "sm_start = \<lparr>sx_diffno = 0, sx_shutdown = 0, sx_to = \<lparr>ss_min = 4294967295, ss_max = 0, ss_sum = 0\<rparr>,
     sx_from = \<lparr>ss_min = 4294967295, ss_max = 0, ss_sum = 0\<rparr>\<rparr>"

definition stat_of :: "int list \<Rightarrow> sm_stat \<Rightarrow> int \<Rightarrow> bool" where
  "stat_of ds s n \<longleftrightarrow> n = int (length ds) \<and> ss_min s = Min (set ds) \<and> ss_max s = Max (set ds) \<and>
     \<bar>2 * (sum_list ds - n * sm_average (ss_sum s) n)\<bar> \<le> n"

lemma sendme_loop_stats:
  assumes "\<forall>i \<in> set ins. sm_in_ok i" and "ins \<noteq> []" and "int (length ins) < 4294967296"
    and "sendme_loop p ins sm_start = (b, st)"
  shows "\<exists>k. 0 < k \<and> k \<le> length ins \<and> (b \<longrightarrow> k = length ins) \<and>
    stat_of (map to_usec (take k ins)) (sx_to st) (sx_diffno st) \<and>
    stat_of (map from_usec (take k ins)) (sx_from st) (sx_diffno st)"
proof -
  obtain k where k: "k \<le> length ins" "0 < k" "b \<longrightarrow> k = length ins" "sx_diffno st = int k"
    "sx_to st = fold sm_record (map to_usec (take k ins)) (sx_to sm_start)"
    "sx_from st = fold sm_record (map from_usec (take k ins)) (sx_from sm_start)"
    using sendme_loop_records [OF assms(1) _ _ assms(4)] assms(2,3) by (auto simp: sm_start_def)
  have "i \<in> set ins" if "i \<in> set (take k ins)" for i using that by (rule in_set_takeD)
  then have ok: "\<forall>d \<in> set (map to_usec (take k ins)). usec_ok d" "\<forall>d \<in> set (map from_usec (take k ins)). usec_ok d"
    using assms(1) round_usec_ok by auto
  have ne: "map to_usec (take k ins) \<noteq> []" "map from_usec (take k ins) \<noteq> []" using k assms(2) by auto
  show ?thesis
    using fold_sm_stats [OF ok(1) ne(1), of "sx_to sm_start"] fold_sm_stats [OF ok(2) ne(2), of "sx_from sm_start"] k
    by (intro exI [of _ k]) (simp add: stat_of_def sm_start_def)
qed

text \<open>
  When the loop of the client ends, or at any time before, its two statistics are the minimum
  and maximum of the microseconds of the rounds made so far, in each direction, and the
  printed average is their mean rounded to the nearest integer.
\<close>

theorem sendme_statistics:
  assumes "\<forall>i \<in> set ins. sm_in_ok i" and "ins \<noteq> []" and "int (length ins) < 4294967296"
    and "sendme_loop p ins sm_start = (b, st)"
  shows "\<exists>k. 0 < k \<and> k \<le> length ins \<and> (b \<longrightarrow> k = length ins) \<and>
    stat_of (map to_usec (take k ins)) (sx_to st) (sx_diffno st) \<and>
    stat_of (map from_usec (take k ins)) (sx_from st) (sx_diffno st)"
  by (rule sendme_loop_stats [OF assms])

definition ex_sm_in :: "int \<Rightarrow> sm_in" where
  "ex_sm_in d = \<lparr>si_before = \<lparr>tvl_sec = 1, tvl_usec = 999990\<rparr>, si_stamp = Some \<lparr>tvl_sec = 2, tvl_usec = d\<rparr>,
     si_after = \<lparr>tvl_sec = 2, tvl_usec = 2 * d\<rparr>, si_stop = 0\<rparr>"

definition ex_sm_opts :: sm_opts where
  "ex_sm_opts = \<lparr>sm_affinity = SmUnspecified, sm_tracelimit = 0, sm_priority = 0, sm_max_cycles = 2,
     sm_interval = 1000, sm_error = False\<rparr>"

lemma ex_sendme_loop:
  "fst (sendme_loop ex_sm_opts [ex_sm_in 8, ex_sm_in 5, ex_sm_in 7] sm_start) = False"
  "sx_diffno (snd (sendme_loop ex_sm_opts [ex_sm_in 8, ex_sm_in 5, ex_sm_in 7] sm_start)) = 2"
  by (code_simp, code_simp)

theorem sendme_statistics_witness:
  "stat_of [18, 15] (sx_to (snd (sendme_loop ex_sm_opts [ex_sm_in 8, ex_sm_in 5, ex_sm_in 7] sm_start))) 2"
proof -
  let ?ins = "[ex_sm_in 8, ex_sm_in 5, ex_sm_in 7]"
  have ok: "\<forall>i \<in> set ?ins. sm_in_ok i" by (simp add: ex_sm_in_def sm_in_ok_def tv_normal_def)
  have "int (length ?ins) < 4294967296" by simp
  with sendme_statistics [OF ok _ _ surjective_pairing]
  obtain k where k: "stat_of (map to_usec (take k ?ins)) (sx_to (snd (sendme_loop ex_sm_opts ?ins sm_start)))
      (sx_diffno (snd (sendme_loop ex_sm_opts ?ins sm_start)))" "k \<le> length ?ins" by blast
  have "k = 2" using k unfolding stat_of_def ex_sendme_loop by simp
  moreover have "map to_usec (take 2 ?ins) = [18, 15]" by code_simp
  ultimately show ?thesis using k(1) by (simp only: ex_sendme_loop)
qed

end
