(* ===== verification/SendmeMain.thy ===== *)
theory SendmeMain
  imports Backfire RtUtils
begin

text \<open>
  The rest of sendme (\<^verbatim>\<open>src/backfire/sendme.c\<close>): its access to the tracing switch, the signal handler, the set-up in
  \<open>main\<close> with the exits, and the client put together with the driver of \<open>Backfire\<close>: what the two measure.
\<close>

section \<open>kernvar and the handler\<close>

datatype kv_mode = RdOnly | WrOnly

text \<open>
  The result with what is stored in \<open>value\<close> and the kernel behind it. The files are a parameter: \<open>rd\<close> is what a read
  of at most so many bytes delivers, \<open>None\<close> when the file cannot be opened or read, \<open>wr\<close> a write, \<open>None\<close> when it fails
  or is incomplete.
\<close>

definition sm_kernvar ::
  "('k \<Rightarrow> string \<Rightarrow> nat \<Rightarrow> string option) \<Rightarrow> (string \<Rightarrow> string \<Rightarrow> 'k \<Rightarrow> 'k option) \<Rightarrow> string \<Rightarrow> kv_mode \<Rightarrow> string \<Rightarrow>
   string \<Rightarrow> nat \<Rightarrow> 'k \<Rightarrow> int \<times> string option \<times> 'k" where
  "sm_kernvar rd wr fileprefix mode name v n k =
     (if length fileprefix + length name + 1 > 128 then (1, None, k)
      else case mode of
             RdOnly \<Rightarrow> (case rd k (fileprefix @ name) n of
                          Some got \<Rightarrow> if got = [] then (1, None, k) else (0, Some (butlast got), k)
                        | None \<Rightarrow> (1, None, k))
           | WrOnly \<Rightarrow> (case wr (fileprefix @ name) (take n v) k of
                          Some k1 \<Rightarrow> (0, None, k1)
                        | None \<Rightarrow> (1, None, k)))"

text \<open>The handler: the time it notes and whether it asks for the end.\<close>

definition sm_signalhandler :: "int \<Rightarrow> timeval \<Rightarrow> timeval \<times> int \<Rightarrow> timeval \<times> int" where
  "sm_signalhandler signo now s = (now, if signo = 2 \<or> signo = 15 then 1 else snd s)"

section \<open>main\<close>

record sm_env =
  se_privs :: int
  se_mlockall :: int
  se_getcpu :: int
  se_setaffinity :: int
  se_open :: int
  se_setlk :: int

datatype sm_call =
    SmPrivs | SmMlockall | SmFifo int | SmGetCpuSetup | SmPin int | SmNotPinned int | SmOpenDev | SmNoDevice
  | SmSetlk | SmDevLocked | SmTracing string | SmHandlers "int list" | SmClose

text \<open>The result of \<open>sched_setscheduler\<close> is ignored; a failing \<open>sched_setaffinity\<close> is warned of.\<close>

definition sm_pin :: "sm_opts \<Rightarrow> sm_env \<Rightarrow> sm_call list" where
  "sm_pin p e =
     (case sm_affinity p of
        SmUnspecified \<Rightarrow> []
      | SmSpecified c \<Rightarrow> SmPin c # (if se_setaffinity e = - 1 then [SmNotPinned c] else [])
      | SmUseCurrent \<Rightarrow>
          SmGetCpuSetup # SmPin (se_getcpu e) # (if se_setaffinity e = - 1 then [SmNotPinned (se_getcpu e)] else []))"

text \<open>Whether the loop was left behind a measurement, not because the time could not be read.\<close>

fun sm_stopped :: "sm_opts \<Rightarrow> sm_in list \<Rightarrow> sm_state \<Rightarrow> bool" where
  "sm_stopped p [] st = False"
| "sm_stopped p (i # is) st =
     (si_stamp i \<noteq> None \<and>
      (case sendme_round p i st of (True, st1) \<Rightarrow> sm_stopped p is st1 | (False, _) \<Rightarrow> True))"

text \<open>The calls, the statistics and the status, \<open>None\<close> while the loop still runs.\<close>

definition sendme_main :: "sm_opts \<Rightarrow> sm_env \<Rightarrow> sm_in list \<Rightarrow> sm_call list \<times> sm_state \<times> int option" where
  "sendme_main p e rounds =
     (let pre = [SmPrivs, SmMlockall, SmFifo (sm_priority p)] @ sm_pin p e @ [SmOpenDev]
      in if se_privs e \<noteq> 0 then ([SmPrivs], sm_start, Some 1)
         else if se_mlockall e = - 1 then ([SmPrivs, SmMlockall], sm_start, Some 1)
         else if se_open e < 0 then (pre @ [SmNoDevice], sm_start, Some 1)
         else if se_setlk e = - 1 then (pre @ [SmSetlk, SmDevLocked, SmClose], sm_start, Some 1)
         else case sendme_loop p rounds sm_start of
                (running, st) \<Rightarrow>
                  (pre @ [SmSetlk] @ (if sm_tracelimit p \<noteq> 0 then [SmTracing ''1''] else []) @ [SmHandlers [1, 2, 15]] @
                   (if running then []
                    else (if sm_tracelimit p \<noteq> 0 \<and> sm_stopped p rounds sm_start then [SmTracing ''0''] else []) @
                         [SmClose]),
                   st, if running then None else Some 0))"

section \<open>Client and driver\<close>

text \<open>The text the driver prints for a read, and what the client scans with \<open>"%lu,%lu"\<close>.\<close>

definition backfire_text :: "backfire \<Rightarrow> string" where
  "backfire_text d = (case backfire_read d of (a, b) \<Rightarrow> sdec a @ '','' @ sdec b @ [CHR 0x0A])"

definition scan_ulong :: "string \<Rightarrow> (int \<times> string) option" where
  "scan_ulong s =
     (let t = dropWhile isspace s;
          u = (if t \<noteq> [] \<and> (hd t = CHR ''-'' \<or> hd t = CHR ''+'') then tl t else t)
      in if u = [] \<or> digit_val (hd u) = None then None
         else case strtoul10 s of (v, r, _) \<Rightarrow> Some (v, r))"

definition sm_scan :: "string \<Rightarrow> timeval option" where
  "sm_scan s =
     do { (a, r) \<leftarrow> scan_ulong s;
          if r \<noteq> [] \<and> hd r = CHR '',''
          then do { (b, _) \<leftarrow> scan_ulong (tl r); Some \<lparr>tvl_sec = s64 a, tvl_usec = s64 b\<rparr> }
          else None }"

text \<open>
  The clock as it is read by the client before it writes, by the driver, and by the handler. The client writes the
  number of \<open>SIGHUP\<close>, gets the signal, and reads the driver's time. \<open>None\<close> when no signal is sent: the client
  then waits for ever.
\<close>

record sm_clock =
  ck_before :: timeval
  ck_send :: timeval
  ck_after :: timeval
  ck_stop :: int

definition device_round :: "sm_clock \<Rightarrow> backfire \<Rightarrow> (sm_in \<times> backfire) option" where
  "device_round c d =
     (case backfire_write (ck_send c) (sdec 1) d of
        (_, None, d1) \<Rightarrow> None
      | (_, Some signo, d1) \<Rightarrow>
          (case sm_signalhandler signo (ck_after c) (\<lparr>tvl_sec = 0, tvl_usec = 0\<rparr>, ck_stop c) of
             (after, stop) \<Rightarrow>
               Some (\<lparr>si_before = ck_before c, si_stamp = sm_scan (backfire_text d1), si_after = after, si_stop = stop\<rparr>,
                     d1)))"

fun device_rounds :: "sm_clock list \<Rightarrow> backfire \<Rightarrow> sm_in list option" where
  "device_rounds [] d = Some []"
| "device_rounds (c # cs) d =
     do { (i, d1) \<leftarrow> device_round c d; is \<leftarrow> device_rounds cs d1; Some (i # is) }"

section \<open>The time the client reads is the driver's\<close>

lemma read_digits_stop:
  "read_digits acc xs = (v, []) \<Longrightarrow> digit_val c = None \<Longrightarrow> read_digits acc (xs @ c # r) = (v, c # r)"
  by (induction xs arbitrary: acc) (auto split: option.splits)

lemma scan_dec:
  assumes "n < 2147483648" "digit_val c = None"
  shows "scan_ulong (dec n @ c # r) = Some (int n, c # r)"
proof -
  obtain k :: nat and xs where k: "k < 10" "dec n = char_of (48 + k) # xs" using hd_dec by blast
  have ch: "\<not> isspace (char_of (48 + k))" "char_of (48 + k) \<noteq> CHR ''-''" "char_of (48 + k) \<noteq> CHR ''+''"
    using digit_not_space k(1) by (simp_all add: list_all_iff del: upt_Suc)
  have rd: "read_digits 0 (char_of (48 + k) # xs @ c # r) = (int n, c # r)"
    using read_digits_stop [OF read_dec assms(2), of n r] k(2) by simp
  have "strtoul10 (dec n @ c # r) = (int n, c # r, False)"
    unfolding k(2) strtoul10_def using ch digit_val_dec [OF k(1)] rd assms(1) by (simp add: Let_def ULONG_MAX_def)
  then show ?thesis
    unfolding scan_ulong_def using ch digit_val_dec [OF k(1)] by (simp add: k(2) Let_def)
qed

text \<open>Times the driver can print and the client scan: until 2038.\<close>

definition tv_printable :: "timeval \<Rightarrow> bool" where
  "tv_printable t \<longleftrightarrow> 0 \<le> tvl_sec t \<and> tvl_sec t < 2147483648 \<and> tv_normal t"

lemma scan_text:
  assumes "tv_printable (bf_sendtime d)"
  shows "sm_scan (backfire_text d) = Some (bf_sendtime d)"
proof -
  obtain a b where t: "bf_sendtime d = \<lparr>tvl_sec = int a, tvl_usec = int b\<rparr>" "a < 2147483648" "b < 1000000"
    using assms by (cases "bf_sendtime d") (metis nonneg_int_cases of_nat_less_numeral_iff
      timeval.select_convs tv_normal_def tv_printable_def)
  have nd: "digit_val CHR '','' = None" "digit_val CHR 0x0A = None" by (simp_all add: digit_val_def)
  have fit: "s32 (int a) = int a" "s32 (int b) = int b" "s64 (int a) = int a" "s64 (int b) = int b"
    using t by (simp_all add: c_int)
  show ?thesis
    unfolding sm_scan_def backfire_text_def backfire_read_def
    using scan_dec [OF t(2) nd(1), of "dec b @ [CHR 0x0A]"] scan_dec [of b "CHR 0x0A" "[]"] t nd(2) fit
    by (simp add: sdec_def)
qed

section \<open>What sendme measures\<close>

definition usecs :: "timeval \<Rightarrow> int" where
  "usecs t = 1000000 * tvl_sec t + tvl_usec t"

definition send_delay :: "sm_clock \<Rightarrow> int" where
  "send_delay c = usecs (ck_send c) - usecs (ck_before c)"

definition signal_delay :: "sm_clock \<Rightarrow> int" where
  "signal_delay c = usecs (ck_after c) - usecs (ck_send c)"

text \<open>The readings are times of day, in order, and each way takes less than a second.\<close>

definition clock_ok :: "sm_clock \<Rightarrow> bool" where
  "clock_ok c \<longleftrightarrow> tv_normal (ck_before c) \<and> tv_printable (ck_send c) \<and> tv_normal (ck_after c) \<and>
     usec_ok (send_delay c) \<and> usec_ok (signal_delay c)"

lemma scan_sighup: "scan_int (sdec 1) = Some 1"
  by code_simp

lemma device_round_stamp:
  assumes "tv_printable (ck_send c)"
  shows "device_round c d =
    Some (\<lparr>si_before = ck_before c, si_stamp = Some (ck_send c), si_after = ck_after c, si_stop = ck_stop c\<rparr>,
          d\<lparr>bf_sendtime := ck_send c\<rparr>)"
  using assms scan_text [of "d\<lparr>bf_sendtime := ck_send c\<rparr>"]
  by (simp add: device_round_def backfire_write_def scan_sighup sm_signalhandler_def)

lemma timersub_exact:
  assumes "tv_normal a" "tv_normal b" "usec_ok (usecs a - usecs b)"
  shows "tvl_usec (timersub a b) = usecs a - usecs b"
proof -
  have same: "u = x" if "1000000 * s + u = x" "0 \<le> u" "u < 1000000" "0 \<le> x" "x < 1000000" for s u x :: int
    using that by (cases s "0 :: int" rule: linorder_cases) simp_all
  have "1000000 * tvl_sec (timersub a b) + tvl_usec (timersub a b) = usecs a - usecs b"
    "usec_ok (tvl_usec (timersub a b))"
    using assms(1,2) timersub_usec [of a b] by (simp_all add: tv_normal_def usecs_def)
  then show ?thesis using assms(3) unfolding usec_ok_def by (blast intro: same)
qed

lemma device_rounds_all:
  assumes "\<forall>c \<in> set cs. clock_ok c"
  shows "\<exists>ins. device_rounds cs d = Some ins \<and> (\<forall>i \<in> set ins. sm_in_ok i) \<and> length ins = length cs \<and>
    map to_usec ins = map send_delay cs \<and> map from_usec ins = map signal_delay cs"
  using assms
proof (induction cs arbitrary: d)
  case (Cons c cs)
  obtain ins where ins: "device_rounds cs (d\<lparr>bf_sendtime := ck_send c\<rparr>) = Some ins" "\<forall>i \<in> set ins. sm_in_ok i"
    "length ins = length cs" "map to_usec ins = map send_delay cs" "map from_usec ins = map signal_delay cs"
    using Cons.IH [of "d\<lparr>bf_sendtime := ck_send c\<rparr>"] Cons.prems by auto
  have ck: "tv_normal (ck_before c)" "tv_printable (ck_send c)" "tv_normal (ck_after c)"
    "usec_ok (send_delay c)" "usec_ok (signal_delay c)"
    using Cons.prems by (simp_all add: clock_ok_def)
  have sn: "tv_normal (ck_send c)" using ck(2) by (simp add: tv_printable_def)
  let ?i = "\<lparr>si_before = ck_before c, si_stamp = Some (ck_send c), si_after = ck_after c, si_stop = ck_stop c\<rparr>"
  have "sm_in_ok ?i" using ck sn by (simp add: sm_in_ok_def)
  moreover have "to_usec ?i = send_delay c"
    using timersub_exact [OF sn ck(1)] ck(4) by (simp add: to_usec_def send_delay_def)
  moreover have "from_usec ?i = signal_delay c"
    using timersub_exact [OF ck(3) sn] ck(5) by (simp add: from_usec_def signal_delay_def)
  moreover have "device_rounds (c # cs) d = Some (?i # ins)"
    using ins(1) device_round_stamp [OF ck(2), of d] by simp
  ultimately show ?case using ins by simp
qed simp

text \<open>
  C34: put together with the driver, sendme measures what it is meant to: when the two ways of every round take less than
  a second, its statistics at any time are the smallest, the largest and the rounded mean delay between writing to the
  device and the driver's sending, and between the sending and the handler.
\<close>

theorem sendme_measures_delays:
  assumes "\<forall>c \<in> set cs. clock_ok c" "cs \<noteq> []" "int (length cs) < 4294967296" "device_rounds cs d = Some ins"
    "se_privs e = 0" "se_mlockall e \<noteq> - 1" "0 \<le> se_open e" "se_setlk e \<noteq> - 1" "sendme_main p e ins = (calls, st, r)"
  shows "\<exists>k. 0 < k \<and> k \<le> length cs \<and> (r = None \<longrightarrow> k = length cs) \<and> (r \<noteq> None \<longrightarrow> r = Some 0) \<and>
    stat_of (map send_delay (take k cs)) (sx_to st) (sx_diffno st) \<and>
    stat_of (map signal_delay (take k cs)) (sx_from st) (sx_diffno st)"
proof -
  obtain b st' where l: "sendme_loop p ins sm_start = (b, st')" by fastforce
  then have m: "st = st'" "r = (if b then None else Some 0)"
    using assms(5-9) by (auto simp: sendme_main_def Let_def split: if_splits)
  have ins: "\<forall>i \<in> set ins. sm_in_ok i" "length ins = length cs" "map to_usec ins = map send_delay cs"
    "map from_usec ins = map signal_delay cs"
    using device_rounds_all [OF assms(1), of d] assms(4) by auto
  have "ins \<noteq> []" "int (length ins) < 4294967296" using ins(2) assms(2,3) by auto
  from sendme_loop_stats [OF ins(1) this l]
  obtain k where k: "0 < k" "k \<le> length ins" "b \<longrightarrow> k = length ins"
    "stat_of (map to_usec (take k ins)) (sx_to st') (sx_diffno st')"
    "stat_of (map from_usec (take k ins)) (sx_from st') (sx_diffno st')" by blast
  then show ?thesis
    using m ins by (intro exI [of _ k]) (auto simp: take_map [symmetric])
qed

definition ex_clock :: "int \<Rightarrow> sm_clock" where
  "ex_clock d = \<lparr>ck_before = \<lparr>tvl_sec = 1, tvl_usec = 999990\<rparr>, ck_send = \<lparr>tvl_sec = 2, tvl_usec = d\<rparr>,
     ck_after = \<lparr>tvl_sec = 2, tvl_usec = 3 * d\<rparr>, ck_stop = 0\<rparr>"

definition ex_bf :: backfire where
  "ex_bf = \<lparr>bf_open_cnt = 1, bf_open_mode = 1, bf_sendtime = \<lparr>tvl_sec = 0, tvl_usec = 0\<rparr>\<rparr>"

definition ex_se :: sm_env where
  "ex_se = \<lparr>se_privs = 0, se_mlockall = 0, se_getcpu = 0, se_setaffinity = 0, se_open = 3, se_setlk = 0\<rparr>"

theorem sendme_measures_delays_witness:
  "\<exists>st r. sendme_main ex_sm_opts ex_se (the (device_rounds [ex_clock 8] ex_bf)) = (fst
      (sendme_main ex_sm_opts ex_se (the (device_rounds [ex_clock 8] ex_bf))), st, r) \<and>
    stat_of [18] (sx_to st) (sx_diffno st) \<and> stat_of [16] (sx_from st) (sx_diffno st)"
proof -
  have ok: "\<forall>c \<in> set [ex_clock 8]. clock_ok c"
    by (simp add: ex_clock_def clock_ok_def tv_printable_def tv_normal_def usec_ok_def send_delay_def
        signal_delay_def usecs_def)
  obtain ins where ins: "device_rounds [ex_clock 8] ex_bf = Some ins" using device_rounds_all [OF ok, of ex_bf] by blast
  obtain calls st r where m: "sendme_main ex_sm_opts ex_se ins = (calls, st, r)"
    by (cases "sendme_main ex_sm_opts ex_se ins") blast
  have delays: "map send_delay [ex_clock 8] = [18]" "map signal_delay [ex_clock 8] = [16]"
    by (simp_all add: ex_clock_def send_delay_def signal_delay_def usecs_def)
  have "\<exists>k. 0 < k \<and> k \<le> length [ex_clock 8] \<and> (r = None \<longrightarrow> k = length [ex_clock 8]) \<and> (r \<noteq> None \<longrightarrow> r = Some 0) \<and>
    stat_of (map send_delay (take k [ex_clock 8])) (sx_to st) (sx_diffno st) \<and>
    stat_of (map signal_delay (take k [ex_clock 8])) (sx_from st) (sx_diffno st)"
    by (rule sendme_measures_delays [OF ok _ _ ins _ _ _ _ m]) (simp_all add: ex_se_def)
  then obtain k where k: "0 < k" "k \<le> 1" "stat_of (map send_delay (take k [ex_clock 8])) (sx_to st) (sx_diffno st)"
    "stat_of (map signal_delay (take k [ex_clock 8])) (sx_from st) (sx_diffno st)"
    unfolding length_Cons list.size by (elim exE conjE) simp
  then have "k = 1" by simp
  then show ?thesis using k(3,4) ins m delays by auto
qed

text \<open>
  The exits of \<open>main\<close>: status 1 exactly when a step of the set-up fails, and the lock is only asked for on an open device;
  the tracing switch is set back when a measurement ended the loop, but left on when the time could not be read.
\<close>

theorem sendme_exit_status:
  assumes "sendme_main p e rounds = (calls, st, r)"
  shows "(r = Some 1 \<longleftrightarrow> se_privs e \<noteq> 0 \<or> se_mlockall e = - 1 \<or> se_open e < 0 \<or> se_setlk e = - 1) \<and>
    (SmSetlk \<in> set calls \<longrightarrow> SmOpenDev \<in> set calls \<and> 0 \<le> se_open e) \<and>
    (SmTracing ''0'' \<in> set calls \<longleftrightarrow> SmTracing ''1'' \<in> set calls \<and> r = Some 0 \<and> sm_stopped p rounds sm_start) \<and>
    (SmClose \<in> set calls \<longleftrightarrow> SmOpenDev \<in> set calls \<and> 0 \<le> se_open e \<and> r \<noteq> None)"
proof -
  have pin: "SmSetlk \<notin> set (sm_pin p e)" "SmTracing v \<notin> set (sm_pin p e)" "SmClose \<notin> set (sm_pin p e)" for v
    by (auto simp: sm_pin_def split: sm_affinity.splits if_splits)
  show ?thesis
    using assms pin by (auto simp: sendme_main_def Let_def split: if_splits prod.splits)
qed

theorem sendme_exit_status_witness:
  "snd (snd (sendme_main ex_sm_opts (ex_se\<lparr>se_setlk := - 1\<rparr>) [])) = Some 1"
  using sendme_exit_status [of ex_sm_opts "ex_se\<lparr>se_setlk := - 1\<rparr>" "[]"]
  by (simp add: ex_se_def prod_eq_iff)

end
