(* ===== verification/Hackbench.thy ===== *)
theory Hackbench
  imports RtPrelude "HOL-Library.Monad_Syntax"
begin

text \<open>
  \<^verbatim>\<open>src/hackbench/hackbench.c\<close>: groups of senders and receivers that pass messages through
  pipes or sockets. Modelled are the loops that write and read a message in pieces, a sender and
  a receiver, the creation of workers and of a group, the signalling and reaping of workers, the
  options and the start of the groups in \<open>main\<close>. The kernel's answer to the \<open>n\<close>-th call that
  asks for \<open>c\<close> bytes is a parameter.
\<close>

section \<open>Messages in pieces\<close>

datatype xfer_result = XferFailed nat | XferDone nat int

text \<open>
  The loop around \<open>write\<close> or \<open>read\<close>: repeat with the rest of the message until all of it is done.
  It need not end (a \<open>read\<close> at the end of the input returns 0 for ever), so it takes fuel; the
  result has the number of the next call.
\<close>

fun xfer :: "(nat \<Rightarrow> int \<Rightarrow> int) \<Rightarrow> nat \<Rightarrow> nat \<Rightarrow> int \<Rightarrow> int \<Rightarrow> xfer_result option" where
  "xfer k 0 n sz got = None"
| "xfer k (Suc fuel) n sz got =
     (let ret = k n (sz - got)
      in if ret < 0 then Some (XferFailed n)
         else if got + ret < sz then xfer k fuel (Suc n) sz (got + ret)
         else Some (XferDone (Suc n) (got + ret)))"

text \<open>A kernel that makes progress and never transfers more than it is asked for.\<close>

definition progressing :: "(nat \<Rightarrow> int \<Rightarrow> int) \<Rightarrow> bool" where
  "progressing k \<longleftrightarrow> (\<forall>n c. 0 < c \<longrightarrow> 1 \<le> k n c \<and> k n c \<le> c)"

lemma xfer_done:
  "progressing k \<Longrightarrow> got < sz \<Longrightarrow> nat (sz - got) \<le> fuel \<Longrightarrow>
     \<exists>n'. xfer k fuel n sz got = Some (XferDone n' sz)"
proof (induction fuel arbitrary: n got)
  case 0
  then show ?case by simp
next
  case (Suc fuel)
  let ?r = "k n (sz - got)"
  have r: "1 \<le> ?r" "?r \<le> sz - got" using Suc.prems(1,2) by (auto simp: progressing_def)
  show ?case
  proof (cases "got + ?r < sz")
    case True
    have "\<exists>n'. xfer k fuel (Suc n) sz (got + ?r) = Some (XferDone n' sz)"
      using True r Suc.prems by (intro Suc.IH) auto
    then show ?thesis using True r by (simp add: Let_def)
  next
    case False
    then have "got + ?r = sz" using r by simp
    then show ?thesis using r by (simp add: Let_def)
  qed
qed

lemma xfer_eof: "\<forall>n c. k n c = 0 \<Longrightarrow> got < sz \<Longrightarrow> xfer k fuel n sz got = None"
  by (induction fuel arbitrary: n) (auto simp: Let_def)

section \<open>Sender and receiver\<close>

text \<open>
  The two nested loops of the sender, as the sequence of descriptors it writes a message to; the
  result pairs each with the bytes it was given.
\<close>

definition send_order :: "nat \<Rightarrow> int list \<Rightarrow> int list" where
  "send_order loops out_fds = concat (replicate loops out_fds)"

fun send_msgs ::
  "(nat \<Rightarrow> int \<Rightarrow> int) \<Rightarrow> nat \<Rightarrow> nat \<Rightarrow> int \<Rightarrow> int list \<Rightarrow> (bool \<times> (int \<times> int) list) option" where
  "send_msgs k fuel n datasize [] = Some (True, [])"
| "send_msgs k fuel n datasize (fd # fds) =
     (case xfer k fuel n datasize 0 of
        None \<Rightarrow> None
      | Some (XferFailed n1) \<Rightarrow> Some (False, [])
      | Some (XferDone n1 b) \<Rightarrow>
          (case send_msgs k fuel n1 datasize fds of
             None \<Rightarrow> None
           | Some (ok, log) \<Rightarrow> Some (ok, (fd, b) # log)))"

definition sender ::
  "(nat \<Rightarrow> int \<Rightarrow> int) \<Rightarrow> nat \<Rightarrow> int \<Rightarrow> nat \<Rightarrow> int list \<Rightarrow> (bool \<times> (int \<times> int) list) option" where
  "sender k fuel datasize loops out_fds = send_msgs k fuel 0 datasize (send_order loops out_fds)"

text \<open>The receiver reads its packets one after the other; the result is the bytes it read.\<close>

fun recv_msgs :: "(nat \<Rightarrow> int \<Rightarrow> int) \<Rightarrow> nat \<Rightarrow> nat \<Rightarrow> int \<Rightarrow> nat \<Rightarrow> (bool \<times> int) option" where
  "recv_msgs k fuel n datasize 0 = Some (True, 0)"
| "recv_msgs k fuel n datasize (Suc packets) =
     (case xfer k fuel n datasize 0 of
        None \<Rightarrow> None
      | Some (XferFailed n1) \<Rightarrow> Some (False, 0)
      | Some (XferDone n1 b) \<Rightarrow>
          (case recv_msgs k fuel n1 datasize packets of
             None \<Rightarrow> None
           | Some (ok, tot) \<Rightarrow> Some (ok, b + tot)))"

definition receiver :: "(nat \<Rightarrow> int \<Rightarrow> int) \<Rightarrow> nat \<Rightarrow> int \<Rightarrow> nat \<Rightarrow> (bool \<times> int) option" where
  "receiver k fuel datasize num_packets = recv_msgs k fuel 0 datasize num_packets"

definition num_packets :: "nat \<Rightarrow> nat \<Rightarrow> nat" where
  "num_packets num_fds loops = num_fds * loops"

definition bytes_to :: "int \<Rightarrow> (int \<times> int) list \<Rightarrow> int" where
  "bytes_to fd log = sum_list (map snd (filter (\<lambda>(f, b). f = fd) log))"

lemma send_msgs_log:
  assumes "progressing k" and "0 < datasize" and "nat datasize \<le> fuel"
  shows "send_msgs k fuel n datasize fds = Some (True, map (\<lambda>fd. (fd, datasize)) fds)"
proof (induction fds arbitrary: n)
  case Nil
  then show ?case by simp
next
  case (Cons fd fds)
  obtain n' where "xfer k fuel n datasize 0 = Some (XferDone n' datasize)"
    using xfer_done [OF assms(1), of 0 datasize fuel n] assms(2,3) by auto
  then show ?case by (simp add: Cons)
qed

lemma recv_msgs_total:
  assumes "progressing k" and "0 < datasize" and "nat datasize \<le> fuel"
  shows "recv_msgs k fuel n datasize p = Some (True, int p * datasize)"
proof (induction p arbitrary: n)
  case 0
  then show ?case by simp
next
  case (Suc p)
  obtain n' where "xfer k fuel n datasize 0 = Some (XferDone n' datasize)"
    using xfer_done [OF assms(1), of 0 datasize fuel n] assms(2,3) by auto
  then show ?case by (simp add: Suc algebra_simps)
qed

lemma bytes_to_absent: "fd \<notin> set fds \<Longrightarrow> bytes_to fd (map (\<lambda>fd. (fd, d)) fds) = 0"
  by (induction fds) (auto simp: bytes_to_def)

lemma bytes_to_distinct:
  "distinct fds \<Longrightarrow> fd \<in> set fds \<Longrightarrow> bytes_to fd (map (\<lambda>fd. (fd, d)) fds) = d"
proof (induction fds)
  case (Cons x fds)
  then show ?case
    using bytes_to_absent [of fd fds d] by (cases "x = fd") (auto simp: bytes_to_def)
qed simp

lemma bytes_to_append: "bytes_to fd (xs @ ys) = bytes_to fd xs + bytes_to fd ys"
  by (simp add: bytes_to_def)

lemma bytes_to_rounds:
  "distinct fds \<Longrightarrow> fd \<in> set fds \<Longrightarrow>
     bytes_to fd (map (\<lambda>fd. (fd, d)) (concat (replicate n fds))) = int n * d"
proof (induction n)
  case 0
  then show ?case by (simp add: bytes_to_def)
next
  case (Suc n)
  then show ?case by (simp add: bytes_to_append bytes_to_distinct algebra_simps)
qed



text \<open>
  A receiver whose input ends early never returns: \<open>read\<close> answers 0, which is neither an
  error nor progress.
\<close>

theorem receiver_spins_at_end_of_input:
  assumes "\<forall>n c. k n c = 0" and "0 < datasize" and "0 < packets"
  shows "receiver k fuel datasize packets = None"
proof -
  have "xfer k fuel 0 datasize 0 = None" using assms by (intro xfer_eof) auto
  then show ?thesis using assms(3) by (cases packets) (simp_all add: receiver_def)
qed

theorem receiver_spins_at_end_of_input_witness: "receiver (\<lambda>n c. 0) 1000000 100 1 = None"
  by (rule receiver_spins_at_end_of_input) simp_all

section \<open>Workers\<close>

datatype process_mode = THREAD_MODE | PROCESS_MODE

text \<open>
  The child's entry is a union: the thread id, the process id (its low 32 bits) or, when negative as
  a 64-bit number, an error.
\<close>

record worker_in =
  wi_fork :: int
  wi_attr_init :: int
  wi_stacksize :: int
  wi_create :: int
  wi_threadid :: int

definition create_worker :: "process_mode \<Rightarrow> worker_in \<Rightarrow> int" where
  "create_worker mode wi =
     (case mode of
        PROCESS_MODE \<Rightarrow> if wi_fork wi = -1 then -1 else u32 (wi_fork wi)
      | THREAD_MODE \<Rightarrow>
          if wi_attr_init wi \<noteq> 0 then -1
          else if wi_stacksize wi \<noteq> 0 then -1
          else if wi_create wi \<noteq> 0 then -1
          else wi_threadid wi)"

text \<open>The process ids that get \<open>SIGTERM\<close>: the union is read as one in both modes.\<close>

definition signal_workers :: "int list \<Rightarrow> nat \<Rightarrow> int list" where
  "signal_workers children num_children = map (\<lambda>c. s32 c) (take num_children children)"

datatype wait_result = NoChild | ChildExited | ChildKilled
datatype reap_in = Waited wait_result | Joined int

fun reap_one :: "reap_in \<Rightarrow> nat" where
  "reap_one (Waited NoChild) = 0"
| "reap_one (Waited ChildExited) = 0"
| "reap_one (Waited ChildKilled) = 1"
| "reap_one (Joined err) = (if err \<noteq> 0 then 1 else 0)"

definition reap_workers :: "int list \<Rightarrow> nat \<Rightarrow> bool \<Rightarrow> (nat \<Rightarrow> reap_in) \<Rightarrow> int list \<times> nat" where
  "reap_workers children totchld dokill res =
     ((if dokill then signal_workers children totchld else []),
      sum_list (map (\<lambda>i. reap_one (res i)) [0..<totchld]))"

section \<open>A group\<close>

text \<open>
  The two loops of \<open>group\<close>: receiver \<open>i\<close> needs its context (\<open>mal\<close>) and its worker (\<open>create\<close>, the
  entry of child \<open>i\<close>). The result is the value \<open>group\<close> returns and the entries of the
  workers that were started.
\<close>

fun start_receivers :: "(nat \<Rightarrow> bool) \<Rightarrow> (nat \<Rightarrow> int) \<Rightarrow> nat \<Rightarrow> nat \<Rightarrow> nat + unit \<times> nat" where
  "start_receivers mal create i 0 = Inr ((), i)"
| "start_receivers mal create i (Suc n) =
     (if \<not> mal i then Inl (if i > 0 then i - 1 else 0)
      else if create i < 0 then Inl (if i > 0 then i - 1 else 0)
      else start_receivers mal create (Suc i) n)"

fun start_senders :: "(nat \<Rightarrow> int) \<Rightarrow> nat \<Rightarrow> nat \<Rightarrow> nat \<Rightarrow> nat + unit" where
  "start_senders create num_fds i 0 = Inr ()"
| "start_senders create num_fds i (Suc n) =
     (if create (num_fds + i) < 0 then Inl (num_fds + i - 1)
      else start_senders create num_fds (Suc i) n)"

definition hb_group :: "bool \<Rightarrow> (nat \<Rightarrow> bool) \<Rightarrow> (nat \<Rightarrow> int) \<Rightarrow> nat \<Rightarrow> nat" where
  "hb_group snd_malloc mal create num_fds =
     (if \<not> snd_malloc then 0
      else case start_receivers mal create 0 num_fds of
             Inl r \<Rightarrow> r
           | Inr _ \<Rightarrow>
               (case start_senders create num_fds 0 num_fds of
                  Inl r \<Rightarrow> r
                | Inr _ \<Rightarrow> num_fds * 2))"

lemma start_receivers_all:
  "\<forall>j. i \<le> j \<and> j < i + n \<longrightarrow> mal j \<and> 0 \<le> create j \<Longrightarrow> start_receivers mal create i n = Inr ((), i + n)"
proof (induction n arbitrary: i)
  case (Suc n)
  have "mal i" "0 \<le> create i" using Suc.prems by simp_all
  then show ?case using Suc by (simp add: not_less)
qed simp

lemma start_receivers_fail:
  assumes "\<forall>j. i \<le> j \<and> j < m \<longrightarrow> mal j \<and> 0 \<le> create j" and "\<not> mal m \<or> create m < 0" and "i \<le> m" and "m < i + n"
  shows "start_receivers mal create i n = Inl (m - 1)"
  using assms
proof (induction n arbitrary: i)
  case (Suc n)
  show ?case
  proof (cases "i = m")
    case True
    then show ?thesis using Suc.prems by auto
  next
    case False
    then have "mal i" "\<not> create i < 0" using Suc.prems by (auto simp: not_less)
    moreover have "start_receivers mal create (Suc i) n = Inl (m - 1)"
      using False Suc.prems by (intro Suc.IH) auto
    ultimately show ?thesis by simp
  qed
qed simp

lemma start_senders_all:
  "\<forall>j. num_fds + i \<le> j \<and> j < num_fds + i + n \<longrightarrow> 0 \<le> create j \<Longrightarrow> start_senders create num_fds i n = Inr ()"
proof (induction n arbitrary: i)
  case (Suc n)
  have "0 \<le> create (num_fds + i)" using Suc.prems by simp
  then show ?case using Suc by (simp add: not_less)
qed simp

lemma start_senders_fail:
  assumes "\<forall>j. num_fds + i \<le> j \<and> j < m \<longrightarrow> 0 \<le> create j" and "create m < 0"
    and "num_fds + i \<le> m" and "m < num_fds + i + n"
  shows "start_senders create num_fds i n = Inl (m - 1)"
  using assms
proof (induction n arbitrary: i)
  case (Suc n)
  show ?case
  proof (cases "num_fds + i = m")
    case True
    then show ?thesis using Suc.prems by auto
  next
    case False
    then have "\<not> create (num_fds + i) < 0" using Suc.prems by (auto simp: not_less)
    moreover have "start_senders create num_fds (Suc i) n = Inl (m - 1)"
      using False Suc.prems by (intro Suc.IH) auto
    ultimately show ?thesis by simp
  qed
qed simp

text \<open>
  A group whose workers all start reports all of them; a group that stops because worker
  \<open>m > 0\<close> cannot be created reports one fewer than were started, so the last of them is neither
  signalled nor waited for.
\<close>

theorem group_count:
  assumes "\<forall>j < m. mal j \<and> 0 \<le> create j" and "m \<le> 2 * num_fds"
    and "m < 2 * num_fds \<longrightarrow> create m < 0" and "\<forall>j. mal j"
  shows "hb_group True mal create num_fds = (if m = 2 * num_fds then m else m - 1)"
proof (cases "m < num_fds")
  case True
  then show ?thesis using assms start_receivers_fail [of 0 m mal create num_fds] by (simp add: hb_group_def)
next
  case False
  have r: "start_receivers mal create 0 num_fds = Inr ((), num_fds)"
    using False assms(1) start_receivers_all [of 0 num_fds mal create] by simp
  show ?thesis
  proof (cases "m = 2 * num_fds")
    case True
    then show ?thesis using assms(1) r start_senders_all [of num_fds 0 num_fds create] by (simp add: hb_group_def)
  next
    case m: False
    then show ?thesis
      using False assms r start_senders_fail [of num_fds 0 m create num_fds] by (simp add: hb_group_def)
  qed
qed

theorem group_count_witness:
  "hb_group True (\<lambda>_. True) (\<lambda>j. if j < 5 then 7 else -1) 4 = 4 \<and> hb_group True (\<lambda>_. True) (\<lambda>j. 7) 4 = 8"
  using group_count [of 5 "\<lambda>_. True" "\<lambda>j. if j < 5 then 7 else -1" 4]
    group_count [of 8 "\<lambda>_. True" "\<lambda>j. 7" 4] by simp

text \<open>The start of the groups in \<open>main\<close>: the children to wait for, or what is reaped before it gives up.\<close>

fun start_groups :: "(nat \<Rightarrow> nat) \<Rightarrow> nat \<Rightarrow> nat \<Rightarrow> nat \<Rightarrow> nat \<Rightarrow> nat + nat" where
  "start_groups grp num_fds i total_children 0 = Inr total_children"
| "start_groups grp num_fds i total_children (Suc n) =
     (if grp i \<noteq> num_fds * 2 then Inl (total_children + grp i)
      else start_groups grp num_fds (Suc i) (total_children + grp i) n)"

section \<open>Options\<close>

record hb_opts =
  hb_datasize :: int
  hb_loops :: int
  hb_groups :: int
  hb_fds :: int
  hb_mode :: process_mode
  hb_pipes :: bool
  hb_fifo :: bool
  hb_error :: bool

datatype hb_opt = HbPipe | HbSize string | HbLoops string | HbGroups string | HbFds string
  | HbThreads | HbProcesses | HbFifo | HbUnknown

text \<open>
  A number option: \<open>argv[optind]\<close> is read with the local variable that \<open>getopt_long\<close> sets to the
  position of the long option in its table (0 for a short option): not null if that is an
  argument, null at the end of \<open>argv\<close>, undefined beyond. The number is stored in an unsigned
  variable, also when it is rejected.
\<close>

definition argv_present :: "nat \<Rightarrow> nat \<Rightarrow> bool option" where
  "argv_present argc idx = (if idx < argc then Some True else if idx = argc then Some False else None)"

definition number_option ::
  "nat \<Rightarrow> nat \<Rightarrow> string \<Rightarrow> (int \<Rightarrow> hb_opts \<Rightarrow> hb_opts) \<Rightarrow> hb_opts \<Rightarrow> hb_opts option" where
  "number_option argc idx arg upd p =
     do { present \<leftarrow> argv_present argc idx;
          if present
          then (let p1 = upd (u32 (atoi arg)) p
                in Some (if u32 (atoi arg) > 0 then p1 else p1\<lparr>hb_error := True\<rparr>))
          else Some (p\<lparr>hb_error := True\<rparr>) }"

text \<open>An option as \<open>getopt_long\<close> found it: whether it was long.\<close>

definition hb_option :: "nat \<Rightarrow> bool \<times> hb_opt \<Rightarrow> hb_opts \<Rightarrow> hb_opts option" where
  "hb_option argc lo p =
     (let idx = (\<lambda>n. if fst lo then n else 0)
      in case snd lo of
           HbPipe \<Rightarrow> Some (p\<lparr>hb_pipes := True\<rparr>)
         | HbSize a \<Rightarrow> number_option argc (idx 1) a (\<lambda>v q. q\<lparr>hb_datasize := v\<rparr>) p
         | HbLoops a \<Rightarrow> number_option argc (idx 2) a (\<lambda>v q. q\<lparr>hb_loops := v\<rparr>) p
         | HbGroups a \<Rightarrow> number_option argc (idx 3) a (\<lambda>v q. q\<lparr>hb_groups := v\<rparr>) p
         | HbFds a \<Rightarrow> number_option argc (idx 4) a (\<lambda>v q. q\<lparr>hb_fds := v\<rparr>) p
         | HbThreads \<Rightarrow> Some (p\<lparr>hb_mode := THREAD_MODE\<rparr>)
         | HbProcesses \<Rightarrow> Some (p\<lparr>hb_mode := PROCESS_MODE\<rparr>)
         | HbFifo \<Rightarrow> Some (p\<lparr>hb_fifo := True\<rparr>)
         | HbUnknown \<Rightarrow> Some (p\<lparr>hb_error := True\<rparr>))"

fun hb_option_loop :: "nat \<Rightarrow> (bool \<times> hb_opt) list \<Rightarrow> hb_opts \<Rightarrow> hb_opts option" where
  "hb_option_loop argc [] p = Some p"
| "hb_option_loop argc (opt # os) p = do { p1 \<leftarrow> hb_option argc opt p; hb_option_loop argc os p1 }"

definition hb_defaults :: hb_opts where
  "hb_defaults = \<lparr>hb_datasize = 100, hb_loops = 100, hb_groups = 10, hb_fds = 20, hb_mode = PROCESS_MODE,
     hb_pipes = False, hb_fifo = False, hb_error = False\<rparr>"

text \<open>
  The long options are checked against the wrong word: \<open>hackbench --loops=n\<close> with nothing else
  is rejected as not a number, while a negative number that passes this test is accepted, as a
  huge unsigned one.
\<close>

theorem long_number_options_misread:
  assumes "n < 0"  and "atoi neg = n"
  shows "(\<exists>p. hb_option_loop 2 [(True, HbLoops good)] hb_defaults = Some p \<and> hb_error p) \<and>
    hb_option_loop 2 [(True, HbGroups good)] hb_defaults = None \<and>
    (\<exists>p. hb_option_loop 3 [(False, HbLoops neg)] hb_defaults = Some p \<and> \<not> hb_error p \<and> 2147483648 \<le> hb_loops p)"
proof -
  have "u32 n = n + 4294967296"
    using assms atoi_range [of neg] by (simp add: take_bit_eq_mod) (subst mod_add_self2 [symmetric], intro mod_pos_pos_trivial, auto)
  then show ?thesis
    using assms atoi_range [of neg] by (simp add: hb_option_def number_option_def argv_present_def hb_defaults_def Let_def)
qed

theorem long_number_options_misread_witness:
  "\<exists>p. hb_option_loop 2 [(True, HbLoops ''5'')] hb_defaults = Some p \<and> hb_error p"
proof -
  have "atoi ''-7'' = -7" by code_simp
  then show ?thesis using long_number_options_misread [of "-7" "''-7''" "''5''"] by simp
qed

end
