(* ===== verification/HackbenchMain.thy ===== *)
theory HackbenchMain
  imports Hackbench
begin

text \<open>
  \<open>main\<close> of hackbench (\<^verbatim>\<open>src/hackbench/hackbench.c\<close>): its calls in order with every exit and the signal that interrupts
  them, and the start of the workers, where \<open>main\<close> waits for a byte of each and lets them all go with one, as a step
  relation.
\<close>

section \<open>Helpers\<close>

text \<open>\<open>sneeze\<close> prints nothing once a signal was caught; \<open>fdpair\<close> makes pipes or sockets.\<close>

definition sneeze :: "int \<Rightarrow> string \<Rightarrow> string list" where
  "sneeze signal_caught msg = (if signal_caught = 0 then [msg] else [])"

datatype pair_call = HbPipeCall | HbSocketpair

definition fdpair :: "bool \<Rightarrow> int \<Rightarrow> pair_call \<times> string option" where
  "fdpair use_pipes ret =
     (if use_pipes then HbPipeCall else HbSocketpair, if ret = 0 then None else Some ''Creating fdpair'')"

text \<open>\<open>None\<close> when the worker may go on, else the message it ends with.\<close>

definition ready :: "int \<Rightarrow> int \<Rightarrow> string option" where
  "ready written polled =
     (if written \<noteq> 1 then Some ''CLIENT: ready write'' else if polled \<noteq> 1 then Some ''poll'' else None)"

section \<open>main\<close>

datatype hm_op =
    HoAlloc | HoPair pair_call | HoHandlers | HoGroup nat | HoSetFifo | HoReadReady nat | HoTimeStart | HoWake
  | HoIgnore | HoReap nat bool | HoTimeStop | HoPrintTime | HoNoMeasurements

record hm_env =
  he_alloc :: bool
  he_pair1 :: int
  he_pair2 :: int
  he_sched :: int
  he_ready :: "nat \<Rightarrow> int"
  he_wake :: int

text \<open>Where a call of the body ends the program: at once, or behind the reaping of so many children.\<close>

datatype hm_outcome = HmFine | HmBarf | HmReapBarf nat

definition hm_total :: "nat \<Rightarrow> nat \<Rightarrow> nat" where
  "hm_total num_groups num_fds = num_groups * (num_fds * 2)"

text \<open>The calls between \<open>setjmp\<close> and the last reaping.\<close>

definition hm_body :: "nat \<Rightarrow> nat \<Rightarrow> bool \<Rightarrow> (nat \<Rightarrow> nat) \<Rightarrow> hm_env \<Rightarrow> (hm_op \<times> hm_outcome) list" where
  "hm_body num_groups num_fds use_fifo grp e =
     (let total = hm_total num_groups num_fds
      in map (\<lambda>i. (HoGroup i, if grp i \<noteq> num_fds * 2 then HmReapBarf (hm_total i num_fds + grp i) else HmFine))
           [0..<num_groups] @
         (if use_fifo then [(HoSetFifo, if he_sched e < 0 then HmBarf else HmFine)] else []) @
         map (\<lambda>r. (HoReadReady r, if he_ready e r \<noteq> 1 then HmReapBarf total else HmFine)) [0..<total] @
         [(HoTimeStart, HmFine), (HoWake, if he_wake e \<noteq> 1 then HmReapBarf total else HmFine)])"

text \<open>
  The calls that are made, when a signal is caught in the call with the given number: that call is not completed.
  \<open>BodyDone\<close> has what is left of the number.
\<close>

datatype hm_end = BodyDone "nat option" | BodySignal | BodyBarf hm_outcome

fun hm_run :: "(hm_op \<times> hm_outcome) list \<Rightarrow> nat option \<Rightarrow> hm_op list \<times> hm_end" where
  "hm_run [] sig = ([], BodyDone sig)"
| "hm_run ((c, o1) # cs) sig =
     (if sig = Some 0 then ([], BodySignal)
      else if o1 \<noteq> HmFine then ([c], BodyBarf o1)
      else case hm_run cs (map_option (\<lambda>n. n - 1) sig) of (ops, e) \<Rightarrow> (c # ops, e))"

text \<open>\<open>total_children\<close> when the body is left: that of the groups that are complete.\<close>

definition hm_children :: "nat \<Rightarrow> hm_op list \<Rightarrow> nat" where
  "hm_children num_fds ops = num_fds * 2 * length (filter (\<lambda>c. case c of HoGroup _ \<Rightarrow> True | _ \<Rightarrow> False) ops)"

text \<open>The calls and the exit status.\<close>

definition hackbench_main :: "hb_opts \<Rightarrow> (nat \<Rightarrow> nat) \<Rightarrow> hm_env \<Rightarrow> nat option \<Rightarrow> hm_op list \<times> int" where
  "hackbench_main p grp e sig =
     (let pr = fst (fdpair (hb_pipes p) 0);
          num_fds = nat (hb_fds p);
          finish = (\<lambda>ops. [HoTimeStop, if HoTimeStart \<in> set ops then HoPrintTime else HoNoMeasurements])
      in if hb_error p then ([], 1)
         else if \<not> he_alloc e then ([HoAlloc], 1)
         else if snd (fdpair (hb_pipes p) (he_pair1 e)) \<noteq> None then ([HoAlloc, HoPair pr], 1)
         else if snd (fdpair (hb_pipes p) (he_pair2 e)) \<noteq> None then ([HoAlloc, HoPair pr, HoPair pr], 1)
         else let pre = [HoAlloc, HoPair pr, HoPair pr, HoHandlers]
              in case hm_run (hm_body (nat (hb_groups p)) num_fds (hb_fifo p) grp e) sig of
                   (ops, BodyBarf (HmReapBarf c)) \<Rightarrow> (pre @ ops @ [HoReap c True], 1)
                 | (ops, BodyBarf _) \<Rightarrow> (pre @ ops, 1)
                 | (ops, BodySignal) \<Rightarrow> (pre @ ops @ [HoIgnore, HoReap (hm_children num_fds ops) True] @ finish ops, 0)
                 | (ops, BodyDone None) \<Rightarrow> (pre @ ops @ [HoReap (hm_children num_fds ops) False] @ finish ops, 0)
                 | (ops, BodyDone (Some _)) \<Rightarrow>
                     (pre @ ops @ [HoReap (hm_children num_fds ops) False, HoIgnore,
                                   HoReap (hm_children num_fds ops) True] @ finish ops, 0))"

section \<open>The start of the workers\<close>

datatype wk = WkInit | WkPolling | WkGo | WkDead

datatype hm_pc = HmReading nat | HmReaping

text \<open>
  The workers, the bytes of \<open>ready\<close> that \<open>main\<close> has not read yet, and whether the byte that lets them go has been
  written; no worker reads it, so every \<open>poll\<close> finds it.
\<close>

record hbsys =
  hs_workers :: "wk list"
  hs_bytes :: nat
  hs_wake :: bool
  hs_main :: hm_pc

text \<open>The pipe or socket holds \<open>cap\<close> bytes; a worker that finds it full waits.\<close>

inductive hbown :: "nat \<Rightarrow> nat \<Rightarrow> hbsys \<Rightarrow> hbsys \<Rightarrow> bool" for cap n where
  ready: "hs_workers s = xs @ WkInit # ys \<Longrightarrow> hs_bytes s < cap \<Longrightarrow>
    hbown cap n s (s\<lparr>hs_workers := xs @ WkPolling # ys, hs_bytes := Suc (hs_bytes s)\<rparr>)"
| go: "hs_workers s = xs @ WkPolling # ys \<Longrightarrow> hs_wake s \<Longrightarrow>
    hbown cap n s (s\<lparr>hs_workers := xs @ WkGo # ys\<rparr>)"
| read: "hs_main s = HmReading r \<Longrightarrow> r < n \<Longrightarrow> hs_bytes s = Suc b \<Longrightarrow>
    hbown cap n s (s\<lparr>hs_main := HmReading (Suc r), hs_bytes := b\<rparr>)"
| wake: "hs_main s = HmReading n \<Longrightarrow> hbown cap n s (s\<lparr>hs_wake := True, hs_main := HmReaping\<rparr>)"

inductive_cases hbownE: "hbown cap n s t"

text \<open>A worker may end before it has reported: \<open>barf\<close>, or a signal of somebody else.\<close>

inductive hbstep :: "nat \<Rightarrow> nat \<Rightarrow> hbsys \<Rightarrow> hbsys \<Rightarrow> bool" for cap n where
  own: "hbown cap n s t \<Longrightarrow> hbstep cap n s t"
| dies: "hs_workers s = xs @ WkInit # ys \<Longrightarrow> hbstep cap n s (s\<lparr>hs_workers := xs @ WkDead # ys\<rparr>)"

inductive_cases hbstepE: "hbstep cap n s t"

definition hb_init :: "nat \<Rightarrow> hbsys \<Rightarrow> bool" where
  "hb_init n s \<longleftrightarrow> hs_workers s = replicate n WkInit \<and> hs_bytes s = 0 \<and> \<not> hs_wake s \<and> hs_main s = HmReading 0"

definition hb_inv :: "nat \<Rightarrow> hbsys \<Rightarrow> bool" where
  "hb_inv n s \<longleftrightarrow> length (hs_workers s) = n \<and>
     (case hs_main s of
        HmReading r \<Rightarrow> \<not> hs_wake s \<and> r \<le> n \<and> r + hs_bytes s = count_list (hs_workers s) WkPolling \<and>
          WkGo \<notin> set (hs_workers s)
      | HmReaping \<Rightarrow> hs_wake s \<and> hs_bytes s = 0 \<and> set (hs_workers s) \<subseteq> {WkPolling, WkGo})"

lemma count_all: "count_list xs x = length xs \<Longrightarrow> set xs \<subseteq> {x}"
proof (induction xs)
  case (Cons y xs)
  have "count_list xs x \<le> length xs" by (rule count_le_length)
  then show ?case using Cons by (auto split: if_splits)
qed simp

lemma hb_inv_step: "hb_inv n s \<Longrightarrow> hbstep cap n s t \<Longrightarrow> hb_inv n t"
proof (elim hbstepE hbownE)
  fix r b assume inv: "hb_inv n s" and "hs_main s = HmReading r" "r < n" "hs_bytes s = Suc b"
    "t = s\<lparr>hs_main := HmReading (Suc r), hs_bytes := b\<rparr>"
  then show "hb_inv n t" by (auto simp: hb_inv_def)
next
  assume inv: "hb_inv n s" and m: "hs_main s = HmReading n" and t: "t = s\<lparr>hs_wake := True, hs_main := HmReaping\<rparr>"
  have "n + hs_bytes s = count_list (hs_workers s) WkPolling" "length (hs_workers s) = n"
    using inv m by (simp_all add: hb_inv_def)
  moreover from this have "count_list (hs_workers s) WkPolling \<le> n" using count_le_length by metis
  ultimately show "hb_inv n t" using t count_all [of "hs_workers s" WkPolling] by (auto simp: hb_inv_def)
qed (auto simp: hb_inv_def split: hm_pc.splits)

interpretation hbstart: machine "hb_init n" "hbstep cap n" "hb_inv n" for n cap
proof unfold_locales
  show "hb_inv n s" if "hb_init n s" for s using that by (auto simp: hb_init_def hb_inv_def)
qed (rule hb_inv_step)

section \<open>Properties of the start\<close>

definition hb_weight :: "nat \<Rightarrow> hbsys \<Rightarrow> nat" where
  "hb_weight n s = 2 * count_list (hs_workers s) WkInit + count_list (hs_workers s) WkPolling +
     (case hs_main s of HmReading r \<Rightarrow> Suc (n - r) | HmReaping \<Rightarrow> 0)"

lemma hb_weight_step: "hbown cap n s t \<Longrightarrow> hb_weight n t < hb_weight n s"
  by (elim hbownE) (auto simp: hb_weight_def)

lemma hb_weight_run: "(hbown cap n ^^ k) s t \<Longrightarrow> k + hb_weight n t \<le> hb_weight n s"
proof (induction k arbitrary: t)
  case (Suc k)
  then obtain u where "(hbown cap n ^^ k) s u" "hbown cap n u t" by auto
  then show ?case using Suc.IH [of u] hb_weight_step [of cap n u t] by simp
qed simp

lemma count_two: "x \<noteq> y \<Longrightarrow> count_list xs x + count_list xs y \<le> length xs"
  by (induction xs) auto

lemma hb_weight_le: "hb_inv n s \<Longrightarrow> hb_weight n s \<le> 3 * n + 1"
  using count_two [of WkInit WkPolling "hs_workers s"]
  by (cases "hs_main s") (auto simp: hb_weight_def hb_inv_def)

lemma hb_run_inv: "(hbown cap n ^^ k) s t \<Longrightarrow> hb_inv n s \<Longrightarrow> hb_inv n t"
proof (induction k arbitrary: t)
  case (Suc k)
  then obtain u where "(hbown cap n ^^ k) s u" "hbown cap n u t" by auto
  then show ?case using Suc hb_inv_step hbstep.own by blast
qed simp

lemma count_replicate: "count_list (replicate n x) x = n"
  by (induction n) auto

text \<open>While a worker has not gone on there is a step, if none has died.\<close>

lemma hb_can_step:
  assumes inv: "hb_inv n s" and "0 < cap" and "WkDead \<notin> set (hs_workers s)"
    and stuck: "\<forall>t. \<not> hbown cap n s t"
  shows "hs_main s = HmReaping \<and> set (hs_workers s) \<subseteq> {WkGo}"
proof (cases "hs_main s")
  case (HmReading r)
  have r: "r \<le> n" "r + hs_bytes s = count_list (hs_workers s) WkPolling" "length (hs_workers s) = n"
    "WkGo \<notin> set (hs_workers s)"
    using inv HmReading by (simp_all add: hb_inv_def)
  show ?thesis
  proof (cases "hs_bytes s")
    case 0
    have "WkInit \<notin> set (hs_workers s)"
    proof
      assume "WkInit \<in> set (hs_workers s)"
      then obtain xs ys where "hs_workers s = xs @ WkInit # ys" by (meson split_list)
      then show False using stuck hbown.ready 0 assms(2) by metis
    qed
    then have "w = WkPolling" if "w \<in> set (hs_workers s)" for w using that r(4) assms(3) by (cases w) auto
    then have "hs_workers s = replicate n WkPolling" using r(3) by (simp add: replicate_eqI)
    then have "count_list (hs_workers s) WkPolling = n" by (simp add: count_replicate)
    then have "r = n" using r(2) 0 by simp
    then have "hs_main s = HmReading n" using HmReading by simp
    then show ?thesis using stuck hbown.wake by metis
  next
    case (Suc b)
    have "count_list (hs_workers s) WkPolling \<le> n" using r(3) count_le_length by metis
    then have "r < n" using r(2) Suc by simp
    then show ?thesis using stuck hbown.read HmReading Suc by metis
  qed
next
  case HmReaping
  have w: "hs_wake s" "set (hs_workers s) \<subseteq> {WkPolling, WkGo}" using inv HmReaping by (simp_all add: hb_inv_def)
  have "WkPolling \<notin> set (hs_workers s)"
  proof
    assume "WkPolling \<in> set (hs_workers s)"
    then obtain xs ys where "hs_workers s = xs @ WkPolling # ys" by (meson split_list)
    then show False using stuck hbown.go w(1) by metis
  qed
  then show ?thesis using w HmReaping by blast
qed

text \<open>
  C33: the start of the workers. None goes on before all have reported that they are ready, and if none has died the
  start is over after at most three steps for each worker and one more: then every worker has gone on, though only one
  byte was written for all of them.
\<close>

theorem hackbench_starts_together:
  assumes "reach (hb_init n) (hbstep cap n) s" "0 < cap" "(hbown cap n ^^ k) s t"
  shows "(WkGo \<in> set (hs_workers s) \<longrightarrow> set (hs_workers s) \<subseteq> {WkPolling, WkGo}) \<and> k \<le> 3 * n + 1 \<and>
    (WkDead \<notin> set (hs_workers t) \<and> (\<forall>u. \<not> hbown cap n t u) \<longrightarrow> hs_workers t = replicate n WkGo)"
proof -
  have inv: "hb_inv n s" using assms(1) by (rule hbstart.reach_inv)
  have t: "hb_inv n t" using hb_run_inv [OF assms(3) inv] .
  have "k \<le> 3 * n + 1" using hb_weight_run [OF assms(3)] hb_weight_le [OF inv] by simp
  moreover have "WkGo \<in> set (hs_workers s) \<Longrightarrow> set (hs_workers s) \<subseteq> {WkPolling, WkGo}"
    using inv by (cases "hs_main s") (auto simp: hb_inv_def)
  moreover have "hs_workers t = replicate n WkGo" if "WkDead \<notin> set (hs_workers t)" "\<forall>u. \<not> hbown cap n t u"
  proof -
    have "length (hs_workers t) = n" using t by (simp add: hb_inv_def)
    then show ?thesis using hb_can_step [OF t assms(2) that] by (intro replicate_eqI) auto
  qed
  ultimately show ?thesis by blast
qed

definition ex_hb :: "wk list \<Rightarrow> nat \<Rightarrow> bool \<Rightarrow> hm_pc \<Rightarrow> hbsys" where
  "ex_hb ws b w m = \<lparr>hs_workers = ws, hs_bytes = b, hs_wake = w, hs_main = m\<rparr>"

lemma ex_hb_init: "reach (hb_init 1) (hbstep cap 1) (ex_hb [WkInit] 0 False (HmReading 0))"
  by (rule reach_init) (simp add: hb_init_def ex_hb_def)

lemma ex_hb_run: "(hbown 8 1 ^^ 4) (ex_hb [WkInit] 0 False (HmReading 0)) (ex_hb [WkGo] 0 True HmReaping)"
proof -
  have "hbown 8 1 (ex_hb [WkInit] 0 False (HmReading 0)) (ex_hb [WkPolling] 1 False (HmReading 0))"
    using hbown.ready [of "ex_hb [WkInit] 0 False (HmReading 0)" "[]" "[]" 8 1] by (simp add: ex_hb_def)
  moreover have "hbown 8 1 (ex_hb [WkPolling] 1 False (HmReading 0)) (ex_hb [WkPolling] 0 False (HmReading 1))"
    using hbown.read [of "ex_hb [WkPolling] 1 False (HmReading 0)" 0 1 0 8] by (simp add: ex_hb_def)
  moreover have "hbown 8 1 (ex_hb [WkPolling] 0 False (HmReading 1)) (ex_hb [WkPolling] 0 True HmReaping)"
    using hbown.wake [of "ex_hb [WkPolling] 0 False (HmReading 1)" 1 8] by (simp add: ex_hb_def)
  moreover have "hbown 8 1 (ex_hb [WkPolling] 0 True HmReaping) (ex_hb [WkGo] 0 True HmReaping)"
    using hbown.go [of "ex_hb [WkPolling] 0 True HmReaping" "[]" "[]" 8 1] by (simp add: ex_hb_def)
  ultimately show ?thesis by (auto simp: eval_nat_numeral)
qed

theorem hackbench_starts_together_witness:
  "(4 :: nat) \<le> 3 * 1 + 1 \<and> hs_workers (ex_hb [WkGo] 0 True HmReaping) = replicate 1 WkGo"
proof -
  have "\<not> hbown 8 1 (ex_hb [WkGo] 0 True HmReaping) u" for u
    by (auto simp: ex_hb_def Cons_eq_append_conv elim: hbownE)
  then show ?thesis
    using hackbench_starts_together [OF ex_hb_init _ ex_hb_run] by (simp add: ex_hb_def)
qed

text \<open>
  A worker that dies before it has reported stops the whole program: \<open>main\<close> reads for its byte for ever, since it
  holds the other end itself, and no worker ever goes on.
\<close>

lemma dead_stays: "hbstep cap n s t \<Longrightarrow> WkDead \<in> set (hs_workers s) \<Longrightarrow> WkDead \<in> set (hs_workers t)"
  by (elim hbstepE hbownE) auto

theorem hackbench_dead_worker_hangs:
  assumes "reach (hb_init n) (hbstep cap n) s" "WkDead \<in> set (hs_workers s)" "(hbstep cap n)\<^sup>*\<^sup>* s t"
  shows "(\<exists>r < n. hs_main t = HmReading r) \<and> WkGo \<notin> set (hs_workers t)"
proof -
  have inv: "hb_inv n s" using assms(1) by (rule hbstart.reach_inv)
  have t: "hb_inv n t" using hbstart.runs_inv [OF assms(3) inv] .
  have d: "WkDead \<in> set (hs_workers t)" using assms(3,2) by (induction rule: rtranclp_induct) (auto intro: dead_stays)
  then obtain r where r: "hs_main t = HmReading r" using t by (cases "hs_main t") (auto simp: hb_inv_def)
  have "0 < count_list (hs_workers t) WkDead" using d count_list_0_iff by (metis gr0I)
  then have "r < n"
    using t r count_two [of WkDead WkPolling "hs_workers t"] by (auto simp: hb_inv_def)
  then show ?thesis using t r by (auto simp: hb_inv_def)
qed

theorem hackbench_dead_worker_hangs_witness:
  "\<exists>r < 1. hs_main (ex_hb [WkDead] 0 False (HmReading 0)) = HmReading r"
proof -
  have "hbstep 8 1 (ex_hb [WkInit] 0 False (HmReading 0)) (ex_hb [WkDead] 0 False (HmReading 0))"
    using hbstep.dies [of "ex_hb [WkInit] 0 False (HmReading 0)" "[]" "[]" 8 1] by (simp add: ex_hb_def)
  then have "reach (hb_init 1) (hbstep 8 1) (ex_hb [WkDead] 0 False (HmReading 0))"
    using ex_hb_init by (metis reach_step)
  from hackbench_dead_worker_hangs [OF this _ rtranclp.rtrancl_refl] show ?thesis by (simp add: ex_hb_def)
qed

section \<open>What main reaps\<close>

lemma hm_run_fine:
  assumes "\<forall>c \<in> set cs. snd c = HmFine"
  shows "hm_run cs None = (map fst cs, BodyDone None)"
    and "hm_run cs (Some k) = (if k < length cs then (map fst (take k cs), BodySignal)
                               else (map fst cs, BodyDone (Some (k - length cs))))"
proof -
  show "hm_run cs None = (map fst cs, BodyDone None)" using assms by (induction cs) auto
  show "hm_run cs (Some k) = (if k < length cs then (map fst (take k cs), BodySignal)
                               else (map fst cs, BodyDone (Some (k - length cs))))"
    using assms
  proof (induction cs arbitrary: k)
    case (Cons c cs)
    then show ?case by (cases c; cases k) auto
  qed simp
qed

definition all_fine :: "hb_opts \<Rightarrow> (nat \<Rightarrow> nat) \<Rightarrow> hm_env \<Rightarrow> bool" where
  "all_fine p grp e \<longleftrightarrow> \<not> hb_error p \<and> he_alloc e \<and> he_pair1 e = 0 \<and> he_pair2 e = 0 \<and> 0 \<le> he_sched e \<and>
     he_wake e = 1 \<and> (\<forall>r < hm_total (nat (hb_groups p)) (nat (hb_fds p)). he_ready e r = 1) \<and>
     (\<forall>i < nat (hb_groups p). grp i = nat (hb_fds p) * 2)"

lemma body_fine:
  "all_fine p grp e \<Longrightarrow>
     \<forall>c \<in> set (hm_body (nat (hb_groups p)) (nat (hb_fds p)) (hb_fifo p) grp e). snd c = HmFine"
  by (auto simp: hm_body_def all_fine_def Let_def)

lemma body_groups:
  "take i (hm_body G F ff grp e) =
     map (\<lambda>j. (HoGroup j, if grp j \<noteq> F * 2 then HmReapBarf (hm_total j F + grp j) else HmFine)) [0..<i]"
  if "i \<le> G"
  using that by (simp add: hm_body_def Let_def take_map)

lemma children_groups: "hm_children F (map HoGroup [0..<i]) = hm_total i F"
  by (simp add: hm_children_def hm_total_def filter_map comp_def)

lemma children_body: "hm_children F (map fst (hm_body G F ff grp e)) = hm_total G F"
proof -
  have groups: "filter (\<lambda>c. case c of HoGroup _ \<Rightarrow> True | _ \<Rightarrow> False) (map HoGroup [0..<G]) = map HoGroup [0..<G]"
    by (simp add: filter_map comp_def)
  have reads: "filter (\<lambda>c. case c of HoGroup _ \<Rightarrow> True | _ \<Rightarrow> False) (map HoReadReady xs) = []" for xs
    by (induction xs) simp_all
  show ?thesis
    using groups reads by (simp add: hm_body_def hm_children_def hm_total_def Let_def comp_def)
qed

text \<open>
  A run without failures reaps exactly the workers it has started and prints its time. A signal that is caught while
  group \<open>i\<close> is being created ends the program with the same status 0, but only the workers of the groups before are
  signalled and reaped; those of group \<open>i\<close> that were started already stay behind.
\<close>

theorem hackbench_main_reaps:
  assumes "all_fine p grp e"
  shows "(\<exists>ops. hackbench_main p grp e None =
        (ops @ [HoReap (hm_total (nat (hb_groups p)) (nat (hb_fds p))) False, HoTimeStop, HoPrintTime], 0)) \<and>
    (\<forall>i < nat (hb_groups p). \<exists>ops. hackbench_main p grp e (Some i) =
        (ops @ [HoIgnore, HoReap (hm_total i (nat (hb_fds p))) True, HoTimeStop, HoNoMeasurements], 0))"
proof -
  let ?F = "nat (hb_fds p)" and ?G = "nat (hb_groups p)"
  let ?b = "hm_body ?G ?F (hb_fifo p) grp e"
  note f = body_fine [OF assms]
  have ok: "\<not> hb_error p" "he_alloc e" "he_pair1 e = 0" "he_pair2 e = 0" using assms by (simp_all add: all_fine_def)
  have st: "HoTimeStart \<in> set (map fst ?b)" by (simp add: hm_body_def Let_def)
  have main: "\<exists>ops. hackbench_main p grp e None =
      (ops @ [HoReap (hm_total ?G ?F) False, HoTimeStop, HoPrintTime], 0)"
    using ok hm_run_fine(1) [OF f] children_body [of ?F ?G "hb_fifo p" grp e] st
    by (simp add: hackbench_main_def Let_def fdpair_def)
  have "\<exists>ops. hackbench_main p grp e (Some i) =
      (ops @ [HoIgnore, HoReap (hm_total i ?F) True, HoTimeStop, HoNoMeasurements], 0)" if i: "i < ?G" for i
  proof -
    have len: "i < length ?b" using i by (simp add: hm_body_def Let_def)
    have tk: "map fst (take i ?b) = map HoGroup [0..<i]"
      using i by (simp add: body_groups comp_def)
    have "HoTimeStart \<notin> set (map HoGroup [0..<i])" by auto
    then show ?thesis
      using ok hm_run_fine(2) [OF f, of i] len tk children_groups [of ?F i]
      by (simp add: hackbench_main_def Let_def fdpair_def)
  qed
  with main show ?thesis by blast
qed

definition ex_hm :: hm_env where
  "ex_hm = \<lparr>he_alloc = True, he_pair1 = 0, he_pair2 = 0, he_sched = 0, he_ready = \<lambda>_. 1, he_wake = 1\<rparr>"

theorem hackbench_main_reaps_witness:
  "\<exists>ops. hackbench_main hb_defaults (\<lambda>_. 40) ex_hm (Some 3) =
     (ops @ [HoIgnore, HoReap 120 True, HoTimeStop, HoNoMeasurements], 0)"
proof -
  have n: "3 < nat (hb_groups hb_defaults)" "hm_total 3 (nat (hb_fds hb_defaults)) = 120"
    by (simp_all add: hb_defaults_def hm_total_def)
  have "all_fine hb_defaults (\<lambda>_. 40) ex_hm" by (simp add: all_fine_def ex_hm_def hb_defaults_def)
  from hackbench_main_reaps [OF this] n(1)
  have "\<exists>ops. hackbench_main hb_defaults (\<lambda>_. 40) ex_hm (Some 3) =
     (ops @ [HoIgnore, HoReap (hm_total 3 (nat (hb_fds hb_defaults))) True, HoTimeStop, HoNoMeasurements], 0)"
    by blast
  then show ?thesis by (simp only: n(2))
qed

end
