(* ===== verification/PiGroup.thy ===== *)
theory PiGroup
  imports RtPrelude
begin

text \<open>
  The three threads of a group of \<^verbatim>\<open>src/pi_tests/pi_stress.c\<close>. Each thread function is given by the
  order of its blocking operations; a group is the three places, the group mutex, the flag that
  keeps the threads looping, the shutdown flag and the count of inversions. A barrier lets its
  participants pass together, and names one of them the serial thread; a lock is taken only
  when it is free. Failing calls and the debugging output are left out.
\<close>

section \<open>The thread functions\<close>

datatype tid = Low | Med | High

datatype place =
    AtTotal        \<comment> \<open>test of \<open>p->total >= p->inversions\<close>\<close>
  | AtTest         \<comment> \<open>test of \<open>*loop\<close> under \<open>loop_mtx\<close>\<close>
  | AtLoopB
  | AtSerial       \<comment> \<open>the serial thread looks at \<open>shutdown\<close>\<close>
  | AtStartB
  | AtLock
  | AtLockedB
  | AtElevateB
  | AtUnlock
  | AtFinishB
  | AtCount        \<comment> \<open>\<open>p->total++; p->watchdog++\<close>\<close>
  | AtExit         \<comment> \<open>\<open>set_shutdown_flag\<close> after the loop\<close>
  | AtDone         \<comment> \<open>waits for \<open>all_threads_done\<close>\<close>

text \<open>Where each thread goes next from a place of its loop.\<close>

fun low_priority :: "place \<Rightarrow> place" where
  "low_priority AtTotal = AtTest"
| "low_priority AtTest = AtLoopB"
| "low_priority AtLoopB = AtSerial"
| "low_priority AtSerial = AtStartB"
| "low_priority AtStartB = AtLock"
| "low_priority AtLock = AtLockedB"
| "low_priority AtLockedB = AtElevateB"
| "low_priority AtElevateB = AtUnlock"
| "low_priority AtUnlock = AtFinishB"
| "low_priority AtFinishB = AtTotal"
| "low_priority AtCount = AtTotal"
| "low_priority AtExit = AtDone"
| "low_priority AtDone = AtDone"

fun med_priority :: "place \<Rightarrow> place" where
  "med_priority AtTotal = AtTest"
| "med_priority AtTest = AtLoopB"
| "med_priority AtLoopB = AtSerial"
| "med_priority AtSerial = AtStartB"
| "med_priority AtStartB = AtElevateB"
| "med_priority AtElevateB = AtFinishB"
| "med_priority AtFinishB = AtTotal"
| "med_priority AtExit = AtDone"
| "med_priority p = p"

fun high_priority :: "place \<Rightarrow> place" where
  "high_priority AtTotal = AtTest"
| "high_priority AtTest = AtLoopB"
| "high_priority AtLoopB = AtSerial"
| "high_priority AtSerial = AtStartB"
| "high_priority AtStartB = AtLockedB"
| "high_priority AtLockedB = AtLock"
| "high_priority AtLock = AtUnlock"
| "high_priority AtUnlock = AtFinishB"
| "high_priority AtFinishB = AtCount"
| "high_priority AtCount = AtTotal"
| "high_priority AtExit = AtDone"
| "high_priority p = p"

fun next_place :: "tid \<Rightarrow> place \<Rightarrow> place" where
  "next_place Low p = low_priority p"
| "next_place Med p = med_priority p"
| "next_place High p = high_priority p"

section \<open>A group\<close>

record group =
  g_at :: "tid \<Rightarrow> place"
  g_mutex :: "tid option"
  g_loop :: bool
  g_shutdown :: bool
  g_serial :: tid
  g_total :: nat

text \<open>Who meets at a barrier (\<open>initialize_group\<close> sets the counts 3, 2 and 2).\<close>

fun parties :: "place \<Rightarrow> tid set" where
  "parties AtLoopB = {Low, Med, High}"
| "parties AtStartB = {Low, Med, High}"
| "parties AtFinishB = {Low, Med, High}"
| "parties AtLockedB = {Low, High}"
| "parties AtElevateB = {Low, Med}"
| "parties p = {}"

definition advance :: "tid set \<Rightarrow> group \<Rightarrow> tid \<Rightarrow> place" where
  "advance T g = (\<lambda>t. if t \<in> T then next_place t (g_at g t) else g_at g t)"

definition go :: "tid \<Rightarrow> group \<Rightarrow> group" where
  "go t g = g\<lparr>g_at := (g_at g)(t := next_place t (g_at g t))\<rparr>"

text \<open>The steps of the threads; \<open>inversions\<close> is negative for an unbounded run.\<close>

inductive gstep :: "int \<Rightarrow> group \<Rightarrow> group \<Rightarrow> bool" for inversions where
  total: "g_at g t = AtTotal \<Longrightarrow>
    gstep inversions g
      ((go t g)\<lparr>g_shutdown := g_shutdown g \<or> (0 \<le> inversions \<and> inversions \<le> int (g_total g))\<rparr>)"
| test_on: "g_at g t = AtTest \<Longrightarrow> g_loop g \<Longrightarrow> gstep inversions g (go t g)"
| test_off: "g_at g t = AtTest \<Longrightarrow> \<not> g_loop g \<Longrightarrow>
    gstep inversions g (g\<lparr>g_at := (g_at g)(t := AtExit)\<rparr>)"
| barrier: "parties b \<noteq> {} \<Longrightarrow> \<forall>t \<in> parties b. g_at g t = b \<Longrightarrow> u \<in> parties b \<Longrightarrow>
    gstep inversions g (g\<lparr>g_at := advance (parties b) g, g_serial := u\<rparr>)"
| serial: "g_at g t = AtSerial \<Longrightarrow>
    gstep inversions g ((go t g)\<lparr>g_loop := g_loop g \<and> \<not> (g_serial g = t \<and> g_shutdown g)\<rparr>)"
| lock: "g_at g t = AtLock \<Longrightarrow> g_mutex g = None \<Longrightarrow> gstep inversions g ((go t g)\<lparr>g_mutex := Some t\<rparr>)"
| unlock: "g_at g t = AtUnlock \<Longrightarrow> gstep inversions g ((go t g)\<lparr>g_mutex := None\<rparr>)"
| count: "g_at g t = AtCount \<Longrightarrow> gstep inversions g ((go t g)\<lparr>g_total := Suc (g_total g)\<rparr>)"
| exit: "g_at g t = AtExit \<Longrightarrow> gstep inversions g ((go t g)\<lparr>g_shutdown := True\<rparr>)"

inductive_cases gstepE: "gstep inversions g h"

text \<open>The reporter and the other groups may set the shutdown flag at any time.\<close>

inductive gstep_env :: "int \<Rightarrow> group \<Rightarrow> group \<Rightarrow> bool" for inversions where
  thread: "gstep inversions g h \<Longrightarrow> gstep_env inversions g h"
| shutdown: "gstep_env inversions g (g\<lparr>g_shutdown := True\<rparr>)"

definition group_init :: "group \<Rightarrow> bool" where
  "group_init g \<longleftrightarrow> (\<forall>t. g_at g t = AtTotal) \<and> g_mutex g = None \<and> g_loop g \<and> g_total g = 0"

section \<open>The invariant\<close>

text \<open>The part of the loop a place belongs to: before the loop barrier, up to the start barrier,
  up to the finish barrier.\<close>

fun part :: "place \<Rightarrow> nat" where
  "part AtSerial = 1"
| "part AtStartB = 1"
| "part AtLock = 2"
| "part AtLockedB = 2"
| "part AtElevateB = 2"
| "part AtUnlock = 2"
| "part AtFinishB = 2"
| "part _ = 0"

definition places_ok :: "place \<Rightarrow> place \<Rightarrow> place \<Rightarrow> bool" where
  "places_ok l m h \<longleftrightarrow> l \<noteq> AtCount \<and> m \<notin> {AtCount, AtLock, AtLockedB, AtUnlock} \<and> h \<noteq> AtElevateB \<and>
     part l = part m \<and> part m = part h \<and>
     (part l = 2 \<longrightarrow> (l \<in> {AtElevateB, AtUnlock, AtFinishB} \<longleftrightarrow> h \<in> {AtLock, AtUnlock, AtFinishB}) \<and>
        (l \<in> {AtUnlock, AtFinishB} \<longleftrightarrow> m = AtFinishB))"

definition leaving :: "place \<Rightarrow> bool" where
  "leaving p \<longleftrightarrow> p = AtExit \<or> p = AtDone"

definition mutex_ok :: "place \<Rightarrow> place \<Rightarrow> tid option \<Rightarrow> bool" where
  "mutex_ok l h mx \<longleftrightarrow>
     (if l \<in> {AtLockedB, AtElevateB, AtUnlock} then mx = Some Low \<and> h \<noteq> AtUnlock
      else if h = AtUnlock then mx = Some High else mx = None)"

definition group_inv :: "group \<Rightarrow> bool" where
  "group_inv g \<longleftrightarrow>
     places_ok (g_at g Low) (g_at g Med) (g_at g High) \<and>
     mutex_ok (g_at g Low) (g_at g High) (g_mutex g) \<and>
     (\<forall>t. (g_at g t = AtLoopB \<longrightarrow> g_loop g) \<and> (leaving (g_at g t) \<longrightarrow> \<not> g_loop g))"

lemma all_tid: "(\<forall>t. P t) \<longleftrightarrow> P Low \<and> P Med \<and> P High"
  by (metis tid.exhaust)

lemma group_inv_step:
  assumes "group_inv g" and "gstep inversions g h"
  shows "group_inv h"
  using assms(2)
proof (cases rule: gstep.cases)
  case (total t)
  then show ?thesis using assms(1)
    by (cases t) (auto simp: group_inv_def all_tid places_ok_def mutex_ok_def go_def leaving_def)
next
  case (test_on t)
  then show ?thesis using assms(1)
    by (cases t) (auto simp: group_inv_def all_tid places_ok_def mutex_ok_def go_def leaving_def)
next
  case (test_off t)
  then show ?thesis using assms(1)
    by (cases t) (auto simp: group_inv_def all_tid places_ok_def mutex_ok_def leaving_def)
next
  case (barrier b u)
  then show ?thesis using assms(1)
    by (cases b) (auto simp: group_inv_def all_tid places_ok_def mutex_ok_def advance_def leaving_def split: if_splits)
next
  case (serial t)
  then show ?thesis using assms(1)
    by (cases t) (auto simp: group_inv_def all_tid places_ok_def mutex_ok_def go_def leaving_def)
next
  case (lock t)
  then show ?thesis using assms(1)
    by (cases t) (auto simp: group_inv_def all_tid places_ok_def mutex_ok_def go_def leaving_def split: if_splits)
next
  case (unlock t)
  then show ?thesis using assms(1)
    by (cases t) (auto simp: group_inv_def all_tid places_ok_def mutex_ok_def go_def leaving_def split: if_splits)
next
  case (count t)
  then show ?thesis using assms(1)
    by (cases t) (auto simp: group_inv_def all_tid places_ok_def mutex_ok_def go_def leaving_def)
next
  case (exit t)
  then show ?thesis using assms(1)
    by (cases t) (auto simp: group_inv_def all_tid places_ok_def mutex_ok_def go_def leaving_def)
qed

lemma group_inv_env:
  assumes "group_inv g" and "gstep_env inversions g h"
  shows "group_inv h"
  using assms(2)
proof cases
  case thread
  then show ?thesis using group_inv_step [OF assms(1)] by simp
next
  case shutdown
  then show ?thesis using assms(1) by (simp add: group_inv_def)
qed

interpretation pigroup: machine group_init "gstep_env inversions" group_inv for inversions
proof unfold_locales
  show "group_inv g" if "group_init g" for g
    using that by (simp add: group_init_def group_inv_def places_ok_def mutex_ok_def leaving_def)
qed (rule group_inv_env)

section \<open>No deadlock\<close>

lemma group_can_step:
  assumes inv: "group_inv g" and "\<not> (\<forall>t. g_at g t = AtDone)"
  shows "\<exists>h. gstep inversions g h"
proof -
  let ?l = "g_at g Low" and ?m = "g_at g Med" and ?h = "g_at g High"
  have free: "\<exists>h. gstep inversions g h" if "g_at g t \<in> {AtTotal, AtTest, AtSerial, AtUnlock, AtCount, AtExit}" for t
    using that by (cases "g_loop g") (auto intro: gstep.intros)
  have meet: "\<exists>h. gstep inversions g h" if "parties b \<noteq> {}" "\<forall>t \<in> parties b. g_at g t = b" for b
    using that by (meson all_not_in_conv gstep.barrier)
  have lock: "\<exists>h. gstep inversions g h" if "g_at g t = AtLock" "g_mutex g = None" for t
    using that by (meson gstep.lock)
  have ok: "places_ok ?l ?m ?h" and mx: "mutex_ok ?l ?h (g_mutex g)"
    and lp: "\<forall>t. (g_at g t = AtLoopB \<longrightarrow> g_loop g) \<and> (leaving (g_at g t) \<longrightarrow> \<not> g_loop g)"
    using inv by (simp_all add: group_inv_def)
  have pt: "part (g_at g t) = part ?l" for t
    using ok by (cases t) (simp_all add: places_ok_def)
  consider "part ?l = 0" | "part ?l = 1" | "part ?l = 2" by (cases ?l) auto
  then show ?thesis
  proof cases
    case 1
    show ?thesis
    proof (cases "\<exists>t. g_at g t \<in> {AtTotal, AtTest, AtSerial, AtUnlock, AtCount, AtExit}")
      case True
      then show ?thesis using free by blast
    next
      case False
      then have rest: "g_at g t \<in> {AtLoopB, AtDone}" for t
        using 1 pt [of t] by (cases "g_at g t") auto
      show ?thesis
      proof (cases "g_loop g")
        case True
        then have "g_at g t = AtLoopB" for t using rest [of t] lp by (auto simp: leaving_def)
        then show ?thesis using meet [of AtLoopB] by simp
      next
        case False
        then have "g_at g t = AtDone" for t using rest [of t] lp by auto
        then show ?thesis using assms(2) by simp
      qed
    qed
  next
    case 2
    show ?thesis
    proof (cases "\<exists>t. g_at g t = AtSerial")
      case True
      then show ?thesis using free by blast
    next
      case False
      then have "g_at g t = AtStartB" for t
        using 2 pt [of t] by (cases "g_at g t") auto
      then show ?thesis using meet [of AtStartB] by simp
    qed
  next
    case 3
    show ?thesis
    proof (cases ?l)
      case AtLock
      then have "?h = AtLockedB" using 3 pt [of High] ok by (cases ?h) (simp_all add: places_ok_def)
      then show ?thesis using lock [of Low] AtLock mx by (simp add: mutex_ok_def)
    next
      case AtLockedB
      then have "?h = AtLockedB" using 3 pt [of High] ok by (cases ?h) (simp_all add: places_ok_def)
      then show ?thesis using meet [of AtLockedB] AtLockedB by simp
    next
      case AtElevateB
      then have "?m = AtElevateB" using 3 pt [of Med] ok by (cases ?m) (simp_all add: places_ok_def)
      then show ?thesis using meet [of AtElevateB] AtElevateB by simp
    next
      case AtUnlock
      then show ?thesis using free [of Low] by simp
    next
      case AtFinishB
      then have m: "?m = AtFinishB" and h: "?h \<in> {AtLock, AtUnlock, AtFinishB}"
        using ok by (auto simp: places_ok_def)
      show ?thesis
      proof (cases ?h)
        case h': AtLock
        then show ?thesis using lock [of High] AtFinishB mx by (simp add: mutex_ok_def)
      next
        case AtUnlock
        then show ?thesis using free [of High] by simp
      next
        case h': AtFinishB
        then show ?thesis using meet [of AtFinishB] AtFinishB m by simp
      qed (use h in auto)
    qed (use 3 in simp_all)
  qed
qed

text \<open>
  C6: a group never deadlocks, whenever a shutdown is requested: in every reachable state some
  thread can go on, until all three wait at the final barrier. In particular no thread waits at the loop
  barrier for one that has left the loop.
\<close>

theorem pi_group_no_deadlock:
  assumes "reach group_init (gstep_env inversions) g"
  shows "(\<exists>h. gstep inversions g h) \<or> (\<forall>t. g_at g t = AtDone)"
  using group_can_step [OF pigroup.reach_inv [OF assms]] by blast

definition start_group :: group where
  "start_group = \<lparr>g_at = (\<lambda>_. AtTotal), g_mutex = None, g_loop = True, g_shutdown = False, g_serial = Low, g_total = 0\<rparr>"

lemma start_group_init: "group_init start_group"
  by (simp add: group_init_def start_group_def)

lemma start_group_reach: "reach group_init (gstep_env 3) start_group"
  using start_group_init by (rule reach_init)

theorem pi_group_no_deadlock_witness:
  "(\<exists>h. gstep 3 (start_group\<lparr>g_shutdown := True\<rparr>) h) \<or> (\<forall>t. g_at (start_group\<lparr>g_shutdown := True\<rparr>) t = AtDone)"
proof -
  have "gstep_env 3 start_group (start_group\<lparr>g_shutdown := True\<rparr>)" by (rule gstep_env.shutdown)
  with start_group_reach have "reach group_init (gstep_env 3) (start_group\<lparr>g_shutdown := True\<rparr>)"
    by (rule reach_step)
  then show ?thesis by (rule pi_group_no_deadlock)
qed

text \<open>A run into the situation the program is about: the high priority thread waits for the low one.\<close>

definition grp :: "place \<Rightarrow> place \<Rightarrow> place \<Rightarrow> tid option \<Rightarrow> group" where
  "grp l m h mx = \<lparr>g_at = case_tid l m h, g_mutex = mx, g_loop = True, g_shutdown = False, g_serial = Low, g_total = 0\<rparr>"

lemma case_tid_upd:
  "(case_tid l m h)(Low := p) = case_tid p m h"
  "(case_tid l m h)(Med := p) = case_tid l p h"
  "(case_tid l m h)(High := p) = case_tid l m p"
  by (rule ext, simp split: tid.split)+

lemma advance_case_tid:
  "advance T (grp l m h mx) = case_tid (if Low \<in> T then low_priority l else l)
     (if Med \<in> T then med_priority m else m) (if High \<in> T then high_priority h else h)"
  by (rule ext) (simp add: advance_def grp_def split: tid.split)

lemma grp_steps:
  "gstep 3 (grp AtTotal m h mx) (grp AtTest m h mx)" "gstep 3 (grp l AtTotal h mx) (grp l AtTest h mx)"
  "gstep 3 (grp l m AtTotal mx) (grp l m AtTest mx)"
  "gstep 3 (grp AtTest m h mx) (grp AtLoopB m h mx)" "gstep 3 (grp l AtTest h mx) (grp l AtLoopB h mx)"
  "gstep 3 (grp l m AtTest mx) (grp l m AtLoopB mx)"
  "gstep 3 (grp AtSerial m h mx) (grp AtStartB m h mx)" "gstep 3 (grp l AtSerial h mx) (grp l AtStartB h mx)"
  "gstep 3 (grp l m AtSerial mx) (grp l m AtStartB mx)"
  "gstep 3 (grp AtLock m h None) (grp AtLockedB m h (Some Low))"
  using gstep.total [where inversions = 3 and g = "grp AtTotal m h mx" and t = Low]
    gstep.total [where inversions = 3 and g = "grp l AtTotal h mx" and t = Med]
    gstep.total [where inversions = 3 and g = "grp l m AtTotal mx" and t = High]
    gstep.test_on [where inversions = 3 and g = "grp AtTest m h mx" and t = Low]
    gstep.test_on [where inversions = 3 and g = "grp l AtTest h mx" and t = Med]
    gstep.test_on [where inversions = 3 and g = "grp l m AtTest mx" and t = High]
    gstep.serial [where inversions = 3 and g = "grp AtSerial m h mx" and t = Low]
    gstep.serial [where inversions = 3 and g = "grp l AtSerial h mx" and t = Med]
    gstep.serial [where inversions = 3 and g = "grp l m AtSerial mx" and t = High]
    gstep.lock [where inversions = 3 and g = "grp AtLock m h None" and t = Low]
  by (simp_all add: grp_def go_def case_tid_upd)

lemma grp_barriers:
  "gstep 3 (grp AtLoopB AtLoopB AtLoopB mx) (grp AtSerial AtSerial AtSerial mx)"
  "gstep 3 (grp AtStartB AtStartB AtStartB mx) (grp AtLock AtElevateB AtLockedB mx)"
  "gstep 3 (grp AtLockedB m AtLockedB mx) (grp AtElevateB m AtLock mx)"
  using gstep.barrier [where inversions = 3 and g = "grp AtLoopB AtLoopB AtLoopB mx" and b = AtLoopB and u = Low]
    gstep.barrier [where inversions = 3 and g = "grp AtStartB AtStartB AtStartB mx" and b = AtStartB and u = Low]
    gstep.barrier [where inversions = 3 and g = "grp AtLockedB m AtLockedB mx" and b = AtLockedB and u = Low]
  by (simp_all add: advance_case_tid) (simp_all add: grp_def)

lemmas grp_moves = grp_steps [THEN gstep_env.thread] grp_barriers [THEN gstep_env.thread]

lemma grp_inverted: "reach group_init (gstep_env 3) (grp AtElevateB AtElevateB AtLock (Some Low))"
proof -
  have "group_init (grp AtTotal AtTotal AtTotal None)" by (simp add: group_init_def grp_def split: tid.split)
  then have "reach group_init (gstep_env 3) (grp AtTotal AtTotal AtTotal None)" by (rule reach_init)
  note start = this
  note tested = start [THEN reach_step, OF grp_moves(1), THEN reach_step, OF grp_moves(2), THEN reach_step, OF grp_moves(3),
    THEN reach_step, OF grp_moves(4), THEN reach_step, OF grp_moves(5), THEN reach_step, OF grp_moves(6)]
  note begun = tested [THEN reach_step, OF grp_moves(11), THEN reach_step, OF grp_moves(7), THEN reach_step, OF grp_moves(8),
    THEN reach_step, OF grp_moves(9)]
  show ?thesis
    by (rule begun [THEN reach_step, OF grp_moves(12), THEN reach_step, OF grp_moves(10), THEN reach_step, OF grp_moves(13)])
qed

text \<open>
  C7: every round really causes a priority inversion: the high priority thread holds the mutex only
  after the low priority thread, which held it when the high one came for it, has met the
  medium one at the elevate barrier and released the mutex.
\<close>

theorem pi_group_inversion_happens:
  assumes "reach group_init (gstep_env inversions) g"
  shows "(g_at g High = AtLock \<longrightarrow> g_at g Low \<in> {AtElevateB, AtUnlock, AtFinishB}) \<and>
    (g_at g High = AtLock \<and> g_at g Med = AtElevateB \<longrightarrow> g_mutex g = Some Low) \<and>
    (g_at g High = AtUnlock \<longrightarrow> g_mutex g = Some High \<and> g_at g Low = AtFinishB \<and> g_at g Med = AtFinishB)"
  using pigroup.reach_inv [OF assms]
  by (cases "g_at g Low") (auto simp: group_inv_def places_ok_def mutex_ok_def split: if_splits)

theorem pi_group_inversion_happens_witness:
  "g_at (grp AtElevateB AtElevateB AtLock (Some Low)) High = AtLock \<and>
   g_mutex (grp AtElevateB AtElevateB AtLock (Some Low)) = Some Low"
proof -
  have "g_at (grp AtElevateB AtElevateB AtLock (Some Low)) High = AtLock"
    "g_at (grp AtElevateB AtElevateB AtLock (Some Low)) Med = AtElevateB" by (simp_all add: grp_def)
  with pi_group_inversion_happens [OF grp_inverted] show ?thesis by blast
qed

section \<open>How many inversions\<close>

text \<open>
  On the high priority thread's place, the serial thread's place, the two flags and the count.
\<close>

definition count_ok :: "nat \<Rightarrow> place \<Rightarrow> place \<Rightarrow> bool \<Rightarrow> bool \<Rightarrow> nat \<Rightarrow> bool" where
  "count_ok n p sp loop sh tot \<longleftrightarrow>
     (sh \<longrightarrow> n \<le> tot) \<and> (\<not> loop \<longrightarrow> sh) \<and>
     (p = AtCount \<longrightarrow> tot \<le> n \<and> (loop \<longrightarrow> tot < n)) \<and>
     (part p = 0 \<and> p \<noteq> AtCount \<longrightarrow> (loop \<longrightarrow> tot \<le> n) \<and> (\<not> loop \<longrightarrow> tot = Suc n)) \<and>
     (p \<in> {AtTest, AtLoopB} \<or> part p \<noteq> 0 \<longrightarrow> n \<le> tot \<longrightarrow> sh) \<and>
     (part p \<noteq> 0 \<longrightarrow> tot \<le> n) \<and>
     (part p = 1 \<and> sp = AtSerial \<longrightarrow> loop) \<and>
     (part p = 1 \<and> sp \<noteq> AtSerial \<or> part p = 2 \<longrightarrow> \<not> loop \<or> \<not> sh)"

definition count_inv :: "nat \<Rightarrow> group \<Rightarrow> bool" where
  "count_inv n g \<longleftrightarrow> group_inv g \<and>
     count_ok n (g_at g High) (g_at g (g_serial g)) (g_loop g) (g_shutdown g) (g_total g)"

lemma count_ok_frame:
  assumes "count_ok n (f High) (f sr) loop sh tot" and "t \<noteq> High" and "f t \<noteq> AtSerial" and "y \<noteq> AtSerial"
  shows "count_ok n ((f(t := y)) High) ((f(t := y)) sr) loop sh tot"
  using assms by (cases "sr = t") (simp_all add: count_ok_def)

lemma count_ok_serial:
  assumes "count_ok n p sp loop sh tot" and "part p = 1" and "sr = t \<Longrightarrow> sp = AtSerial"
  shows "count_ok n p (if sr = t then AtStartB else sp) (loop \<and> \<not> (sr = t \<and> sh)) sh tot"
  using assms by (simp add: count_ok_def)

lemma count_ok_barrier:
  assumes "count_ok n b sp loop sh tot" and "parties b \<noteq> {}" and "High \<in> parties b"
    and "b = AtLoopB \<Longrightarrow> loop" and "b = AtStartB \<Longrightarrow> sp \<noteq> AtSerial"
  shows "count_ok n (high_priority b) (next_place u b) loop sh tot"
  using assms by (cases b; cases u) (auto simp: count_ok_def)

lemma count_inv_step:
  assumes "count_inv n g" and st: "gstep (int n) g h"
  shows "count_inv n h"
proof -
  have inv: "group_inv g" using assms(1) by (simp add: count_inv_def)
  then have ih: "group_inv h" using st by (rule group_inv_step)
  have ok: "places_ok (g_at g Low) (g_at g Med) (g_at g High)"
    and lp: "\<forall>t. (g_at g t = AtLoopB \<longrightarrow> g_loop g) \<and> (leaving (g_at g t) \<longrightarrow> \<not> g_loop g)"
    using inv by (simp_all add: group_inv_def)
  have pt: "part (g_at g t) = part (g_at g High)" for t
    using ok by (cases t) (simp_all add: places_ok_def)
  have ci: "count_ok n (g_at g High) (g_at g (g_serial g)) (g_loop g) (g_shutdown g) (g_total g)"
    using assms(1) by (simp add: count_inv_def)
  note other = count_ok_frame [where f = "g_at g" and sr = "g_serial g", OF ci]
  have nser: "next_place t (g_at g t) \<noteq> AtSerial" if "g_at g t \<noteq> AtLoopB" "g_at g t \<noteq> AtSerial" for t
    using that by (cases t; cases "g_at g t") simp_all
  from st have "count_ok n (g_at h High) (g_at h (g_serial h)) (g_loop h) (g_shutdown h) (g_total h)"
  proof (cases rule: gstep.cases)
    case (total t)
    show ?thesis
    proof (cases "t = High")
      case True
      then show ?thesis using total ci by (simp add: count_ok_def go_def)
    next
      case False
      have "part (g_at g High) = 0" using pt [of t] total(2) by simp
      then show ?thesis
        using other [OF False, of "next_place t (g_at g t)"] nser [of t] total False
        by (auto simp: count_ok_def go_def)
    qed
  next
    case (test_on t)
    show ?thesis
    proof (cases "t = High")
      case True
      then show ?thesis using test_on ci by (simp add: count_ok_def go_def)
    next
      case False
      then show ?thesis using other [OF False, of "next_place t (g_at g t)"] nser [of t] test_on by (simp add: go_def)
    qed
  next
    case (test_off t)
    show ?thesis
    proof (cases "t = High")
      case True
      then show ?thesis using test_off ci by (simp add: count_ok_def)
    next
      case False
      then show ?thesis using other [OF False, of AtExit] test_off by simp
    qed
  next
    case (barrier b u)
    have u: "g_at g u = b" using barrier by blast
    show ?thesis
    proof (cases "High \<in> parties b")
      case True
      then have "g_at g High = b" "g_at h High = high_priority b" "g_at h (g_serial h) = next_place u b"
        using barrier u by (auto simp: advance_def)
      moreover have "b = AtLoopB \<Longrightarrow> g_loop g" using lp u by blast
      moreover have "g_at g (g_serial g) \<noteq> AtSerial" if "b = AtStartB"
        using barrier that by (cases "g_serial g") simp_all
      ultimately show ?thesis
        using count_ok_barrier [of n b "g_at g (g_serial g)"] ci barrier True by simp
    next
      case False
      then have b: "b = AtElevateB" using barrier by (cases b) simp_all
      then have "part (g_at g High) = 2" using pt [of u] u by simp
      then show ?thesis using ci barrier b by (auto simp: count_ok_def advance_def)
    qed
  next
    case (serial t)
    have one: "part (g_at g High) = 1" using pt [of t] serial(2) by simp
    have nxt: "next_place t AtSerial = AtStartB" by (cases t) simp_all
    show ?thesis
    proof (cases "t = High")
      case True
      then show ?thesis using serial ci by (auto simp: count_ok_def go_def)
    next
      case False
      then show ?thesis
        using count_ok_serial [OF ci one, of "g_serial g" t] serial nxt by (simp add: go_def fun_upd_apply)
    qed
  next
    case (lock t)
    show ?thesis
    proof (cases "t = High")
      case True
      then show ?thesis using lock ci by (simp add: count_ok_def go_def)
    next
      case False
      then show ?thesis using other [OF False, of "next_place t (g_at g t)"] nser [of t] lock by (simp add: go_def)
    qed
  next
    case (unlock t)
    show ?thesis
    proof (cases "t = High")
      case True
      then show ?thesis using unlock ci by (simp add: count_ok_def go_def)
    next
      case False
      then show ?thesis using other [OF False, of "next_place t (g_at g t)"] nser [of t] unlock by (simp add: go_def)
    qed
  next
    case (count t)
    then have "t = High" using ok by (cases t) (simp_all add: places_ok_def)
    then show ?thesis using count ci by (auto simp: count_ok_def go_def)
  next
    case (exit t)
    then have "\<not> g_loop g" using lp by (auto simp: leaving_def)
    then have sh: "g_shutdown g" using ci by (simp add: count_ok_def)
    show ?thesis
    proof (cases "t = High")
      case True
      then show ?thesis using exit ci sh by (simp add: count_ok_def go_def)
    next
      case False
      then show ?thesis using other [OF False, of "next_place t (g_at g t)"] nser [of t] exit sh by (simp add: go_def)
    qed
  qed
  with ih show ?thesis by (simp add: count_inv_def)
qed

definition own_init :: "group \<Rightarrow> bool" where
  "own_init g \<longleftrightarrow> group_init g \<and> \<not> g_shutdown g"

interpretation picount: machine own_init "gstep (int n)" "count_inv n" for n
proof unfold_locales
  show "count_inv n g" if "own_init g" for g
    using that pigroup.init_inv [of g]
    by (simp add: own_init_def count_inv_def count_ok_def group_init_def)
qed (rule count_inv_step)

section \<open>Termination\<close>

text \<open>Each step lowers the weight of the group; finishing a round is paid for by the count.\<close>

fun rank_lm :: "place \<Rightarrow> nat" where
  "rank_lm AtTotal = 10"
| "rank_lm AtTest = 9"
| "rank_lm AtLoopB = 8"
| "rank_lm AtSerial = 7"
| "rank_lm AtStartB = 6"
| "rank_lm AtLock = 5"
| "rank_lm AtLockedB = 4"
| "rank_lm AtElevateB = 3"
| "rank_lm AtUnlock = 2"
| "rank_lm AtFinishB = 1"
| "rank_lm AtExit = 1"
| "rank_lm _ = 0"

fun rank_h :: "place \<Rightarrow> nat" where
  "rank_h AtTotal = 33"
| "rank_h AtTest = 32"
| "rank_h AtLoopB = 31"
| "rank_h AtSerial = 30"
| "rank_h AtStartB = 29"
| "rank_h AtLockedB = 28"
| "rank_h AtLock = 27"
| "rank_h AtUnlock = 26"
| "rank_h AtFinishB = 25"
| "rank_h AtCount = 1"
| "rank_h AtExit = 1"
| "rank_h _ = 0"

definition weight :: "nat \<Rightarrow> group \<Rightarrow> nat" where
  "weight n g = 33 * (n + 2 - g_total g) + rank_h (g_at g High) + rank_lm (g_at g Low) + rank_lm (g_at g Med)"

lemma rank_next:
  assumes "places_ok l m h"
  shows "l \<notin> {AtFinishB, AtDone} \<Longrightarrow> rank_lm (low_priority l) < rank_lm l"
    "m \<notin> {AtFinishB, AtDone} \<Longrightarrow> rank_lm (med_priority m) < rank_lm m"
    "h \<notin> {AtCount, AtDone} \<Longrightarrow> rank_h (high_priority h) < rank_h h"
proof -
  show "l \<notin> {AtFinishB, AtDone} \<Longrightarrow> rank_lm (low_priority l) < rank_lm l"
    using assms by (cases l) (simp_all add: places_ok_def)
  show "m \<notin> {AtFinishB, AtDone} \<Longrightarrow> rank_lm (med_priority m) < rank_lm m"
    using assms by (cases m) (simp_all add: places_ok_def)
  show "h \<notin> {AtCount, AtDone} \<Longrightarrow> rank_h (high_priority h) < rank_h h"
    using assms by (cases h) (simp_all add: places_ok_def)
qed

text \<open>A thread that goes on alone, not counting.\<close>

lemma weight_go:
  assumes "places_ok (g_at g Low) (g_at g Med) (g_at g High)"
    and "g_at g t \<notin> {AtFinishB, AtCount, AtDone}" and "g_total h = g_total g"
    and "g_at h = (g_at g)(t := next_place t (g_at g t))"
  shows "weight n h < weight n g"
  using assms(2-) rank_next [OF assms(1)] by (cases t) (simp_all add: weight_def)

lemma weight_step:
  assumes "count_inv n g" and "gstep (int n) g h"
  shows "weight n h < weight n g"
proof -
  have inv: "group_inv g" using assms(1) by (simp add: count_inv_def)
  have ok: "places_ok (g_at g Low) (g_at g Med) (g_at g High)" using inv by (simp add: group_inv_def)
  note alone = weight_go [OF ok]
  from assms(2) show ?thesis
  proof (cases rule: gstep.cases)
    case (test_off t)
    then show ?thesis by (cases t) (simp_all add: weight_def)
  next
    case (barrier b u)
    then show ?thesis by (cases b) (simp_all add: weight_def advance_def)
  next
    case (count t)
    then have t: "t = High" using ok by (cases t) (simp_all add: places_ok_def)
    have "g_total g \<le> n" using assms(1) count t by (simp add: count_inv_def count_ok_def)
    then have "n + 2 - g_total g = Suc (n + 2 - Suc (g_total g))" by simp
    then show ?thesis using count t by (simp add: weight_def go_def)
  next
    case (total t)
    then show ?thesis using alone [of t h] by (simp add: go_def)
  next
    case (test_on t)
    then show ?thesis using alone [of t h] by (simp add: go_def)
  next
    case (serial t)
    then show ?thesis using alone [of t h] by (simp add: go_def)
  next
    case (lock t)
    then show ?thesis using alone [of t h] by (simp add: go_def)
  next
    case (unlock t)
    then show ?thesis using alone [of t h] by (simp add: go_def)
  next
    case (exit t)
    then show ?thesis using alone [of t h] by (simp add: go_def)
  qed
qed

lemma weight_run:
  "(gstep (int n) ^^ k) g h \<Longrightarrow> count_inv n g \<Longrightarrow> count_inv n h \<and> k + weight n h \<le> weight n g"
proof (induction k arbitrary: h)
  case 0
  then show ?case by simp
next
  case (Suc k)
  from Suc.prems(1) obtain m where m: "(gstep (int n) ^^ k) g m" "gstep (int n) m h" by auto
  have "count_inv n m \<and> k + weight n m \<le> weight n g" using Suc.IH [OF m(1)] Suc.prems(2) .
  then show ?case using weight_step [OF _ m(2)] count_inv_step [OF _ m(2)] by fastforce
qed

text \<open>
  C8: asked for \<open>n\<close> inversions and left alone, a group ends: no run takes more than
  \<open>33 n + 119\<close> steps, and when no step is possible all three threads have left their loops. By then
  it has done one inversion more than it was asked for: the request for a shutdown is seen only
  behind the loop barrier, when all three threads have begun one more round.
\<close>

theorem pi_group_terminates:
  assumes "own_init g" and "(gstep (int n) ^^ k) g h"
  shows "k \<le> 33 * n + 119 \<and> ((\<forall>h'. \<not> gstep (int n) h h') \<longrightarrow> (\<forall>t. g_at h t = AtDone) \<and> g_total h = n + 1)"
proof -
  have ci: "count_inv n g" using assms(1) by (rule picount.init_inv)
  have h: "count_inv n h" and w: "k + weight n h \<le> weight n g" using weight_run [OF assms(2) ci] by auto
  have "weight n g = 33 * n + 119" using assms(1) by (simp add: own_init_def group_init_def weight_def)
  moreover have "g_total h = n + 1" if "\<forall>t. g_at h t = AtDone"
  proof -
    have "\<not> g_loop h" using h that by (auto simp: count_inv_def group_inv_def leaving_def)
    then show ?thesis using h that by (simp add: count_inv_def count_ok_def)
  qed
  moreover have "\<forall>t. g_at h t = AtDone" if "\<forall>h'. \<not> gstep (int n) h h'"
    using group_can_step [of h "int n"] h that by (auto simp: count_inv_def)
  ultimately show ?thesis using w by auto
qed

theorem pi_group_terminates_witness:
  "\<exists>h. (gstep (int 2) ^^ 1) start_group h \<and>
     ((\<forall>h'. \<not> gstep (int 2) h h') \<longrightarrow> (\<forall>t. g_at h t = AtDone) \<and> g_total h = 2 + 1)"
proof -
  let ?h = "(go Low start_group)\<lparr>g_shutdown := g_shutdown start_group \<or>
      (0 \<le> int 2 \<and> int 2 \<le> int (g_total start_group))\<rparr>"
  have "gstep (int 2) start_group ?h" by (rule gstep.total) (simp add: start_group_def)
  then have run: "(gstep (int 2) ^^ 1) start_group ?h" by (simp add: eq_OO)
  have "own_init start_group" using start_group_init by (simp add: own_init_def start_group_def)
  from pi_group_terminates [OF this run] run show ?thesis by blast
qed

end
