(* ===== verification/PiStress.thy ===== *)
theory PiStress
  imports PiGroup RtUtils
begin

text \<open>
  The rest of \<^verbatim>\<open>src/pi_tests/pi_stress.c\<close>: the attributes of the threads and the set-up of a group as
  sequences of calls that stop at the first failure, the CPUs of the administration and the
  test threads, the watchdog, one round of the reporter, and the command line with its
  scheduling descriptions.
\<close>

section \<open>Set-up sequences\<close>

abbreviation (input) SCHED_DEADLINE :: int where "SCHED_DEADLINE \<equiv> 6"

datatype pi_call =
    AttrInit | AttrAffinity | AttrPolicy int | AttrInherit | AttrParam int
  | MutexattrInit | MutexattrInherit | MutexInit
  | BarrierInit place int | LoopMutexInit | LoopMutexLock | LoopMutexUnlock
  | CreateThread tid
  | SigFillSet | SigBlock | SigEmptySet | SigAddTerm | SigUnblock

type_synonym pi_result = "(pi_call, string) seq_result"

definition setup_thread_attr_calls :: "int \<Rightarrow> int \<Rightarrow> (pi_call \<times> string) list" where
  "setup_thread_attr_calls policy prio =
     [(AttrInit, ''initializing thread attribute''), (AttrAffinity, ''setting affinity attribute'')] @
     (if policy = SCHED_DEADLINE then []
      else [(AttrPolicy policy, ''setting attribute policy''),
            (AttrInherit, ''setting explicit scheduling inheritance''),
            (AttrParam prio, ''setting scheduler param'')])"

definition setup_thread_attr :: "(pi_call \<Rightarrow> int) \<Rightarrow> int \<Rightarrow> int \<Rightarrow> pi_result" where
  "setup_thread_attr st policy prio = seq_calls st (setup_thread_attr_calls policy prio)"

text \<open>
  The barriers with the number of threads that meet at each. Between the last two calls the
  field \<open>loop\<close> becomes 1, which cannot fail (\<open>group_init\<close> of \<open>PiGroup\<close>).
\<close>

definition initialize_group_calls :: "(pi_call \<times> string) list" where
  "initialize_group_calls =
     [(MutexattrInit, ''initializing mutex attribute''), (MutexattrInherit, ''setting mutex attribute policy''),
      (MutexInit, ''initializing mutex''),
      (BarrierInit AtStartB 3, ''start_barrier''), (BarrierInit AtLockedB 2, ''locked_barrier''),
      (BarrierInit AtElevateB 2, ''elevate_barrier''), (BarrierInit AtFinishB 3, ''finish_barrier''),
      (BarrierInit AtLoopB 3, ''loop_barrier''),
      (LoopMutexInit, ''pthread_mutex_init''), (LoopMutexLock, ''pthread_mutex_lock''),
      (LoopMutexUnlock, ''pthread_mutex_unlock'')]"

definition initialize_group :: "(pi_call \<Rightarrow> int) \<Rightarrow> pi_result" where
  "initialize_group st = seq_calls st initialize_group_calls"

record sched_attr =
  sa_policy :: int
  sa_nice :: int
  sa_priority :: int
  sa_runtime :: int
  sa_deadline :: int
  sa_period :: int

definition create_group_calls :: "sched_attr \<Rightarrow> sched_attr \<Rightarrow> sched_attr \<Rightarrow> (pi_call \<times> string) list" where
  "create_group_calls low med high =
     initialize_group_calls @
     setup_thread_attr_calls (sa_policy low) (sa_priority low) @ [(CreateThread Low, ''creating low_priority thread'')] @
     setup_thread_attr_calls (sa_policy med) (sa_priority med) @ [(CreateThread Med, ''creating med_priority thread'')] @
     setup_thread_attr_calls (sa_policy high) (sa_priority high) @ [(CreateThread High, ''creating high_priority thread'')]"

definition create_group :: "(pi_call \<Rightarrow> int) \<Rightarrow> sched_attr \<Rightarrow> sched_attr \<Rightarrow> sched_attr \<Rightarrow> pi_result" where
  "create_group st low med high = seq_calls st (create_group_calls low med high)"

definition block_signals :: "(pi_call \<Rightarrow> int) \<Rightarrow> pi_result" where
  "block_signals st = seq_calls st [(SigFillSet, ''setting up full signal set''), (SigBlock, ''setting signal mask'')]"

definition allow_sigterm :: "(pi_call \<Rightarrow> int) \<Rightarrow> pi_result" where
  "allow_sigterm st =
     seq_calls st [(SigEmptySet, ''creating empty signal set''), (SigAddTerm, ''adding SIGTERM to signal set''),
                   (SigUnblock, ''unblocking SIGTERM'')]"

section \<open>CPUs\<close>

text \<open>The CPUs of the test threads and of the administration; a set is a list of CPUs.\<close>

definition set_cpu_affinity ::
  "int \<Rightarrow> int \<Rightarrow> int \<Rightarrow> int list \<Rightarrow> int \<Rightarrow> (int list \<times> int list) option" where
  "set_cpu_affinity num_processors uniprocessor getaffinity current setaffinity =
     (if num_processors = 1 \<or> uniprocessor \<noteq> 0 then Some ([0], [0])
      else if getaffinity \<noteq> 0 then None
      else case find (\<lambda>i. i \<in> set current) [0..num_processors - 1] of
             None \<Rightarrow> None
           | Some admin_proc \<Rightarrow>
               if setaffinity \<noteq> 0 then None
               else Some ([admin_proc + 1..num_processors - 1], [admin_proc]))"

text \<open>The CPUs \<open>main\<close> gives to the groups: from the first test CPU on, back to 0 after the last.\<close>

definition first_core :: "int \<Rightarrow> int list \<Rightarrow> int" where
  "first_core num_processors test_mask =
     (case find (\<lambda>i. i \<in> set test_mask) [0..num_processors - 1] of Some c \<Rightarrow> c | None \<Rightarrow> max 0 num_processors)"

fun group_cpus :: "int \<Rightarrow> int \<Rightarrow> nat \<Rightarrow> int list" where
  "group_cpus num_processors core 0 = []"
| "group_cpus num_processors core (Suc n) =
     core # group_cpus num_processors (if core + 1 \<ge> num_processors then 0 else core + 1) n"

definition verify_cpu :: "int list \<Rightarrow> int \<Rightarrow> bool" where
  "verify_cpu mask_cpus cpu \<longleftrightarrow> cpu \<in> set mask_cpus"

section \<open>The watchdog\<close>

abbreviation (input) WATCHDOG_LIMIT :: int where "WATCHDOG_LIMIT \<equiv> 5"

record watched =
  wd_watchdog :: int
  wd_hits :: int
  wd_inversions :: int
  wd_total :: int

definition watchdog_clear :: "watched list \<Rightarrow> watched list" where
  "watchdog_clear gs = map (\<lambda>g. g\<lparr>wd_watchdog := 0\<rparr>) gs"

text \<open>One group: what becomes of it, and whether it is reported as deadlocked.\<close>

definition watch_group :: "watched \<Rightarrow> watched \<times> bool" where
  "watch_group g =
     (if wd_watchdog g = 0
      then if u64 (wd_inversions g) = wd_total g then (g, False)
           else (g\<lparr>wd_hits := wd_hits g + 1\<rparr>, wd_hits g + 1 \<ge> WATCHDOG_LIMIT)
      else (g\<lparr>wd_hits := 0\<rparr>, False))"

definition watchdog_check :: "watched list \<Rightarrow> watched list \<times> bool" where
  "watchdog_check gs = (map (fst \<circ> watch_group) gs, list_ex (snd \<circ> watch_group) gs)"

definition total_inversions :: "watched list \<Rightarrow> int" where
  "total_inversions gs = fold (\<lambda>g t. u64 (t + wd_total g)) gs 0"

section \<open>The reporter\<close>

datatype rep_op = LockShutdown | UnlockShutdown | Sleep | PrintTotal | CheckDuration | SetShutdown
  | CheckInterrupt | CheckWatchdog | ClearWatchdog

datatype rep_next = RepContinue | RepBreak

record rep_in =
  ri_shutdown1 :: bool   \<comment> \<open>seen at the top of the loop\<close>
  ri_sleep :: int
  ri_shutdown2 :: bool   \<comment> \<open>seen before printing\<close>
  ri_expired :: bool     \<comment> \<open>\<open>end && time(NULL) > end\<close>\<close>
  ri_interrupt :: bool
  ri_watchdog :: bool    \<comment> \<open>the watchdog reports a failure\<close>

text \<open>One round of the loop, as the operations it makes.\<close>

definition reporter_round :: "int \<Rightarrow> rep_in \<Rightarrow> rep_op list \<times> rep_next" where
  "reporter_round quiet i =
     (if ri_shutdown1 i then ([LockShutdown, UnlockShutdown], RepBreak)
      else
        let top = [LockShutdown, UnlockShutdown, Sleep]
        in if ri_sleep i \<noteq> 0 then (top, RepBreak)
           else
             let body = top @ (if quiet = 0 then LockShutdown # (if ri_shutdown2 i then [] else [PrintTotal]) else []) @
                        [UnlockShutdown, CheckDuration]
             in if ri_expired i then (body @ [SetShutdown], RepContinue)
                else if ri_interrupt i then (body @ [CheckInterrupt], RepBreak)
                else if ri_watchdog i then (body @ [CheckInterrupt, CheckWatchdog, SetShutdown], RepBreak)
                else (body @ [CheckInterrupt, CheckWatchdog, ClearWatchdog], RepContinue))"

text \<open>
  The thread: a first sleep, whose failure ends it at once, the rounds, and the request for a
  shutdown after the loop. The flag says whether it has ended.
\<close>

fun reporter_loop :: "int \<Rightarrow> rep_in list \<Rightarrow> rep_op list \<times> bool" where
  "reporter_loop quiet [] = ([], False)"
| "reporter_loop quiet (i # is) =
     (case reporter_round quiet i of
        (ops, RepBreak) \<Rightarrow> (ops @ [SetShutdown], True)
      | (ops, RepContinue) \<Rightarrow> (case reporter_loop quiet is of (ops', e) \<Rightarrow> (ops @ ops', e)))"

definition reporter :: "int \<Rightarrow> int \<Rightarrow> rep_in list \<Rightarrow> rep_op list \<times> bool" where
  "reporter quiet first_sleep ins =
     (if first_sleep \<noteq> 0 then ([Sleep], True)
      else case reporter_loop quiet ins of (ops, e) \<Rightarrow> (Sleep # ops, e))"

text \<open>\<open>set_shutdown_flag\<close> is atomic here: it takes and gives back the mutex itself.\<close>

definition set_shutdown_flag :: "int \<Rightarrow> int" where
  "set_shutdown_flag shutdown = (if shutdown = 0 then 1 else shutdown)"

text \<open>Whether a thread that makes these operations unlocks the mutex only when it holds it.\<close>

fun lock_discipline :: "bool \<Rightarrow> rep_op list \<Rightarrow> bool option" where
  "lock_discipline held [] = Some held"
| "lock_discipline held (LockShutdown # ops) = (if held then None else lock_discipline True ops)"
| "lock_discipline held (UnlockShutdown # ops) = (if held then lock_discipline False ops else None)"
| "lock_discipline held (SetShutdown # ops) = (if held then None else lock_discipline held ops)"
| "lock_discipline held (op # ops) = lock_discipline held ops"

section \<open>Scheduling descriptions\<close>

text \<open>\<open>strsep\<close> with the separators comma and equals sign: the fields, empty ones included.\<close>

fun strsep_fields :: "string \<Rightarrow> string list" where
  "strsep_fields [] = [[]]"
| "strsep_fields (c # s) =
     (if c = CHR '','' \<or> c = CHR ''='' then [] # strsep_fields s
      else case strsep_fields s of [] \<Rightarrow> [[c]] | f # fs \<Rightarrow> (c # f) # fs)"

text \<open>
  The number parsers; \<open>None\<close> when the program exits. \<open>strtol\<close> sets \<open>errno\<close> only for numbers out of range.
\<close>

definition parse_unsigned :: "string \<Rightarrow> int option" where
  "parse_unsigned s = (case strtoul10 s of (n, _, erange) \<Rightarrow> if erange \<and> n = ULONG_MAX then None else Some n)"

definition parse_signed :: "string \<Rightarrow> int option" where
  "parse_signed s =
     (case strtol10 s of (n, _, erange) \<Rightarrow> if erange \<and> (n = LONG_MAX \<or> n = LONG_MIN) then None else Some n)"

definition zero_attr :: sched_attr where
  "zero_attr = \<lparr>sa_policy = 0, sa_nice = 0, sa_priority = 0, sa_runtime = 0, sa_deadline = 0, sa_period = 0\<rparr>"

text \<open>A key with its value.\<close>

definition sched_key :: "string \<Rightarrow> string \<Rightarrow> string option \<times> sched_attr \<Rightarrow> (string option \<times> sched_attr) option" where
  "sched_key k v st =
     (let (i, sa) = st
      in if k = ''id'' then Some (Some v, sa)
         else if k = ''policy'' then Some (i, sa\<lparr>sa_policy := string_to_policy v\<rparr>)
         else if k = ''nice'' then map_option (\<lambda>n. (i, sa\<lparr>sa_nice := s32 n\<rparr>)) (parse_signed v)
         else if k = ''priority'' then map_option (\<lambda>n. (i, sa\<lparr>sa_priority := u32 n\<rparr>)) (parse_unsigned v)
         else if k = ''runtime'' then map_option (\<lambda>n. (i, sa\<lparr>sa_runtime := n\<rparr>)) (parse_unsigned v)
         else if k = ''deadline'' then map_option (\<lambda>n. (i, sa\<lparr>sa_deadline := n\<rparr>)) (parse_unsigned v)
         else if k = ''period'' then map_option (\<lambda>n. (i, sa\<lparr>sa_period := n\<rparr>)) (parse_unsigned v)
         else Some st)"

fun sched_fields :: "string list \<Rightarrow> string option \<times> sched_attr \<Rightarrow> (string option \<times> sched_attr) option" where
  "sched_fields (k # v # fs) st = (case sched_key k v st of None \<Rightarrow> None | Some st1 \<Rightarrow> sched_fields fs st1)"
| "sched_fields _ st = Some st"

record pi_sched =
  ps_low :: "sched_attr option"
  ps_med :: "sched_attr option"
  ps_high :: "sched_attr option"

text \<open>
  \<open>process_sched_line\<close>: whether it succeeds and the attributes set so far (\<open>None\<close> in \<open>pi_sched\<close> where the
  bit of \<open>sa_initialized\<close> is off).
\<close>

definition process_sched_line :: "string \<Rightarrow> pi_sched \<Rightarrow> (bool \<times> pi_sched) option" where
  "process_sched_line arg ps =
     (case sched_fields (strsep_fields arg) (None, zero_attr) of
        None \<Rightarrow> None
      | Some (None, sa) \<Rightarrow> Some (False, ps)
      | Some (Some i, sa) \<Rightarrow>
          if i = ''low'' then Some (True, ps\<lparr>ps_low := Some sa\<rparr>)
          else if i = ''med'' then Some (True, ps\<lparr>ps_med := Some sa\<rparr>)
          else if i = ''high'' then Some (True, ps\<lparr>ps_high := Some sa\<rparr>)
          else Some (False, ps))"

definition setup_sched_attr :: "int \<Rightarrow> int \<Rightarrow> sched_attr" where
  "setup_sched_attr policy prio = zero_attr\<lparr>sa_policy := policy, sa_priority := u32 prio\<rparr>"

text \<open>The attributes of low, medium, high and administration threads.\<close>

definition setup_sched_config ::
  "int \<Rightarrow> int \<Rightarrow> pi_sched \<Rightarrow> sched_attr \<times> sched_attr \<times> sched_attr \<times> sched_attr" where
  "setup_sched_config prio_min policy ps =
     ((case ps_low ps of Some a \<Rightarrow> a | None \<Rightarrow> setup_sched_attr policy (prio_min + 0)),
      (case ps_med ps of Some a \<Rightarrow> a | None \<Rightarrow> setup_sched_attr policy (prio_min + 1)),
      (case ps_high ps of Some a \<Rightarrow> a | None \<Rightarrow> setup_sched_attr policy (prio_min + 2)),
      setup_sched_attr policy (prio_min + 3))"

section \<open>The command line\<close>

record pi_opts =
  pi_duration :: int
  pi_verbose :: int
  pi_quiet :: int
  pi_inversions :: int
  pi_ngroups :: int
  pi_policy :: int
  pi_prompt :: int
  pi_debugging :: int
  pi_uniprocessor :: int
  pi_lockall :: int
  pi_sched_of :: pi_sched
  pi_errors :: int

datatype pi_opt = PiHelp | PiT string | PiV | PiQ | PiI string | PiG string | PiR | PiS string | PiP | PiD
  | PiVersion | PiU | PiM

text \<open>One option; \<open>None\<close> when the program exits.\<close>

definition pi_option :: "pi_opt \<Rightarrow> pi_opts \<Rightarrow> pi_opts option" where
  "pi_option opt p =
     (case opt of
        PiHelp \<Rightarrow> None
      | PiT a \<Rightarrow> Some (p\<lparr>pi_duration := atoi a\<rparr>)
      | PiV \<Rightarrow> Some (p\<lparr>pi_verbose := 1, pi_quiet := 0\<rparr>)
      | PiQ \<Rightarrow> Some (p\<lparr>pi_verbose := 0, pi_quiet := 1\<rparr>)
      | PiI a \<Rightarrow> Some (p\<lparr>pi_inversions := atoi a\<rparr>)
      | PiG a \<Rightarrow> Some (p\<lparr>pi_ngroups := atoi a\<rparr>)
      | PiR \<Rightarrow> Some (p\<lparr>pi_policy := 2\<rparr>)
      | PiS a \<Rightarrow>
          (case process_sched_line a (pi_sched_of p) of
             None \<Rightarrow> None
           | Some (ok, ps) \<Rightarrow>
               Some (if ok then p\<lparr>pi_sched_of := ps\<rparr> else p\<lparr>pi_sched_of := ps, pi_errors := 1\<rparr>))
      | PiP \<Rightarrow> Some (p\<lparr>pi_prompt := 1\<rparr>)
      | PiD \<Rightarrow> Some (p\<lparr>pi_debugging := 1\<rparr>)
      | PiVersion \<Rightarrow> None
      | PiU \<Rightarrow> Some (p\<lparr>pi_uniprocessor := 1\<rparr>)
      | PiM \<Rightarrow> Some (p\<lparr>pi_lockall := 1\<rparr>))"

fun process_command_line :: "pi_opt list \<Rightarrow> pi_opts \<Rightarrow> pi_opts option" where
  "process_command_line [] p = Some p"
| "process_command_line (opt # opts) p =
     (case pi_option opt p of None \<Rightarrow> None | Some p1 \<Rightarrow> process_command_line opts p1)"

section \<open>Properties\<close>

definition starts_thread :: "pi_call \<Rightarrow> bool" where
  "starts_thread c \<longleftrightarrow> c \<in> {CreateThread Low, CreateThread Med, CreateThread High}"

lemma no_thread_in_setup:
  "filter starts_thread (map fst (setup_thread_attr_calls p q)) = []"
  "filter starts_thread (map fst initialize_group_calls) = []"
  by (simp_all add: setup_thread_attr_calls_def initialize_group_calls_def starts_thread_def)

lemma create_group_threads:
  "filter starts_thread (map fst (create_group_calls low med high)) = [CreateThread Low, CreateThread Med, CreateThread High]"
  unfolding create_group_calls_def map_append filter_append no_thread_in_setup
  by (simp add: starts_thread_def)

text \<open>
  Setting up a group makes its calls in order and stops at the first that fails, with that call's
  message; it succeeds exactly when none fails, and then the threads were started in the
  order low, medium, high.
\<close>

theorem create_group_first_failure:
  "case create_group st low med high of
     SeqOk ds \<Rightarrow> ds = map fst (create_group_calls low med high) \<and> (\<forall>c \<in> set ds. st c = 0) \<and>
       filter starts_thread ds = [CreateThread Low, CreateThread Med, CreateThread High]
   | SeqFail ds m \<Rightarrow>
       \<exists>n < length (create_group_calls low med high).
         ds = map fst (take (Suc n) (create_group_calls low med high)) \<and> m = snd (create_group_calls low med high ! n) \<and>
         st (last ds) \<noteq> 0 \<and> (\<forall>i < n. st (fst (create_group_calls low med high ! i)) = 0)"
proof -
  define cs where "cs = create_group_calls low med high"
  show ?thesis
  proof (cases "seq_calls st cs")
    case (SeqOk ds)
    have ds: "ds = map fst cs" using SeqOk by (rule seq_calls_okD)
    have "\<forall>c \<in> fst ` set cs. st c = 0" using SeqOk seq_calls_ok_iff [of st cs] by blast
    moreover have "filter starts_thread ds = [CreateThread Low, CreateThread Med, CreateThread High]"
      unfolding ds cs_def by (rule create_group_threads)
    ultimately show ?thesis
      unfolding create_group_def cs_def [symmetric] SeqOk seq_result.case using ds by simp
  next
    case (SeqFail ds m)
    from seq_calls_failD [OF SeqFail] obtain n where n: "n < length cs" "ds = map fst (take (Suc n) cs)"
      "m = snd (cs ! n)" "st (fst (cs ! n)) \<noteq> 0" "\<forall>i < n. st (fst (cs ! i)) = 0" by blast
    have "last ds = fst (cs ! n)" unfolding n(2) using n(1) by (simp add: take_Suc_conv_app_nth)
    with n show ?thesis
      unfolding create_group_def cs_def [symmetric] SeqFail seq_result.case by metis
  qed
qed

theorem create_group_first_failure_witness:
  "create_group (\<lambda>c. if c = MutexInit then 22 else 0) zero_attr zero_attr zero_attr =
     SeqFail [MutexattrInit, MutexattrInherit, MutexInit] ''initializing mutex''"
proof -
  let ?r = "create_group (\<lambda>c. if c = MutexInit then 22 else 0) zero_attr zero_attr zero_attr"
  have "?r = SeqFail [MutexattrInit, MutexattrInherit, MutexInit] ''initializing mutex''"
    by (simp add: create_group_def create_group_calls_def initialize_group_calls_def)
  with create_group_first_failure [where st = "\<lambda>c. if c = MutexInit then 22 else 0"
      and low = zero_attr and med = zero_attr and high = zero_attr]
  show ?thesis by simp
qed

lemma find_upto:
  assumes "0 \<le> a" and "a < n" and "P a" and "\<forall>i. 0 \<le> i \<and> i < a \<longrightarrow> \<not> P i"
  shows "find P [0..n - 1] = Some (a :: int)"
proof -
  have "[0..n - 1] = [0..a - 1] @ a # [a + 1..n - 1]"
    using assms upto_split1 [of 0 a "n - 1"] upto_rec1 [of a "n - 1"] by simp
  moreover have "find P [0..a - 1] = None" using assms(4) by (auto simp: find_None_iff)
  moreover have "find P (xs @ ys) = (case find P xs of None \<Rightarrow> find P ys | Some x \<Rightarrow> Some x)" for xs ys
    by (induction xs) auto
  ultimately show ?thesis using assms(3) by simp
qed

lemma set_cpu_affinity_masks:
  assumes "set_cpu_affinity n 0 0 current 0 = Some (test, admin)" and "n \<noteq> 1"
  shows "\<exists>a. admin = [a] \<and> test = [a + 1..n - 1] \<and> 0 \<le> a \<and> a < n \<and> a \<in> set current"
  using assms by (auto simp: set_cpu_affinity_def find_Some_iff split: option.splits)

lemma group_cpus_run:
  "0 \<le> c \<Longrightarrow> c + int k \<le> n \<Longrightarrow> group_cpus n c k = [c..c + int k - 1]"
proof (induction k arbitrary: c)
  case (Suc k)
  show ?case
  proof (cases "k = 0")
    case False
    then have "c + 1 < n" using Suc.prems by simp
    then show ?thesis using Suc.IH [of "c + 1"] Suc.prems upto_rec1 [of c "c + 1 + int k - 1"]
      by (simp add: algebra_simps)
  qed (use Suc.prems in simp)
qed simp

text \<open>
  With no more groups than test CPUs, every group gets a test CPU of its own, and none the
  administration's; but when the only CPU the program may use is the last one, there is no test CPU and
  the first group is bound to a CPU that does not exist.
\<close>

theorem groups_on_test_cpus:
  assumes "set_cpu_affinity n 0 0 current 0 = Some (test, admin)" and "n \<noteq> 1"
  shows "(test \<noteq> [] \<and> k \<le> length test \<longrightarrow>
      set (group_cpus n (first_core n test) k) \<subseteq> set test \<and> distinct (group_cpus n (first_core n test) k) \<and>
      set (group_cpus n (first_core n test) k) \<inter> set admin = {}) \<and>
    (test = [] \<longrightarrow> hd (group_cpus n (first_core n test) (Suc k)) = n)"
proof -
  obtain a where a: "admin = [a]" "test = [a + 1..n - 1]" "0 \<le> a" "a < n"
    using set_cpu_affinity_masks [OF assms] by blast
  have "set (group_cpus n (first_core n test) k) \<subseteq> set test \<and> distinct (group_cpus n (first_core n test) k) \<and>
      set (group_cpus n (first_core n test) k) \<inter> set admin = {}" if ne: "test \<noteq> []" and k: "k \<le> length test"
  proof -
    have lt: "a + 1 < n" using ne a by simp
    have "find (\<lambda>i. i \<in> set test) [0..n - 1] = Some (a + 1)" using a lt by (intro find_upto) auto
    then have fc: "first_core n test = a + 1" by (simp add: first_core_def)
    have "group_cpus n (a + 1) k = [a + 1..a + 1 + int k - 1]"
      using a lt k by (intro group_cpus_run) auto
    then show ?thesis unfolding fc using a k lt by auto
  qed
  moreover have "first_core n [] = n" using a by (simp add: first_core_def find_None_iff [THEN iffD2])
  ultimately show ?thesis by simp
qed

theorem groups_on_test_cpus_witness:
  "set (group_cpus 4 (first_core 4 [1, 2, 3]) 3) \<subseteq> {1, 2, 3} \<and> hd (group_cpus 4 (first_core 4 []) 2) = 4"
proof -
  have "set_cpu_affinity 4 0 0 [0, 1, 2, 3] 0 = Some ([1, 2, 3], [0])" by code_simp
  moreover have "set_cpu_affinity 4 0 0 [3] 0 = Some ([], [3])" by code_simp
  ultimately show ?thesis
    using groups_on_test_cpus [of 4 "[0, 1, 2, 3]" "[1, 2, 3]" "[0]" 3] groups_on_test_cpus [of 4 "[3]" "[]" "[3]" 1]
    by (simp add: numeral_2_eq_2)
qed

lemma lock_discipline_append:
  "lock_discipline h (xs @ ys) = (case lock_discipline h xs of None \<Rightarrow> None | Some h' \<Rightarrow> lock_discipline h' ys)"
  by (induction h xs rule: lock_discipline.induct) auto

lemma reporter_round_discipline:
  "lock_discipline False (fst (reporter_round quiet i)) =
     (if quiet \<noteq> 0 \<and> \<not> ri_shutdown1 i \<and> ri_sleep i = 0 then None else Some False)"
  by (simp add: reporter_round_def Let_def)

lemma reporter_loop_discipline:
  "lock_discipline False (fst (reporter_loop 0 ins)) = Some False"
proof (induction ins)
  case (Cons i ins)
  obtain ops nx where r: "reporter_round 0 i = (ops, nx)" by (cases "reporter_round 0 i") blast
  have "lock_discipline False ops = Some False" using reporter_round_discipline [of 0 i] r by simp
  then show ?case using Cons r by (cases nx; cases "reporter_loop 0 ins") (simp_all add: lock_discipline_append)
qed simp

text \<open>
  Without \<open>--quiet\<close> the reporter holds the shutdown mutex exactly around its looks at the flag,
  over its whole run; with \<open>--quiet\<close> its very first round, once past the sleep, unlocks a mutex
  that it does not hold.
\<close>

theorem reporter_lock_discipline:
  "lock_discipline False (fst (reporter 0 first_sleep ins)) = Some False \<and>
   lock_discipline False (fst (reporter 1 0 (\<lparr>ri_shutdown1 = False, ri_sleep = 0, ri_shutdown2 = sh2,
     ri_expired = ex, ri_interrupt = irq, ri_watchdog = wd\<rparr> # ins))) = None"
proof
  show "lock_discipline False (fst (reporter 0 first_sleep ins)) = Some False"
    using reporter_loop_discipline [of ins] by (auto simp: reporter_def split: prod.splits)
  let ?i = "\<lparr>ri_shutdown1 = False, ri_sleep = 0, ri_shutdown2 = sh2, ri_expired = ex, ri_interrupt = irq, ri_watchdog = wd\<rparr>"
  obtain ops nx where r: "reporter_round 1 ?i = (ops, nx)" by (cases "reporter_round 1 ?i") blast
  have "lock_discipline False ops = None" using reporter_round_discipline [of 1 ?i] r by simp
  then show "lock_discipline False (fst (reporter 1 0 (?i # ins))) = None"
    using r by (cases nx; cases "reporter_loop 1 ins") (simp_all add: reporter_def lock_discipline_append)
qed

text \<open>
  A group that is not finished and makes no progress is reported at the fifth check in a row
  and not before; any progress starts the count again.
\<close>

theorem watchdog_reports_fifth:
  assumes "wd_watchdog g = 0" and "wd_hits g = 0" and "u64 (wd_inversions g) \<noteq> wd_total g"
  shows "((fst \<circ> watch_group) ^^ n) g = g\<lparr>wd_hits := int n\<rparr> \<and>
    (snd (watch_group (((fst \<circ> watch_group) ^^ n) g)) \<longleftrightarrow> 4 \<le> n) \<and>
    (w \<noteq> 0 \<longrightarrow> wd_hits (fst (watch_group (g\<lparr>wd_watchdog := w, wd_hits := h\<rparr>))) = 0)"
proof -
  have "((fst \<circ> watch_group) ^^ n) g = g\<lparr>wd_hits := int n\<rparr>"
    using assms by (induction n) (simp_all add: watch_group_def)
  then show ?thesis using assms by (auto simp: watch_group_def)
qed

theorem watchdog_reports_fifth_witness:
  "snd (watch_group (((fst \<circ> watch_group) ^^ 4) \<lparr>wd_watchdog = 0, wd_hits = 0, wd_inversions = 10, wd_total = 3\<rparr>))"
  by (rule watchdog_reports_fifth [THEN conjunct2, THEN conjunct1, THEN iffD2]) simp_all

text \<open>The fields of a description written as key and value pairs.\<close>

definition no_sep :: "string \<Rightarrow> bool" where
  "no_sep s \<longleftrightarrow> CHR '','' \<notin> set s \<and> CHR ''='' \<notin> set s"

fun render :: "(string \<times> string) list \<Rightarrow> string" where
  "render [] = []"
| "render [(k, v)] = k @ ''='' @ v"
| "render ((k, v) # kvs) = k @ ''='' @ v @ '','' @ render kvs"

lemma fields_nonempty: "strsep_fields s \<noteq> []"
  by (cases s) (auto split: list.splits)

lemma fields_plain: "no_sep s \<Longrightarrow> strsep_fields s = [s]"
  by (induction s) (auto simp: no_sep_def)

lemma fields_sep:
  "no_sep s \<Longrightarrow> c = CHR '','' \<or> c = CHR ''='' \<Longrightarrow> strsep_fields (s @ c # r) = s # strsep_fields r"
  by (induction s) (auto simp: no_sep_def)

lemma fields_render:
  "kvs \<noteq> [] \<Longrightarrow> \<forall>(k, v) \<in> set kvs. no_sep k \<and> no_sep v \<Longrightarrow>
     strsep_fields (render kvs) = concat (map (\<lambda>(k, v). [k, v]) kvs)"
  by (induction kvs rule: render.induct) (auto simp: fields_sep fields_plain)

lemma read_digits_nonneg: "0 \<le> acc \<Longrightarrow> 0 \<le> fst (read_digits acc s)"
proof (induction s arbitrary: acc)
  case (Cons c s)
  then show ?case by (auto simp: digit_val_def Let_def split: option.splits if_splits)
qed simp

lemma parse_unsigned_nonneg: "parse_unsigned s = Some n \<Longrightarrow> 0 \<le> n"
  using read_digits_nonneg [of 0]
  by (auto simp: parse_unsigned_def strtoul10_def Let_def ULONG_MAX_def split: prod.splits if_splits)
    (metis fst_conv order_refl)+

text \<open>
  A description written as \<open>key=value\<close> pairs with commas between them is read back as these
  pairs, so \<open>id=t,policy=p,priority=n\<close> gives thread \<open>t\<close> the policy and the priority it names.
\<close>

theorem sched_line_round_trip:
  assumes "t \<in> {''low'', ''med'', ''high''}" and "no_sep p" and "no_sep n" and "parse_unsigned n = Some m"
    and "m < 4294967296"
  shows "let sa = zero_attr\<lparr>sa_policy := string_to_policy p, sa_priority := m\<rparr>
    in process_sched_line (render [(''id'', t), (''policy'', p), (''priority'', n)]) ps =
      Some (True, if t = ''low'' then ps\<lparr>ps_low := Some sa\<rparr>
                  else if t = ''med'' then ps\<lparr>ps_med := Some sa\<rparr> else ps\<lparr>ps_high := Some sa\<rparr>)"
proof -
  have "0 \<le> m" using assms(4) by (rule parse_unsigned_nonneg)
  then have m: "u32 m = m" using assms(5) by (rule u32_fits)
  have "strsep_fields (render [(''id'', t), (''policy'', p), (''priority'', n)]) = [''id'', t, ''policy'', p, ''priority'', n]"
    using assms(1-3) by (subst fields_render) (auto simp: no_sep_def)
  then show ?thesis
    using assms(1,4) m by (auto simp: process_sched_line_def sched_key_def Let_def)
qed

theorem sched_line_round_trip_witness:
  "process_sched_line ''id=med,policy=rr,priority=42'' \<lparr>ps_low = None, ps_med = None, ps_high = None\<rparr> =
     Some (True, \<lparr>ps_low = None, ps_med = Some (zero_attr\<lparr>sa_policy := 2, sa_priority := 42\<rparr>), ps_high = None\<rparr>)"
proof -
  have "parse_unsigned ''42'' = Some 42" by code_simp
  then show ?thesis
    using sched_line_round_trip [of "''med''" "''rr''" "''42''" 42 "\<lparr>ps_low = None, ps_med = None, ps_high = None\<rparr>"]
    by (simp add: no_sep_def string_to_policy_def Let_def)
qed

end
