(* ===== verification/PiSystem.thy ===== *)
theory PiSystem
  imports PiStress
begin

text \<open>
  pi_stress as a whole (\<^verbatim>\<open>src/pi_tests/pi_stress.c\<close>): the set-up of \<open>main\<close> as a sequence of calls, the start of
  a thread up to the ready barrier, the texts of banner and summary as values, and the system of all groups
  with \<open>main\<close> and its reporter as a step relation. The groups are those of \<open>PiGroup\<close>; they share the
  shutdown flag with each other and with \<open>main\<close>.
\<close>

section \<open>The start of main\<close>

datatype main_call =
    PmMlockall | PmBoost int int | PmBlockSignals | PmAllocGroups int | PmAffinity
  | PmBarrier string int | PmCreateGroup int int

definition pi_ngroups_default :: "int \<Rightarrow> int" where
  "pi_ngroups_default num_processors = (if num_processors = 1 then 1 else num_processors - 1)"

definition pi_nthreads :: "int \<Rightarrow> int" where
  "pi_nthreads ngroups = ngroups * 3 + 1"

text \<open>
  The calls in the order of the code, the groups with their CPUs; each failure ends the program with \<open>FAILURE\<close>, but for
  \<open>block_signals\<close>, whose result is ignored.
\<close>

definition pi_main_calls :: "pi_opts \<Rightarrow> sched_attr \<Rightarrow> int \<Rightarrow> int list \<Rightarrow> (main_call \<times> string) list" where
  "pi_main_calls p admin num_processors test_mask =
     (if pi_lockall p \<noteq> 0 then [(PmMlockall, ''mlockall failed'')] else []) @
     [(PmBoost (sa_policy admin) (sa_priority admin), ''boosting to max priority''),
      (PmBlockSignals, []),
      (PmAllocGroups (pi_ngroups p), ''failed to allocate groups''),
      (PmAffinity, ''set_cpu_affinity''),
      (PmBarrier ''all_threads_ready'' (pi_nthreads (pi_ngroups p)), ''all_threads_ready''),
      (PmBarrier ''all_threads_done'' (pi_nthreads (pi_ngroups p)), ''all_threads_done'')] @
     map (\<lambda>(i, c). (PmCreateGroup (int i) c, ''create_group''))
       (enumerate 0 (group_cpus num_processors (first_core num_processors test_mask) (nat (pi_ngroups p))))"

definition pi_main_start ::
  "(main_call \<Rightarrow> int) \<Rightarrow> pi_opts \<Rightarrow> sched_attr \<Rightarrow> int \<Rightarrow> int list \<Rightarrow> (main_call, string) seq_result" where
  "pi_main_start st p admin num_processors test_mask =
     seq_calls (\<lambda>c. if c = PmBlockSignals then 0 else st c) (pi_main_calls p admin num_processors test_mask)"

section \<open>The start of a thread\<close>

datatype start = Starting | AtReady | Failed | Released

datatype start_op = SetAffinityAll | SetAttrDeadline | AllowSigterm | VerifyCpu | NotBound | StartError

text \<open>
  What a thread does before the ready barrier: the high priority thread with the deadline policy changes its
  affinity and policy itself; all allow \<open>SIGTERM\<close>, whatever the result, and check their CPU.
\<close>

definition thread_start :: "tid \<Rightarrow> int \<Rightarrow> int \<Rightarrow> int \<Rightarrow> bool \<Rightarrow> start_op list \<times> start" where
  "thread_start t high_policy setaffinity setattr bound =
     (let rest = (if bound then ([AllowSigterm, VerifyCpu], AtReady)
                  else ([AllowSigterm, VerifyCpu, NotBound], Failed))
      in if t = High \<and> high_policy = SCHED_DEADLINE
         then (if setaffinity < 0 then ([SetAffinityAll, StartError], Failed)
               else if setattr < 0 then ([SetAffinityAll, SetAttrDeadline, StartError], Failed)
               else ([SetAffinityAll, SetAttrDeadline] @ fst rest, snd rest))
         else rest)"

section \<open>Banner and summary\<close>

datatype pi_attr_line = AttrNice string int | AttrPriority string int int | AttrDeadline string int int int | AttrOther string int

definition print_sched_attr :: "string \<Rightarrow> sched_attr \<Rightarrow> pi_attr_line" where
  "print_sched_attr name sa =
     (if sa_policy sa = 0 then AttrNice name (sa_nice sa)
      else if sa_policy sa = 1 \<or> sa_policy sa = 2 then AttrPriority name (sa_policy sa) (sa_priority sa)
      else if sa_policy sa = SCHED_DEADLINE then AttrDeadline name (sa_runtime sa) (sa_deadline sa) (sa_period sa)
      else AttrOther name (sa_policy sa))"

datatype banner_line =
    BannerGroups int | BannerDuration "int option" | BannerInversions "int option" | BannerCreated int
  | BannerAttr pi_attr_line

definition banner :: "pi_opts \<Rightarrow> sched_attr \<times> sched_attr \<times> sched_attr \<times> sched_attr \<Rightarrow> banner_line list" where
  "banner p attrs =
     (case attrs of (low, med, high, admin) \<Rightarrow>
        if pi_quiet p \<noteq> 0 then []
        else [BannerGroups (pi_ngroups p),
              BannerDuration (if pi_duration p \<ge> 0 then Some (pi_duration p) else None),
              BannerInversions (if pi_inversions p < 0 then None else Some (pi_inversions p)),
              BannerAttr (print_sched_attr ''Admin'' admin), BannerCreated (pi_ngroups p),
              BannerAttr (print_sched_attr ''High'' high), BannerAttr (print_sched_attr ''Med'' med),
              BannerAttr (print_sched_attr ''Low'' low)])"

text \<open>
  The total with the days, hours, minutes and seconds of the test. The fields come from \<open>gmtime\<close>, which takes the
  duration for a date in 1970: the days are those since the first of January, for tests of less than a year.
\<close>

definition summary :: "watched list \<Rightarrow> int \<Rightarrow> int \<Rightarrow> (int \<times> int \<times> int \<times> int \<times> int) option" where
  "summary gs start finish =
     (let interval = finish - start
      in if 0 \<le> interval \<and> interval < 365 * 86400
         then Some (total_inversions gs, interval div 86400, interval mod 86400 div 3600,
                    interval mod 3600 div 60, interval mod 60)
         else None)"

section \<open>The system\<close>

text \<open>
  \<open>main\<close> waits at the ready barrier, runs the reporter, asks for the shutdown, and waits at the done barrier, or kills
  its process group when there was an error or an interrupt.
\<close>

datatype main_pc = MReady | MReport | MStop | MDone | MExit int | MKilled

record pisys =
  y_group :: "nat \<Rightarrow> group"
  y_up :: "nat \<Rightarrow> tid \<Rightarrow> start"
  y_shutdown :: bool
  y_errors :: bool
  y_interrupted :: bool
  y_main :: main_pc

definition main_over :: "main_pc \<Rightarrow> bool" where
  "main_over m \<longleftrightarrow> m = MKilled \<or> (\<exists>c. m = MExit c)"

definition set_up :: "nat \<Rightarrow> tid \<Rightarrow> start \<Rightarrow> pisys \<Rightarrow> pisys" where
  "set_up i t u s = s\<lparr>y_up := (y_up s)(i := (y_up s i)(t := u))\<rparr>"

definition seen_group :: "pisys \<Rightarrow> nat \<Rightarrow> group" where
  "seen_group s i = (y_group s i)\<lparr>g_shutdown := y_shutdown s\<rparr>"

definition stop_main :: "pisys \<Rightarrow> pisys" where
  "stop_main s = s\<lparr>y_shutdown := True, y_main := (if y_errors s \<or> y_interrupted s then MKilled else MDone)\<rparr>"

text \<open>
  What the program does by itself, and what comes from outside: a thread that fails to start, the end of the duration,
  the keyboard, and the errors of the reporter (the watchdog, a failing sleep).
\<close>

inductive sysown :: "nat \<Rightarrow> int \<Rightarrow> pisys \<Rightarrow> pisys \<Rightarrow> bool" for ngroups inversions where
  ready: "i < ngroups \<Longrightarrow> y_up s i t = Starting \<Longrightarrow> y_main s = MReady \<Longrightarrow>
    sysown ngroups inversions s (set_up i t AtReady s)"
| release: "y_main s = MReady \<Longrightarrow> \<forall>i < ngroups. \<forall>t. y_up s i t = AtReady \<Longrightarrow>
    sysown ngroups inversions s (s\<lparr>y_main := MReport, y_up := \<lambda>_ _. Released\<rparr>)"
| thread: "i < ngroups \<Longrightarrow> y_main s \<in> {MReport, MStop, MDone} \<Longrightarrow> gstep inversions (seen_group s i) h \<Longrightarrow>
    sysown ngroups inversions s (s\<lparr>y_group := (y_group s)(i := h), y_shutdown := g_shutdown h\<rparr>)"
| seen: "y_main s = MReport \<Longrightarrow> y_shutdown s \<Longrightarrow> sysown ngroups inversions s (s\<lparr>y_main := MStop\<rparr>)"
| stop: "y_main s = MStop \<Longrightarrow> sysown ngroups inversions s (stop_main s)"
| finish: "y_main s = MDone \<Longrightarrow> \<forall>i < ngroups. \<forall>t. g_at (y_group s i) t = AtDone \<Longrightarrow>
    sysown ngroups inversions s (s\<lparr>y_main := MExit 0\<rparr>)"

inductive_cases sysownE: "sysown ngroups inversions s s'"

inductive sysenv :: "nat \<Rightarrow> pisys \<Rightarrow> pisys \<Rightarrow> bool" for ngroups where
  failed: "i < ngroups \<Longrightarrow> y_up s i t = Starting \<Longrightarrow> y_main s = MReady \<Longrightarrow>
    sysenv ngroups s ((set_up i t Failed s)\<lparr>y_errors := True\<rparr>)"
| expired: "y_main s = MReport \<Longrightarrow> \<not> y_shutdown s \<Longrightarrow> sysenv ngroups s (s\<lparr>y_shutdown := True\<rparr>)"
| interrupt: "y_main s = MReport \<Longrightarrow>
    sysenv ngroups s (s\<lparr>y_interrupted := True, y_shutdown := True, y_main := MStop\<rparr>)"
| watchdog: "y_main s = MReport \<Longrightarrow>
    sysenv ngroups s (s\<lparr>y_errors := True, y_shutdown := True, y_main := MStop\<rparr>)"

inductive_cases sysenvE: "sysenv ngroups s s'"

definition sysstep :: "nat \<Rightarrow> int \<Rightarrow> pisys \<Rightarrow> pisys \<Rightarrow> bool" where
  "sysstep ngroups inversions s s' \<longleftrightarrow> sysown ngroups inversions s s' \<or> sysenv ngroups s s'"

text \<open>At the start errors may have been noted already: an invalid \<open>--sched\<close> description is ignored, but counts as one.\<close>

definition sys_init :: "nat \<Rightarrow> pisys \<Rightarrow> bool" where
  "sys_init ngroups s \<longleftrightarrow> (\<forall>i < ngroups. group_init (y_group s i) \<and> (\<forall>t. y_up s i t = Starting)) \<and>
     \<not> y_shutdown s \<and> \<not> y_interrupted s \<and> y_main s = MReady"

section \<open>A group that is told to stop\<close>

text \<open>The serial thread of the loop barrier looks at the flag while all threads still loop.\<close>

definition serial_ok :: "group \<Rightarrow> bool" where
  "serial_ok g \<longleftrightarrow> (part (g_at g High) = 1 \<and> g_at g (g_serial g) = AtSerial \<longrightarrow> g_loop g)"

definition grp_inv :: "group \<Rightarrow> bool" where
  "grp_inv g \<longleftrightarrow> group_inv g \<and> serial_ok g"

lemma part_one_pc: "part p = 1 \<longleftrightarrow> p = AtSerial \<or> p = AtStartB"
  by (cases p) simp_all

lemma parts_equal:
  assumes "group_inv g"
  shows "part (g_at g t) = part (g_at g u)"
proof -
  have "places_ok (g_at g Low) (g_at g Med) (g_at g High)" using assms by (simp add: group_inv_def)
  then show ?thesis by (cases t; cases u) (simp_all add: places_ok_def)
qed

lemma serial_ok_step:
  assumes "grp_inv g" and "gstep inversions g h"
  shows "serial_ok h"
proof -
  have inv: "group_inv g" and ok: "serial_ok g" using assms(1) by (simp_all add: grp_inv_def)
  have p: "part (g_at g t) = part (g_at g High)" for t using parts_equal [OF inv] .
  have lp: "g_at g t = AtLoopB \<Longrightarrow> g_loop g" for t using inv by (simp add: group_inv_def)
  from assms(2) show ?thesis
  proof (cases rule: gstep.cases)
    case (barrier b u)
    then show ?thesis
      using lp [of u] by (cases b; cases u) (auto simp: serial_ok_def advance_def)
  next
    case (serial t)
    then show ?thesis
      using ok p [of t] by (cases t) (auto simp: serial_ok_def go_def split: if_splits)
  next
    case (total t)
    then show ?thesis using ok p [of t] by (cases t) (auto simp: serial_ok_def go_def part_one_pc split: if_splits)
  next
    case (test_on t)
    then show ?thesis using ok p [of t] by (cases t) (auto simp: serial_ok_def go_def part_one_pc split: if_splits)
  next
    case (test_off t)
    then show ?thesis using ok p [of t] by (cases t) (auto simp: serial_ok_def part_one_pc split: if_splits)
  next
    case (lock t)
    then show ?thesis using ok p [of t] by (cases t) (auto simp: serial_ok_def go_def part_one_pc split: if_splits)
  next
    case (unlock t)
    then show ?thesis using ok p [of t] by (cases t) (auto simp: serial_ok_def go_def part_one_pc split: if_splits)
  next
    case (count t)
    then show ?thesis using ok p [of t] by (cases t) (auto simp: serial_ok_def go_def part_one_pc split: if_splits)
  next
    case (exit t)
    then show ?thesis using ok p [of t] by (cases t) (auto simp: serial_ok_def go_def part_one_pc split: if_splits)
  qed
qed

lemma grp_inv_step: "grp_inv g \<Longrightarrow> gstep inversions g h \<Longrightarrow> grp_inv h"
  using group_inv_step serial_ok_step unfolding grp_inv_def by blast

text \<open>How often the high priority thread will still count once a shutdown is asked for.\<close>

definition counts_left :: "group \<Rightarrow> nat" where
  "counts_left g =
     (let p = g_at g High; more = (if g_loop g then 1 else 0)
      in if p = AtCount then 1 + more
         else if part p = 0 then more
         else if part p = 1 \<and> g_at g (g_serial g) = AtSerial then 1
         else 1 + more)"

definition stop_weight :: "group \<Rightarrow> nat" where
  "stop_weight g = 33 * counts_left g + rank_h (g_at g High) + rank_lm (g_at g Low) + rank_lm (g_at g Med)"

lemma ranks_le: "rank_lm p \<le> 10" "rank_h p \<le> 33"
  by (cases p; simp)+

lemma stop_weight_le: "stop_weight g \<le> 119"
proof -
  have "counts_left g \<le> 2" by (simp add: counts_left_def Let_def)
  then show ?thesis
    using ranks_le(1) [of "g_at g Low"] ranks_le(1) [of "g_at g Med"] ranks_le(2) [of "g_at g High"]
    by (simp add: stop_weight_def)
qed

text \<open>A thread that goes on alone, not counting, leaves the number of counts as it is.\<close>

lemma stop_weight_go:
  assumes "group_inv g" and "g_at g t \<notin> {AtFinishB, AtCount, AtDone}"
    and "g_at h = (g_at g)(t := next_place t (g_at g t))" and "counts_left h \<le> counts_left g"
  shows "stop_weight h < stop_weight g"
proof -
  have "places_ok (g_at g Low) (g_at g Med) (g_at g High)" using assms(1) by (simp add: group_inv_def)
  from rank_next [OF this] assms(2-) show ?thesis by (cases t) (simp_all add: stop_weight_def)
qed

lemma part_next:
  assumes "p \<in> {AtTotal, AtTest, AtLock, AtUnlock, AtExit}"
  shows "part (next_place t p) = part p \<and> next_place t p \<noteq> AtCount \<and> next_place t p \<noteq> AtSerial \<and> p \<noteq> AtCount \<and> p \<noteq> AtSerial"
  using assms by (cases t) auto

lemma counts_left_go:
  assumes "g_at g t \<in> {AtTotal, AtTest, AtLock, AtUnlock, AtExit}"
    and "g_at h = (g_at g)(t := next_place t (g_at g t))" and "g_loop h = g_loop g" and "g_serial h = g_serial g"
  shows "counts_left h = counts_left g"
proof -
  note n = part_next [OF assms(1), of t]
  have "part (g_at h High) = part (g_at g High)" "(g_at h High = AtCount) = (g_at g High = AtCount)"
    "(g_at h (g_serial h) = AtSerial) = (g_at g (g_serial g) = AtSerial)"
    unfolding assms(2,4) using n by (auto simp: fun_upd_apply)
  then show ?thesis by (simp only: counts_left_def Let_def assms(3))
qed

lemma stop_weight_step:
  assumes "grp_inv g" and sh: "g_shutdown g" and "gstep inversions g h"
  shows "stop_weight h < stop_weight g \<and> g_shutdown h"
proof -
  have inv: "group_inv g" and so: "serial_ok g" using assms(1) by (simp_all add: grp_inv_def)
  have ok: "places_ok (g_at g Low) (g_at g Med) (g_at g High)"
    and lp: "\<forall>t. (g_at g t = AtLoopB \<longrightarrow> g_loop g) \<and> (leaving (g_at g t) \<longrightarrow> \<not> g_loop g)"
    using inv by (simp_all add: group_inv_def)
  have pt: "part (g_at g t) = part (g_at g High)" for t by (rule parts_equal [OF inv])
  note alone = stop_weight_go [OF inv] and counts = counts_left_go
  from assms(3) show ?thesis
  proof (cases rule: gstep.cases)
    case (total t)
    then show ?thesis using alone [of t h] counts [of g t h] sh by (simp add: go_def)
  next
    case (test_on t)
    then show ?thesis using alone [of t h] counts [of g t h] sh by (simp add: go_def)
  next
    case (test_off t)
    then show ?thesis using pt [of t] sh by (cases t) (auto simp: stop_weight_def counts_left_def Let_def)
  next
    case (barrier b u)
    moreover have "g_at g (g_serial g) \<noteq> AtSerial" if "b = AtStartB"
      using barrier that by (cases "g_serial g") simp_all
    ultimately show ?thesis
      using sh lp pt [of u] by (cases b; cases u) (auto simp: stop_weight_def counts_left_def Let_def advance_def)
  next
    case (serial t)
    have nx: "next_place t AtSerial = AtStartB" by (cases t) simp_all
    have "part (g_at g High) = 1" using pt [of t] serial(2) by simp
    then have "counts_left h \<le> counts_left g"
      using serial so sh nx by (cases "t = High") (auto simp: counts_left_def Let_def go_def serial_ok_def part_one_pc)
    then show ?thesis using alone [of t h] serial sh by (simp add: go_def)
  next
    case (lock t)
    then show ?thesis using alone [of t h] counts [of g t h] sh by (simp add: go_def)
  next
    case (unlock t)
    then show ?thesis using alone [of t h] counts [of g t h] sh by (simp add: go_def)
  next
    case (count t)
    then have "t = High" using ok by (cases t) (simp_all add: places_ok_def)
    then show ?thesis using count sh by (simp add: stop_weight_def counts_left_def Let_def go_def)
  next
    case (exit t)
    then show ?thesis using alone [of t h] counts [of g t h] by (simp add: go_def)
  qed
qed

section \<open>The invariant of the system\<close>

lemma gstep_shutdown:
  assumes "gstep inversions g h"
  shows "g_shutdown g \<Longrightarrow> g_shutdown h" and "g_at h t = AtDone \<Longrightarrow> g_at g t = AtDone \<or> g_shutdown h"
proof -
  have nd: "p \<notin> {AtExit, AtDone} \<Longrightarrow> next_place u p \<noteq> AtDone" for u p
    by (cases u; cases p) simp_all
  from assms show "g_shutdown g \<Longrightarrow> g_shutdown h" by cases (auto simp: go_def)
  from assms show "g_at h t = AtDone \<Longrightarrow> g_at g t = AtDone \<or> g_shutdown h"
  proof (cases rule: gstep.cases)
    case (barrier b u)
    assume "g_at h t = AtDone"
    then show ?thesis using barrier nd [of b t] by (cases b) (auto simp: advance_def split: if_splits)
  qed (use nd in \<open>auto simp: go_def fun_upd_apply split: if_splits\<close>)
qed

definition grp_ok :: "bool \<Rightarrow> group \<Rightarrow> bool" where
  "grp_ok shutdown g \<longleftrightarrow> grp_inv g \<and> (\<forall>t. g_at g t = AtDone \<longrightarrow> shutdown)"

lemma grp_inv_seen: "grp_inv (seen_group s i) = grp_inv (y_group s i)"
  by (simp add: grp_inv_def group_inv_def serial_ok_def seen_group_def)

lemma grp_ok_step:
  assumes "grp_ok (y_shutdown s) (y_group s i)" and "gstep inversions (seen_group s i) h"
  shows "grp_ok (g_shutdown h) h"
  using assms grp_inv_step [OF _ assms(2)] gstep_shutdown [OF assms(2)]
  by (auto simp: grp_ok_def grp_inv_seen) (auto simp: seen_group_def)

lemma grp_ok_mono: "grp_ok a g \<Longrightarrow> (a \<Longrightarrow> b) \<Longrightarrow> grp_ok b g"
  by (auto simp: grp_ok_def)

definition all_done :: "nat \<Rightarrow> pisys \<Rightarrow> bool" where
  "all_done ngroups s \<longleftrightarrow> (\<forall>i < ngroups. \<forall>t. g_at (y_group s i) t = AtDone)"

definition main_ok :: "nat \<Rightarrow> pisys \<Rightarrow> bool" where
  "main_ok ngroups s \<longleftrightarrow>
     (case y_main s of
        MReady \<Rightarrow> \<not> y_shutdown s
      | MReport \<Rightarrow> \<not> y_interrupted s
      | MStop \<Rightarrow> y_shutdown s
      | MDone \<Rightarrow> y_shutdown s \<and> \<not> y_errors s \<and> \<not> y_interrupted s
      | MExit c \<Rightarrow> c = 0 \<and> \<not> y_errors s \<and> \<not> y_interrupted s \<and> all_done ngroups s
      | MKilled \<Rightarrow> y_errors s \<or> y_interrupted s)"

definition up_ok :: "nat \<Rightarrow> pisys \<Rightarrow> bool" where
  "up_ok ngroups s \<longleftrightarrow>
     (y_main s = MReady \<longrightarrow> \<not> y_interrupted s \<and>
        (\<forall>i < ngroups. \<forall>t. y_up s i t \<noteq> Released)) \<and>
     (\<forall>i < ngroups. \<forall>t. y_up s i t = Failed \<longrightarrow> y_main s = MReady)"

definition sys_inv :: "nat \<Rightarrow> pisys \<Rightarrow> bool" where
  "sys_inv ngroups s \<longleftrightarrow> (\<forall>i < ngroups. grp_ok (y_shutdown s) (y_group s i)) \<and> main_ok ngroups s \<and> up_ok ngroups s"

lemma grp_ok_init: "group_init g \<Longrightarrow> grp_ok sd g"
  using pigroup.init_inv [of g]
  by (auto simp: grp_ok_def grp_inv_def serial_ok_def group_init_def)

lemma grp_ok_True: "grp_ok a g \<Longrightarrow> grp_ok True g"
  by (simp add: grp_ok_def)

lemma set_up_sel [simp]:
  "y_up (set_up i t u s) j v = (if j = i \<and> v = t then u else y_up s j v)"
  "y_main (set_up i t u s) = y_main s" "y_errors (set_up i t u s) = y_errors s"
  "y_interrupted (set_up i t u s) = y_interrupted s" "y_shutdown (set_up i t u s) = y_shutdown s"
  "y_group (set_up i t u s) = y_group s"
  by (simp_all add: set_up_def)

lemma up_ok_ready:
  assumes "up_ok ngroups s" and "y_up s i t = Starting" and "y_main s = MReady"
  shows "up_ok ngroups (set_up i t AtReady s)"
proof -
  have "y_up (set_up i t AtReady s) j v = Failed \<longleftrightarrow> y_up s j v = Failed" for j v using assms(2) by simp
  then show ?thesis using assms(1,3) unfolding up_ok_def by simp
qed

lemma sys_inv_own:
  assumes "sys_inv ngroups s" and "sysown ngroups inversions s s'"
  shows "sys_inv ngroups s'"
  using assms(2)
proof (cases rule: sysown.cases)
  case (thread i h)
  have g: "grp_ok (g_shutdown h) h" using assms(1) thread grp_ok_step [of s i inversions h] by (simp add: sys_inv_def)
  have sd: "y_shutdown s \<Longrightarrow> g_shutdown h" using gstep_shutdown(1) [OF thread(4)] by (simp add: seen_group_def)
  have "grp_ok (g_shutdown h) (y_group s j)" if "j < ngroups" for j
    using assms(1) that sd grp_ok_mono unfolding sys_inv_def by blast
  then show ?thesis
    using assms(1) g sd thread by (auto simp: sys_inv_def main_ok_def up_ok_def split: main_pc.splits)
next
  case (ready i t)
  then show ?thesis using assms(1) up_ok_ready [of ngroups s i t] by (auto simp: sys_inv_def main_ok_def)
next
  case release
  then show ?thesis using assms(1) by (auto simp: sys_inv_def main_ok_def up_ok_def)
next
  case seen
  then show ?thesis using assms(1) by (auto simp: sys_inv_def main_ok_def up_ok_def)
next
  case stop
  then show ?thesis
    using assms(1) by (auto simp: sys_inv_def main_ok_def up_ok_def stop_main_def intro: grp_ok_True)
next
  case finish
  then show ?thesis using assms(1) by (auto simp: sys_inv_def main_ok_def up_ok_def all_done_def)
qed

lemma sys_inv_env:
  assumes "sys_inv ngroups s" and "sysenv ngroups s s'"
  shows "sys_inv ngroups s'"
  using assms(2)
proof (cases rule: sysenv.cases)
  case (failed i t)
  then show ?thesis using assms(1) by (auto simp: sys_inv_def main_ok_def up_ok_def)
next
  case expired
  then show ?thesis using assms(1) by (auto simp: sys_inv_def main_ok_def up_ok_def intro: grp_ok_True)
next
  case interrupt
  then show ?thesis using assms(1) by (auto simp: sys_inv_def main_ok_def up_ok_def intro: grp_ok_True)
next
  case watchdog
  then show ?thesis using assms(1) by (auto simp: sys_inv_def main_ok_def up_ok_def intro: grp_ok_True)
qed

interpretation pisystem: machine "sys_init ngroups" "sysstep ngroups inversions" "sys_inv ngroups" for ngroups inversions
proof unfold_locales
  show "sys_inv ngroups s" if "sys_init ngroups s" for s
    using that by (auto simp: sys_init_def sys_inv_def main_ok_def up_ok_def intro: grp_ok_init)
  show "sys_inv ngroups t" if "sys_inv ngroups s" "sysstep ngroups inversions s t" for s t
    using that sys_inv_own sys_inv_env unfolding sysstep_def by blast
qed

section \<open>Progress, end and verdict\<close>

lemma sys_can_step:
  assumes "sys_inv ngroups s" and "0 < ngroups" and "\<forall>i < ngroups. \<forall>t. y_up s i t \<noteq> Failed" and "\<not> main_over (y_main s)"
  shows "\<exists>s'. sysown ngroups inversions s s'"
proof -
  have g: "\<forall>i < ngroups. grp_ok (y_shutdown s) (y_group s i)" and m: "main_ok ngroups s" and u: "up_ok ngroups s"
    using assms(1) by (simp_all add: sys_inv_def)
  have move: "\<exists>s'. sysown ngroups inversions s s'" if nd: "\<not> all_done ngroups s" and "y_main s \<in> {MReport, MStop, MDone}"
  proof -
    obtain i t where i: "i < ngroups" "g_at (y_group s i) t \<noteq> AtDone" using nd by (auto simp: all_done_def)
    have "grp_inv (seen_group s i)" unfolding grp_inv_seen using g i(1) by (simp add: grp_ok_def)
    moreover have "\<not> (\<forall>t. g_at (seen_group s i) t = AtDone)" using i(2) by (auto simp: seen_group_def)
    ultimately obtain h where "gstep inversions (seen_group s i) h"
      using group_can_step unfolding grp_inv_def by blast
    with i(1) that(2) show ?thesis by (meson sysown.thread)
  qed
  show ?thesis
  proof (cases "y_main s")
    case MReady
    show ?thesis
    proof (cases "\<exists>i < ngroups. \<exists>t. y_up s i t = Starting")
      case True
      then show ?thesis using MReady by (meson sysown.ready)
    next
      case False
      have "y_up s i t = AtReady" if "i < ngroups" for i t
        using False assms(3) u MReady that by (cases "y_up s i t") (auto simp: up_ok_def)
      then show ?thesis using MReady by (meson sysown.release)
    qed
  next
    case MReport
    show ?thesis
    proof (cases "all_done ngroups s")
      case True
      then have "y_shutdown s" using g assms(2) by (auto simp: all_done_def grp_ok_def)
      then show ?thesis using MReport by (meson sysown.seen)
    next
      case False
      then show ?thesis using move MReport by simp
    qed
  next
    case MStop
    then show ?thesis by (meson sysown.stop)
  next
    case MDone
    then show ?thesis using move sysown.finish [OF MDone] unfolding all_done_def by blast
  qed (use assms(4) in \<open>simp_all add: main_over_def\<close>)
qed

fun main_weight :: "main_pc \<Rightarrow> nat" where
  "main_weight MReport = 3"
| "main_weight MStop = 2"
| "main_weight MDone = 1"
| "main_weight _ = 0"

definition sys_weight :: "nat \<Rightarrow> pisys \<Rightarrow> nat" where
  "sys_weight ngroups s = (\<Sum>i < ngroups. stop_weight (y_group s i)) + main_weight (y_main s)"

lemma sys_weight_le: "sys_weight ngroups s \<le> 119 * ngroups + 3"
proof -
  have "(\<Sum>i < ngroups. stop_weight (y_group s i)) \<le> 119 * ngroups"
    using sum_bounded_above [of "{..<ngroups}" "\<lambda>i. stop_weight (y_group s i)" 119] stop_weight_le by simp
  moreover have "main_weight m \<le> 3" for m by (cases m) simp_all
  ultimately show ?thesis unfolding sys_weight_def by (meson add_le_mono)
qed

lemma stop_weight_seen: "stop_weight (seen_group s i) = stop_weight (y_group s i)"
  by (simp add: stop_weight_def counts_left_def seen_group_def Let_def)

lemma sum_upd_less:
  "(i :: nat) < n \<Longrightarrow> f x < (f (a i) :: nat) \<Longrightarrow> (\<Sum>j < n. f ((a(i := x)) j)) < (\<Sum>j < n. f (a j))"
  by (rule sum_strict_mono_ex1) auto

lemma sys_weight_step:
  assumes "sys_inv ngroups s" and "y_shutdown s" and "sysstep ngroups inversions s s'"
  shows "sys_weight ngroups s' < sys_weight ngroups s \<and> y_shutdown s'"
proof -
  have nr: "y_main s \<noteq> MReady" using assms(1,2) by (auto simp: sys_inv_def main_ok_def)
  from assms(3) consider "sysown ngroups inversions s s'" | "sysenv ngroups s s'" by (auto simp: sysstep_def)
  then show ?thesis
  proof cases
    case 1
    then show ?thesis
    proof (cases rule: sysown.cases)
      case (thread i h)
      have "grp_inv (seen_group s i)" using assms(1) thread(2) by (simp add: grp_inv_seen sys_inv_def grp_ok_def)
      moreover have "g_shutdown (seen_group s i)" using assms(2) by (simp add: seen_group_def)
      ultimately have w: "stop_weight h < stop_weight (y_group s i) \<and> g_shutdown h"
        using stop_weight_step thread(4) unfolding stop_weight_seen [symmetric] by blast
      then show ?thesis
        using sum_upd_less [OF thread(2), of stop_weight h "y_group s"] thread(1) by (simp add: sys_weight_def)
    qed (use nr assms(2) in \<open>auto simp: sys_weight_def stop_main_def\<close>)
  next
    case 2
    then show ?thesis
      by (cases rule: sysenv.cases) (use nr assms(2) in \<open>auto simp: sys_weight_def\<close>)
  qed
qed

lemma sys_weight_run:
  "(sysstep ngroups inversions ^^ k) s s' \<Longrightarrow> sys_inv ngroups s \<Longrightarrow> y_shutdown s \<Longrightarrow>
     sys_inv ngroups s' \<and> y_shutdown s' \<and> k + sys_weight ngroups s' \<le> sys_weight ngroups s"
proof (induction k arbitrary: s')
  case 0
  then show ?case by simp
next
  case (Suc k)
  from Suc.prems(1) obtain m where m: "(sysstep ngroups inversions ^^ k) s m" "sysstep ngroups inversions m s'" by auto
  have ih: "sys_inv ngroups m \<and> y_shutdown m \<and> k + sys_weight ngroups m \<le> sys_weight ngroups s"
    using Suc.IH [OF m(1)] Suc.prems(2,3) .
  then have "sys_inv ngroups s'" using m(2) pisystem.step_inv by blast
  then show ?case using ih sys_weight_step [OF _ _ m(2)] by fastforce
qed

definition ex_sys :: pisys where
  "ex_sys = \<lparr>y_group = (\<lambda>_. start_group), y_up = (\<lambda>_ _. Starting), y_shutdown = False, y_errors = False,
     y_interrupted = False, y_main = MReady\<rparr>"

definition ex_ready :: pisys where
  "ex_ready = set_up 0 High AtReady (set_up 0 Med AtReady (set_up 0 Low AtReady ex_sys))"

definition ex_report :: pisys where
  "ex_report = ex_ready\<lparr>y_main := MReport, y_up := \<lambda>_ _. Released\<rparr>"

lemma ex_sys_reach: "reach (sys_init 1) (sysstep 1 v) ex_sys"
  by (rule reach_init) (simp add: sys_init_def ex_sys_def start_group_init)

lemma own_reach: "reach i (sysstep n v) s \<Longrightarrow> sysown n v s s' \<Longrightarrow> reach i (sysstep n v) s'"
  by (rule reach_step) (auto simp: sysstep_def)

lemma env_reach: "reach i (sysstep n v) s \<Longrightarrow> sysenv n s s' \<Longrightarrow> reach i (sysstep n v) s'"
  by (rule reach_step) (auto simp: sysstep_def)

lemma ex_report_reach: "reach (sys_init 1) (sysstep 1 v) (ex_report\<lparr>y_shutdown := True\<rparr>)"
proof -
  let ?r = "reach (sys_init 1) (sysstep 1 v)"
  let ?a = "set_up 0 Low AtReady ex_sys"
  let ?b = "set_up 0 Med AtReady ?a"
  have "?r ?a" by (rule own_reach [OF ex_sys_reach], rule sysown.ready) (simp_all add: ex_sys_def)
  then have "?r ?b" by (rule own_reach, intro sysown.ready) (simp_all add: ex_sys_def)
  then have "?r ex_ready" unfolding ex_ready_def by (rule own_reach, intro sysown.ready) (simp_all add: ex_sys_def)
  moreover have "y_up ex_ready 0 t = AtReady" for t
    by (cases t) (simp_all add: ex_ready_def)
  then have "sysown 1 v ex_ready ex_report"
    unfolding ex_report_def by (intro sysown.release) (simp_all add: ex_ready_def ex_sys_def)
  ultimately have "?r ex_report" by (rule own_reach)
  then show ?thesis
    by (rule env_reach, intro sysenv.expired) (simp_all add: ex_report_def ex_ready_def ex_sys_def)
qed

text \<open>
  C9: pi_stress ends. Once the shutdown flag is set, by the duration, by the keyboard, by the watchdog or by a
  group that has made its inversions, no run takes more than \<open>119\<close> steps for each group and 3 more;
  and a run that cannot go on has ended: with the status 0 and all threads at the last barrier, or, after an
  error or an interrupt, by the signal that \<open>main\<close> sends to its process group.
\<close>

theorem pi_system_stops:
  assumes "reach (sys_init ngroups) (sysstep ngroups inversions) s" and "0 < ngroups" and "y_shutdown s"
    and "(sysstep ngroups inversions ^^ k) s s'"
  shows "k \<le> 119 * ngroups + 3 \<and>
    ((\<forall>s''. \<not> sysown ngroups inversions s' s'') \<longrightarrow>
       (if y_errors s' \<or> y_interrupted s' then y_main s' = MKilled
        else y_main s' = MExit 0 \<and> (\<forall>i < ngroups. \<forall>t. g_at (y_group s' i) t = AtDone)))"
proof -
  have inv: "sys_inv ngroups s" using assms(1) by (rule pisystem.reach_inv)
  have r: "sys_inv ngroups s'" "y_shutdown s'" "k + sys_weight ngroups s' \<le> sys_weight ngroups s"
    using sys_weight_run [OF assms(4) inv assms(3)] by auto
  have k: "k \<le> 119 * ngroups + 3" using r(3) sys_weight_le [of ngroups s] by linarith
  have m: "main_ok ngroups s'" and u: "up_ok ngroups s'" using r(1) by (simp_all add: sys_inv_def)
  have "y_main s' \<noteq> MReady" using m r(2) by (auto simp: main_ok_def)
  then have nf: "\<forall>i < ngroups. \<forall>t. y_up s' i t \<noteq> Failed" using u by (auto simp: up_ok_def)
  show ?thesis
  proof (intro conjI impI)
    assume "\<forall>s''. \<not> sysown ngroups inversions s' s''"
    then have "main_over (y_main s')" using sys_can_step [OF r(1) assms(2) nf] by blast
    then show "if y_errors s' \<or> y_interrupted s' then y_main s' = MKilled
        else y_main s' = MExit 0 \<and> (\<forall>i < ngroups. \<forall>t. g_at (y_group s' i) t = AtDone)"
      using m by (auto simp: main_over_def main_ok_def all_done_def)
  qed (rule k)
qed

definition ex_stop :: pisys where
  "ex_stop = ex_report\<lparr>y_errors := True, y_shutdown := True, y_main := MStop\<rparr>"

theorem pi_system_stops_witness:
  "(sysstep 1 5 ^^ 1) ex_stop (stop_main ex_stop) \<and> (1 :: nat) \<le> 119 * 1 + 3 \<and> y_main (stop_main ex_stop) = MKilled"
proof -
  have r: "reach (sys_init 1) (sysstep 1 5) (ex_report\<lparr>y_shutdown := True\<rparr>)" by (rule ex_report_reach)
  have "reach (sys_init 1) (sysstep 1 5) ((ex_report\<lparr>y_shutdown := True\<rparr>)\<lparr>y_errors := True, y_shutdown := True, y_main := MStop\<rparr>)"
    by (rule env_reach [OF r], rule sysenv.watchdog) (simp add: ex_report_def)
  then have reach: "reach (sys_init 1) (sysstep 1 5) ex_stop" by (simp add: ex_stop_def)
  have "sysown 1 5 ex_stop (stop_main ex_stop)" by (rule sysown.stop) (simp add: ex_stop_def)
  then have run: "(sysstep 1 5 ^^ 1) ex_stop (stop_main ex_stop)" by (simp add: eq_OO sysstep_def)
  have killed: "y_main (stop_main ex_stop) = MKilled" by (simp add: stop_main_def ex_stop_def)
  then have "\<forall>s''. \<not> sysown 1 5 (stop_main ex_stop) s''" by (auto elim!: sysownE)
  with pi_system_stops [OF reach _ _ run] run killed show ?thesis by (simp add: ex_stop_def)
qed

text \<open>
  As long as no thread has failed to start, the program never comes to a halt before its end: some thread
  of some group, or \<open>main\<close>, can go on, whatever comes from outside and whenever.
\<close>

theorem pi_system_no_deadlock:
  assumes "reach (sys_init ngroups) (sysstep ngroups inversions) s" and "0 < ngroups"
    and "\<forall>i < ngroups. \<forall>t. y_up s i t \<noteq> Failed"
  shows "(\<exists>s'. sysown ngroups inversions s s') \<or> y_main s = MKilled \<or> y_main s = MExit 0"
proof -
  have inv: "sys_inv ngroups s" using assms(1) by (rule pisystem.reach_inv)
  then have "main_over (y_main s) \<Longrightarrow> y_main s = MKilled \<or> y_main s = MExit 0"
    by (auto simp: sys_inv_def main_ok_def main_over_def)
  then show ?thesis using sys_can_step [OF inv assms(2,3)] by blast
qed

theorem pi_system_no_deadlock_witness:
  "(\<exists>s'. sysown 1 5 (ex_report\<lparr>y_shutdown := True\<rparr>) s') \<or>
   y_main (ex_report\<lparr>y_shutdown := True\<rparr>) = MKilled \<or> y_main (ex_report\<lparr>y_shutdown := True\<rparr>) = MExit 0"
  by (rule pi_system_no_deadlock [OF ex_report_reach]) (simp_all add: ex_report_def)

text \<open>A thread that failed to start is never counted at the ready barrier.\<close>

lemma failed_stays:
  assumes "sysstep ngroups inversions s s'" and "i < ngroups" and "y_up s i t = Failed" and "y_main s = MReady"
  shows "y_up s' i t = Failed \<and> y_main s' = MReady"
proof -
  from assms(1) consider "sysown ngroups inversions s s'" | "sysenv ngroups s s'" by (auto simp: sysstep_def)
  then show ?thesis
  proof cases
    case 1
    then show ?thesis
    proof (cases rule: sysown.cases)
      case release
      then have "y_up s i t = AtReady" using assms(2) by blast
      then show ?thesis using assms(3) by simp
    qed (use assms(3,4) in auto)
  next
    case 2
    then show ?thesis by (cases rule: sysenv.cases) (use assms(3,4) in auto)
  qed
qed

text \<open>
  A thread that fails before the ready barrier (it is not on its CPU, or the deadline policy is refused) returns
  without passing it, and hangs the program: \<open>main\<close> stays at the barrier in every run from there, although
  the error is recorded, and when the other threads have arrived nothing can happen any more.
\<close>

theorem pi_system_failed_start_hangs:
  assumes "reach (sys_init ngroups) (sysstep ngroups inversions) s" and "i < ngroups" and "y_up s i t = Failed"
  shows "(\<forall>s'. (sysstep ngroups inversions)\<^sup>*\<^sup>* s s' \<longrightarrow> y_main s' = MReady) \<and>
    ((\<forall>j < ngroups. \<forall>u. y_up s j u \<noteq> Starting) \<longrightarrow> (\<forall>s'. \<not> sysstep ngroups inversions s s'))"
proof -
  have "sys_inv ngroups s" using assms(1) by (rule pisystem.reach_inv)
  then have m: "y_main s = MReady" using assms(2,3) by (auto simp: sys_inv_def up_ok_def)
  have "y_up s' i t = Failed \<and> y_main s' = MReady" if "(sysstep ngroups inversions)\<^sup>*\<^sup>* s s'" for s'
    using that by (induction rule: rtranclp_induct) (use assms(2,3) m failed_stays in blast)+
  moreover have "\<not> sysstep ngroups inversions s s'" if "\<forall>j < ngroups. \<forall>u. y_up s j u \<noteq> Starting" for s'
    using that m assms(2,3) by (auto simp: sysstep_def elim!: sysownE sysenvE)
  ultimately show ?thesis by blast
qed

theorem pi_system_failed_start_hangs_witness:
  "y_main (set_up 0 Med AtReady ((set_up 0 Low Failed ex_sys)\<lparr>y_errors := True\<rparr>)) = MReady"
proof -
  let ?s = "(set_up 0 Low Failed ex_sys)\<lparr>y_errors := True\<rparr>"
  have r: "reach (sys_init 1) (sysstep 1 5) ?s"
    by (rule env_reach [OF ex_sys_reach], rule sysenv.failed) (simp_all add: ex_sys_def)
  have "sysown 1 5 ?s (set_up 0 Med AtReady ?s)"
    by (rule sysown.ready) (simp_all add: ex_sys_def set_up_def)
  then have "(sysstep 1 5)\<^sup>*\<^sup>* ?s (set_up 0 Med AtReady ?s)" by (simp add: sysstep_def r_into_rtranclp)
  then show ?thesis using pi_system_failed_start_hangs [OF r, of 0 Low] by (simp add: set_up_def)
qed

section \<open>The set-up and the barriers\<close>

definition creates_group :: "main_call \<Rightarrow> bool" where
  "creates_group c \<longleftrightarrow> (case c of PmCreateGroup i cpu \<Rightarrow> True | _ \<Rightarrow> False)"

lemma group_cpus_length: "length (group_cpus n c k) = k"
  by (induction k arbitrary: c) simp_all

lemma creates_group_calls:
  "length (filter creates_group (map fst (pi_main_calls p admin n tm))) = nat (pi_ngroups p)"
proof -
  have "length (filter creates_group (map fst (map (\<lambda>(i, c). (PmCreateGroup (int i) c, m)) xs))) = length xs"
    for xs :: "(nat \<times> int) list" and m :: string
    by (induction xs) (auto simp: creates_group_def)
  from this [of "''create_group''" "enumerate 0 (group_cpus n (first_core n tm) (nat (pi_ngroups p)))"]
  show ?thesis
    unfolding pi_main_calls_def map_append filter_append length_append
    by (simp add: creates_group_def group_cpus_length comp_def)
qed

text \<open>
  When the set-up of \<open>main\<close> succeeds, no call but \<open>block_signals\<close> has failed, and both barriers count exactly the threads
  of the groups that were created, three for each, and \<open>main\<close> itself.
\<close>

theorem pi_main_counts_everyone:
  assumes "pi_main_start st p admin n tm = SeqOk ds" and "0 \<le> pi_ngroups p"
  shows "(\<forall>c \<in> set ds. c \<noteq> PmBlockSignals \<longrightarrow> st c = 0) \<and>
    (\<forall>name k. PmBarrier name k \<in> set ds \<longrightarrow> k = int (3 * length (filter creates_group ds)) + 1) \<and>
    PmBarrier ''all_threads_ready'' (pi_nthreads (pi_ngroups p)) \<in> set ds \<and>
    PmBarrier ''all_threads_done'' (pi_nthreads (pi_ngroups p)) \<in> set ds"
proof -
  note run = assms(1) [unfolded pi_main_start_def]
  have ds: "ds = map fst (pi_main_calls p admin n tm)" using run by (rule seq_calls_okD)
  have "\<forall>c \<in> set ds. (if c = PmBlockSignals then 0 else st c) = 0"
    unfolding ds set_map by (rule seq_calls_ok_iff [THEN iffD1, OF exI, OF run])
  then have ok: "\<forall>c \<in> set ds. c \<noteq> PmBlockSignals \<longrightarrow> st c = 0" by (metis (full_types))
  have cnt: "length (filter creates_group ds) = nat (pi_ngroups p)" unfolding ds by (rule creates_group_calls)
  have "k = pi_nthreads (pi_ngroups p)" if "PmBarrier name k \<in> set ds" for name k
    using that unfolding ds pi_main_calls_def by (auto split: if_splits)
  then have "\<forall>name k. PmBarrier name k \<in> set ds \<longrightarrow> k = int (3 * length (filter creates_group ds)) + 1"
    unfolding cnt pi_nthreads_def using assms(2) by fastforce
  moreover have "PmBarrier ''all_threads_ready'' (pi_nthreads (pi_ngroups p)) \<in> set ds"
    "PmBarrier ''all_threads_done'' (pi_nthreads (pi_ngroups p)) \<in> set ds"
    unfolding ds pi_main_calls_def by simp_all
  ultimately show ?thesis using ok by blast
qed

definition ex_pi_opts :: pi_opts where
  "ex_pi_opts = \<lparr>pi_duration = 10, pi_verbose = 0, pi_quiet = 0, pi_inversions = -1, pi_ngroups = 3, pi_policy = 1,
     pi_prompt = 0, pi_debugging = 0, pi_uniprocessor = 0, pi_lockall = 0,
     pi_sched_of = \<lparr>ps_low = None, ps_med = None, ps_high = None\<rparr>, pi_errors = 0\<rparr>"

theorem pi_main_counts_everyone_witness:
  "\<exists>ds. pi_main_start (\<lambda>_. 0) ex_pi_opts zero_attr 4 [1, 2, 3] = SeqOk ds \<and> PmBarrier ''all_threads_ready'' 10 \<in> set ds \<and>
     length (filter creates_group ds) = 3"
proof -
  have "\<forall>c \<in> fst ` set (pi_main_calls ex_pi_opts zero_attr 4 [1, 2, 3]). (if c = PmBlockSignals then 0 else 0 :: int) = 0"
    by simp
  then obtain ds where r: "pi_main_start (\<lambda>_. 0) ex_pi_opts zero_attr 4 [1, 2, 3] = SeqOk ds"
    unfolding pi_main_start_def using seq_calls_ok_iff [THEN iffD2] by metis
  have n: "pi_ngroups ex_pi_opts = 3" "pi_nthreads 3 = 10" by (simp_all add: ex_pi_opts_def pi_nthreads_def)
  have "PmBarrier ''all_threads_ready'' 10 \<in> set ds"
    and "\<forall>name k. PmBarrier name k \<in> set ds \<longrightarrow> k = int (3 * length (filter creates_group ds)) + 1"
    using pi_main_counts_everyone [OF r] n by auto
  with r show ?thesis by fastforce
qed

end
