(* ===== verification/PiThread.thy ===== *)
theory PiThread
  imports PiSystem
begin

text \<open>
  The three thread functions of \<^verbatim>\<open>src/pi_tests/pi_stress.c\<close> in full, one after the other call, with the results of the
  barriers as inputs: the start, the loop with its error returns, and the end. They are related to the order of
  blocking operations that \<open>PiGroup\<close> gives each thread.
\<close>

section \<open>Operations and answers\<close>

datatype pt_bar = BReady | BLoop | BStart | BLocked | BElevate | BFinish | BDone

text \<open>
  The test of the total (whether it set the shutdown flag), the test of \<open>*loop\<close> under its mutex, the look of the serial
  thread at \<open>shutdown\<close> (whether it cleared \<open>*loop\<close>), the group mutex, the counters, and \<open>pi_error\<close>.
\<close>

datatype pt_op =
    PtTotal bool | PtTestLoop bool | PtSerial bool | PtWait pt_bar | PtLock | PtUnlock | PtCount
  | PtSetShutdown | PtError

abbreviation (input) SERIAL_THREAD :: int where "SERIAL_THREAD \<equiv> - 1"

definition wait_ok :: "int \<Rightarrow> bool" where
  "wait_ok status \<longleftrightarrow> \<not> (status \<noteq> 0 \<and> status \<noteq> SERIAL_THREAD)"

text \<open>What a round of the loop finds.\<close>

record pt_in =
  pt_total :: int
  pt_loop :: bool
  pt_shutdown :: bool
  pt_wait :: "pt_bar \<Rightarrow> int"

text \<open>Calls in order up to the first barrier that fails, behind which the error is reported and the function left.\<close>

fun pt_seq :: "(pt_bar \<Rightarrow> int) \<Rightarrow> pt_op list \<Rightarrow> pt_op list \<times> bool" where
  "pt_seq w [] = ([], True)"
| "pt_seq w (c # cs) =
     (case c of
        PtWait b \<Rightarrow> if wait_ok (w b) then (case pt_seq w cs of (ops, ok) \<Rightarrow> (c # ops, ok)) else ([c, PtError], False)
      | _ \<Rightarrow> (case pt_seq w cs of (ops, ok) \<Rightarrow> (c # ops, ok)))"

text \<open>The body of each loop behind the test of \<open>*loop\<close>.\<close>

definition serial_look :: "pt_in \<Rightarrow> pt_op" where
  "serial_look i = PtSerial (pt_wait i BLoop = SERIAL_THREAD \<and> pt_shutdown i)"

definition low_body :: "pt_in \<Rightarrow> pt_op list" where
  "low_body i = [PtWait BLoop, serial_look i, PtWait BStart, PtLock, PtWait BLocked, PtWait BElevate, PtUnlock,
     PtWait BFinish]"

definition med_body :: "pt_in \<Rightarrow> pt_op list" where
  "med_body i = [PtWait BLoop, serial_look i, PtWait BStart, PtWait BElevate, PtWait BFinish]"

definition high_body :: "pt_in \<Rightarrow> pt_op list" where
  "high_body i = [PtWait BLoop, serial_look i, PtWait BStart, PtWait BLocked, PtLock, PtUnlock, PtWait BFinish, PtCount]"

section \<open>The interrupt of the keyboard\<close>

text \<open>
  What the reporter learns of a pending \<open>SIGINT\<close>: the value returned, the variable \<open>interrupted\<close> and whether an error
  was noted.
\<close>

definition pending_interrupt :: "int \<Rightarrow> int \<Rightarrow> int \<Rightarrow> int \<times> int \<times> bool" where
  "pending_interrupt pending member interrupted =
     (if pending < 0 then (0, interrupted, True) else (member, member, False))"

section \<open>Loop and thread\<close>

text \<open>The rounds are used up, the loop was left by its test, or the function by an error.\<close>

datatype pt_end = Looping | Broke | Abandoned

definition total_reached :: "int \<Rightarrow> pt_in \<Rightarrow> bool" where
  "total_reached inversions i \<longleftrightarrow> \<not> inversions < 0 \<and> inversions \<le> pt_total i"

fun pt_loop_ops :: "(pt_in \<Rightarrow> pt_op list) \<Rightarrow> int \<Rightarrow> pt_in list \<Rightarrow> pt_op list \<times> pt_end" where
  "pt_loop_ops body inversions [] = ([], Looping)"
| "pt_loop_ops body inversions (i # is) =
     (let pre = [PtTotal (total_reached inversions i), PtTestLoop (pt_loop i)]
      in if \<not> pt_loop i then (pre, Broke)
         else case pt_seq (pt_wait i) (body i) of
                (ops, ok) \<Rightarrow>
                  if \<not> ok then (pre @ ops, Abandoned)
                  else case pt_loop_ops body inversions is of (ops', e) \<Rightarrow> (pre @ ops @ ops', e))"

text \<open>Behind the loop; the low priority thread waits for the others whether there were errors or not.\<close>

definition pt_finish :: "bool \<Rightarrow> int \<Rightarrow> int \<Rightarrow> pt_op list" where
  "pt_finish always have_errors done_status =
     PtSetShutdown # (if always \<or> have_errors = 0 then fst (pt_seq (\<lambda>_. done_status) [PtWait BDone]) else [])"

text \<open>From the ready barrier on: \<open>ready\<close> and \<open>done\<close> are the results of the two barriers shared by all threads.\<close>

definition pt_run ::
  "(pt_in \<Rightarrow> pt_op list) \<Rightarrow> bool \<Rightarrow> int \<Rightarrow> int \<Rightarrow> pt_in list \<Rightarrow> int \<Rightarrow> int \<Rightarrow> pt_op list \<times> pt_end" where
  "pt_run body always inversions ready rounds have_errors done_status =
     (if \<not> wait_ok ready then ([PtWait BReady, PtError], Abandoned)
      else case pt_loop_ops body inversions rounds of
             (ops, e) \<Rightarrow> (PtWait BReady # ops @ (if e = Broke then pt_finish always have_errors done_status else []), e))"

definition low_thread where
  "low_thread bound inversions ready rounds have_errors done_status =
     (case thread_start Low 0 0 0 bound of
        (start, st) \<Rightarrow> (start, if st = Failed then ([], Abandoned)
                              else pt_run low_body True inversions ready rounds have_errors done_status))"

definition med_thread where
  "med_thread bound inversions ready rounds have_errors done_status =
     (case thread_start Med 0 0 0 bound of
        (start, st) \<Rightarrow> (start, if st = Failed then ([], Abandoned)
                              else pt_run med_body False inversions ready rounds have_errors done_status))"

definition high_thread where
  "high_thread high_policy setaffinity setattr bound inversions ready rounds have_errors done_status =
     (case thread_start High high_policy setaffinity setattr bound of
        (start, st) \<Rightarrow> (start, if st = Failed then ([], Abandoned)
                              else pt_run high_body False inversions ready rounds have_errors done_status))"

section \<open>The order of the blocking operations\<close>

text \<open>The place of \<open>PiGroup\<close> at which a thread stands before an operation.\<close>

fun place_of :: "pt_op \<Rightarrow> place option" where
  "place_of (PtTotal _) = Some AtTotal"
| "place_of (PtTestLoop _) = Some AtTest"
| "place_of (PtSerial _) = Some AtSerial"
| "place_of (PtWait BLoop) = Some AtLoopB"
| "place_of (PtWait BStart) = Some AtStartB"
| "place_of (PtWait BLocked) = Some AtLockedB"
| "place_of (PtWait BElevate) = Some AtElevateB"
| "place_of (PtWait BFinish) = Some AtFinishB"
| "place_of (PtWait BDone) = Some AtDone"
| "place_of (PtWait BReady) = None"
| "place_of PtLock = Some AtLock"
| "place_of PtUnlock = Some AtUnlock"
| "place_of PtCount = Some AtCount"
| "place_of PtSetShutdown = Some AtExit"
| "place_of PtError = None"

definition body_of :: "tid \<Rightarrow> pt_in \<Rightarrow> pt_op list" where
  "body_of t = (case t of Low \<Rightarrow> low_body | Med \<Rightarrow> med_body | High \<Rightarrow> high_body)"

fun round_length :: "tid \<Rightarrow> nat" where
  "round_length Low = 10"
| "round_length Med = 7"
| "round_length High = 10"

definition places :: "tid \<Rightarrow> nat \<Rightarrow> place list" where
  "places t n = map (\<lambda>k. (next_place t ^^ k) AtTotal) [0..<n]"

text \<open>A round in which the loop goes on and no barrier fails.\<close>

definition good_round :: "pt_in \<Rightarrow> bool" where
  "good_round i \<longleftrightarrow> pt_loop i \<and> (\<forall>b. wait_ok (pt_wait i b))"

lemma pt_seq_good: "\<forall>b. wait_ok (w b) \<Longrightarrow> pt_seq w cs = (cs, True)"
  by (induction cs) (simp_all split: pt_op.split)

lemmas body_defs = body_of_def low_body_def med_body_def high_body_def serial_look_def

lemma upt10: "[0..<10] = [0, 1, 2, 3, 4, 5, 6, 7, 8, 9 :: nat]" "[0..<7] = [0, 1, 2, 3, 4, 5, 6 :: nat]"
  by (simp_all add: upt_rec)

lemma cycle_closes: "(next_place t ^^ round_length t) AtTotal = AtTotal"
  by (cases t) (simp_all add: eval_nat_numeral)

lemma places_round:
  "map (Some \<circ> (\<lambda>k. (next_place t ^^ k) AtTotal)) [0..<round_length t] =
     map place_of ([PtTotal a, PtTestLoop b] @ body_of t i)"
  by (cases t) (simp_all add: upt10 body_defs eval_nat_numeral)

lemma places_append: "places t (round_length t + n) = places t (round_length t) @ places t n"
proof -
  have "(next_place t ^^ (k + round_length t)) AtTotal = (next_place t ^^ k) AtTotal" for k
    by (simp add: funpow_add cycle_closes)
  then have "map (\<lambda>k. (next_place t ^^ k) AtTotal) (map (\<lambda>k. k + round_length t) [0..<n]) = places t n"
    by (simp add: places_def)
  then show ?thesis
    by (simp add: places_def upt_add_eq_append [of 0 "round_length t" n] map_add_upt add.commute [of n])
qed

lemma loop_places:
  assumes "\<forall>i \<in> set is. good_round i" "\<not> pt_loop stop"
  shows "map place_of (fst (pt_loop_ops (body_of t) inversions (is @ stop # rest))) =
      map Some (places t (round_length t * length is) @ [AtTotal, AtTest]) \<and>
    snd (pt_loop_ops (body_of t) inversions (is @ stop # rest)) = Broke"
  using assms
proof (induction "is")
  case Nil
  then show ?case by (simp add: places_def)
next
  case (Cons i "is")
  have g: "pt_loop i" "pt_seq (pt_wait i) (body_of t i) = (body_of t i, True)"
    using Cons.prems(1) by (simp_all add: good_round_def pt_seq_good)
  obtain ops e where r: "pt_loop_ops (body_of t) inversions (is @ stop # rest) = (ops, e)"
    by (cases "pt_loop_ops (body_of t) inversions (is @ stop # rest)") blast
  have IH: "map place_of ops = map Some (places t (round_length t * length is) @ [AtTotal, AtTest])" "e = Broke"
    using Cons r by simp_all
  have "places t (round_length t * length (i # is)) = places t (round_length t) @ places t (round_length t * length is)"
    using places_append [of t "round_length t * length is"] by simp
  moreover have "map Some (places t (round_length t)) =
      map place_of ([PtTotal (total_reached inversions i), PtTestLoop True] @ body_of t i)"
    using places_round [of t _ _ i] by (simp add: places_def)
  ultimately show ?case using g r IH by simp
qed

text \<open>
  C10: the thread functions refine the threads of the group model: when no call fails, the operations of a thread that
  makes \<open>n\<close> rounds are, one for one, the places that the step function of \<open>PiGroup\<close> goes through from \<open>AtTotal\<close>, and
  behind the failed test of \<open>*loop\<close> it sets the shutdown flag and waits for the others.
\<close>

theorem thread_follows_places:
  assumes "\<forall>i \<in> set is. good_round i" "\<not> pt_loop stop"
  shows "map place_of (fst (pt_run (body_of t) always inversions 0 (is @ stop # rest) 0 0)) =
    None # map Some (places t (round_length t * length is) @ [AtTotal, AtTest, AtExit, AtDone])"
proof -
  obtain ops e where r: "pt_loop_ops (body_of t) inversions (is @ stop # rest) = (ops, e)"
    by (cases "pt_loop_ops (body_of t) inversions (is @ stop # rest)") blast
  then show ?thesis
    using loop_places [OF assms, of t inversions rest] by (simp add: pt_run_def pt_finish_def wait_ok_def)
qed

definition ex_round :: "bool \<Rightarrow> pt_in" where
  "ex_round l = \<lparr>pt_total = 0, pt_loop = l, pt_shutdown = False, pt_wait = \<lambda>_. 0\<rparr>"

theorem thread_follows_places_witness:
  "map place_of (fst (pt_run (body_of Med) False 5 0 ([ex_round True] @ ex_round False # []) 0 0)) =
    None # map Some (places Med (round_length Med * length [ex_round True]) @ [AtTotal, AtTest, AtExit, AtDone])"
  by (rule thread_follows_places) (simp_all add: good_round_def ex_round_def wait_ok_def)

section \<open>Failing barriers\<close>

definition holds_mutex :: "pt_op list \<Rightarrow> bool" where
  "holds_mutex ops \<longleftrightarrow> count_list ops PtLock \<noteq> count_list ops PtUnlock"

definition quiet_ops :: "pt_op list \<Rightarrow> bool" where
  "quiet_ops ops \<longleftrightarrow> PtError \<notin> set ops \<and> PtSetShutdown \<notin> set ops"

text \<open>The operations up to a failure at a barrier.\<close>

definition failed_at :: "tid \<Rightarrow> pt_op list \<Rightarrow> bool" where
  "failed_at t ops \<longleftrightarrow> 2 \<le> length ops \<and> last ops = PtError \<and> quiet_ops (butlast ops) \<and>
     (\<exists>b. last (butlast ops) = PtWait b \<and> (holds_mutex ops \<longleftrightarrow> t = Low \<and> (b = BLocked \<or> b = BElevate)))"

lemma failed_at_prepend:
  assumes "failed_at t ops" "quiet_ops us" "count_list us PtLock = count_list us PtUnlock"
  shows "failed_at t (us @ ops)"
proof -
  have "ops \<noteq> []" "butlast ops \<noteq> []"
    using assms(1) by (auto simp: failed_at_def simp flip: length_greater_0_conv)
  then show ?thesis
    using assms by (auto simp: failed_at_def butlast_append quiet_ops_def holds_mutex_def)
qed

lemma body_failed:
  "pt_seq (pt_wait i) (body_of t i) = (ops, False) \<Longrightarrow> failed_at t ops"
  by (cases t) (auto simp: body_defs failed_at_def quiet_ops_def holds_mutex_def split: if_splits)

lemma body_balanced:
  "pt_seq (pt_wait i) (body_of t i) = (ops, True) \<Longrightarrow> quiet_ops ops \<and> count_list ops PtLock = count_list ops PtUnlock"
  by (cases t) (auto simp: body_defs quiet_ops_def split: if_splits)

lemma loop_failed:
  "pt_loop_ops (body_of t) inversions is = (ops, e) \<Longrightarrow>
     if e = Abandoned then failed_at t ops else quiet_ops ops \<and> \<not> holds_mutex ops"
proof (induction "is" arbitrary: ops e)
  case Nil
  then show ?case by (auto simp: quiet_ops_def holds_mutex_def)
next
  case (Cons i "is")
  let ?pre = "[PtTotal (total_reached inversions i), PtTestLoop True]"
  obtain os ok where b: "pt_seq (pt_wait i) (body_of t i) = (os, ok)" by fastforce
  obtain ops' e' where r: "pt_loop_ops (body_of t) inversions is = (ops', e')" by fastforce
  show ?case
  proof (cases "pt_loop i")
    case False
    then show ?thesis using Cons.prems by (auto simp: quiet_ops_def holds_mutex_def)
  next
    case go: True
    show ?thesis
    proof (cases ok)
      case False
      then have "failed_at t (?pre @ os)"
        using body_failed b by (intro failed_at_prepend) (auto simp: quiet_ops_def)
      then show ?thesis using Cons.prems go b False by simp
    next
      case True
      then have q: "quiet_ops (?pre @ os)" "count_list (?pre @ os) PtLock = count_list (?pre @ os) PtUnlock"
        using body_balanced b by (auto simp: quiet_ops_def)
      have e: "e = e'" "ops = (?pre @ os) @ ops'" using Cons.prems go b True r by auto
      from Cons.IH [OF r] q e show ?thesis
        using failed_at_prepend [of t ops' "?pre @ os"] by (auto simp: quiet_ops_def holds_mutex_def)
    qed
  qed
qed

text \<open>
  A barrier that fails within the loop ends the thread: one error is reported and nothing is done behind it, so the
  shutdown flag is not set and the others are not told. The low priority thread goes with the group mutex if it
  fails between taking and releasing it, no other thread ever does.
\<close>

theorem failed_barrier_abandons:
  assumes "wait_ok ready"
  shows "(snd (pt_run (body_of t) always inversions ready is errs fin) = Abandoned \<longrightarrow>
      failed_at t (fst (pt_run (body_of t) always inversions ready is errs fin))) \<and>
    (snd (pt_run (body_of t) always inversions ready is errs fin) \<noteq> Abandoned \<longrightarrow>
      \<not> holds_mutex (fst (pt_run (body_of t) always inversions ready is errs fin)))"
proof -
  obtain ops e where r: "pt_loop_ops (body_of t) inversions is = (ops, e)" by fastforce
  have "failed_at t ([PtWait BReady] @ ops)" if "e = Abandoned"
    using loop_failed [OF r] that by (intro failed_at_prepend) (auto simp: quiet_ops_def)
  then show ?thesis
    using loop_failed [OF r] assms r
    by (auto simp: pt_run_def pt_finish_def holds_mutex_def)
qed

theorem failed_barrier_abandons_witness:
  "failed_at Low (fst (pt_run (body_of Low) True 5 0
     [ex_round True, (ex_round True)\<lparr>pt_wait := \<lambda>b. if b = BElevate then 22 else 0\<rparr>] 0 0))"
proof -
  let ?is = "[ex_round True, (ex_round True)\<lparr>pt_wait := \<lambda>b. if b = BElevate then 22 else 0\<rparr>]"
  have "snd (pt_run (body_of Low) True 5 0 ?is 0 0) = Abandoned"
    by (simp add: pt_run_def ex_round_def body_defs wait_ok_def)
  then show ?thesis using failed_barrier_abandons [of 0 Low True 5 ?is 0 0] by (simp add: wait_ok_def)
qed

end
