(* ===== verification/ClassicPi.thy ===== *)
theory ClassicPi
  imports PiGroup
begin

text \<open>
  \<^verbatim>\<open>src/pi_tests/classic_pi.c\<close>: three threads of fixed priorities on one CPU,
  once with a mutex that hands the priority of a waiting thread on to its owner and once without.
  A thread is the list of its operations; the scheduler runs the runnable thread of the
  highest priority. \<open>pthread_barrier_wait\<close> and the mutex calls of the threads are taken to succeed (they fail
  only for an object that was not initialised); the set-up by \<open>main\<close>, where any call may fail, is the last
  section. The output and \<open>report_threadinfo\<close> are left out.
\<close>

section \<open>The priorities\<close>

fun tid_rank :: "tid \<Rightarrow> nat" where
  "tid_rank Low = 0"
| "tid_rank Med = 1"
| "tid_rank High = 2"

instantiation tid :: linorder
begin

definition less_eq_tid :: "tid \<Rightarrow> tid \<Rightarrow> bool" where "less_eq_tid a b \<longleftrightarrow> tid_rank a \<le> tid_rank b"
definition less_tid :: "tid \<Rightarrow> tid \<Rightarrow> bool" where "less_tid a b \<longleftrightarrow> tid_rank a < tid_rank b"

instance
proof
  fix a b c :: tid
  show "a < b \<longleftrightarrow> a \<le> b \<and> \<not> b \<le> a" by (auto simp: less_eq_tid_def less_tid_def)
  show "a \<le> a" by (simp add: less_eq_tid_def)
  show "a \<le> b \<Longrightarrow> b \<le> c \<Longrightarrow> a \<le> c" by (simp add: less_eq_tid_def)
  show "a \<le> b \<Longrightarrow> b \<le> a \<Longrightarrow> a = b" by (cases a; cases b) (simp_all add: less_eq_tid_def)
  show "a \<le> b \<or> b \<le> a" by (auto simp: less_eq_tid_def)
qed

end

lemma tid_less [simp]:
  "Low < Med" "Low < High" "Med < High" "\<not> Med < Low" "\<not> High < Low" "\<not> High < Med"
  "Low \<le> t" "t \<le> High" "\<not> High \<le> Low" "\<not> High \<le> Med" "\<not> Med \<le> Low"
  by (simp_all add: less_tid_def less_eq_tid_def) (cases t; simp)+

section \<open>The thread functions\<close>

datatype cbar = ReadyBar | StartBar | LockedBar | ElevateBar | FinishBar | DoneBar

datatype cop =
    LoopTest               \<comment> \<open>\<open>p->inversions-- > 0\<close>, else on to the last operation\<close>
  | Wait cbar
  | LockMutex
  | UnlockMutex
  | SetHighRun bool
  | SetLowUnlocked bool
  | RetryElevate           \<comment> \<open>back to the barrier while \<open>!high_has_run && !low_unlocked\<close>\<close>
  | Again                  \<comment> \<open>the end of the loop's body: back to its test\<close>

definition classic_low :: "cop list" where
  "classic_low =
     [Wait ReadyBar, LoopTest, Wait StartBar, LockMutex, Wait LockedBar, SetLowUnlocked False, Wait ElevateBar,
      SetLowUnlocked True, UnlockMutex, Wait FinishBar, Again, Wait DoneBar]"

definition classic_med :: "cop list" where
  "classic_med =
     [Wait ReadyBar, LoopTest, Wait StartBar, Wait ElevateBar, RetryElevate, Wait FinishBar, Again, Wait DoneBar]"

definition classic_high :: "cop list" where
  "classic_high =
     [Wait ReadyBar, LoopTest, SetHighRun False, Wait StartBar, Wait LockedBar, LockMutex, SetHighRun True, UnlockMutex,
      Wait FinishBar, Again, Wait DoneBar]"

fun classic_prog :: "tid \<Rightarrow> cop list" where
  "classic_prog Low = classic_low"
| "classic_prog Med = classic_med"
| "classic_prog High = classic_high"

section \<open>Running them on one CPU\<close>

record cstate =
  c_pc :: "tid \<Rightarrow> nat"
  c_left :: "tid \<Rightarrow> int"
  c_owner :: "tid option"
  c_high_run :: bool
  c_low_unlocked :: bool

definition op_of :: "(tid \<Rightarrow> cop list) \<Rightarrow> cstate \<Rightarrow> tid \<Rightarrow> cop" where
  "op_of prog s t = prog t ! c_pc s t"

text \<open>
  The threads that meet at a barrier (\<open>initialize_barriers\<close>). At the first and the last one they meet with
  \<open>main\<close> as well, whose priority is above theirs: it is there before them. A thread that has come to the
  last one has finished.
\<close>

fun bar_parties :: "cbar \<Rightarrow> tid list" where
  "bar_parties ReadyBar = [Low, Med, High]"
| "bar_parties StartBar = [Low, Med, High]"
| "bar_parties LockedBar = [Low, High]"
| "bar_parties ElevateBar = [Low, Med]"
| "bar_parties FinishBar = [Low, Med, High]"
| "bar_parties DoneBar = []"

definition bar_full :: "(tid \<Rightarrow> cop) \<Rightarrow> cbar \<Rightarrow> bool" where
  "bar_full ops b = list_all (\<lambda>t. ops t = Wait b) (bar_parties b)"

definition open_bar :: "cbar \<Rightarrow> cstate \<Rightarrow> cstate" where
  "open_bar b s = s\<lparr>c_pc := fold (\<lambda>t pc. pc(t := Suc (pc t))) (bar_parties b) (c_pc s)\<rparr>"

fun is_wait :: "cop \<Rightarrow> bool" where
  "is_wait (Wait b) = True"
| "is_wait _ = False"

definition ready :: "(tid \<Rightarrow> cop) \<Rightarrow> tid option \<Rightarrow> tid \<Rightarrow> bool" where
  "ready ops owner t \<longleftrightarrow> \<not> is_wait (ops t) \<and> (ops t = LockMutex \<longrightarrow> owner = None)"

text \<open>With priority inheritance the owner of the mutex has the highest priority of those that want it.\<close>

definition effective :: "bool \<Rightarrow> (tid \<Rightarrow> cop) \<Rightarrow> tid option \<Rightarrow> tid \<Rightarrow> tid" where
  "effective pi ops owner t =
     (if pi \<and> owner = Some t then fold max (filter (\<lambda>u. ops u = LockMutex) [Low, Med, High]) t else t)"

definition pick :: "bool \<Rightarrow> (tid \<Rightarrow> cop) \<Rightarrow> tid option \<Rightarrow> tid option" where
  "pick pi ops owner =
     (case filter (ready ops owner) [Low, Med, High] of
        [] \<Rightarrow> None
      | t # ts \<Rightarrow>
          Some (fold (\<lambda>u best. if effective pi ops owner best < effective pi ops owner u then u else best) ts t))"

definition exec_op :: "(tid \<Rightarrow> cop list) \<Rightarrow> tid \<Rightarrow> cstate \<Rightarrow> cstate" where
  "exec_op prog t s =
     (let next = s\<lparr>c_pc := (c_pc s)(t := Suc (c_pc s t))\<rparr>
      in case op_of prog s t of
           LoopTest \<Rightarrow>
             (if 0 < c_left s t then next else s\<lparr>c_pc := (c_pc s)(t := length (prog t) - 1)\<rparr>)
               \<lparr>c_left := (c_left s)(t := c_left s t - 1)\<rparr>
         | Wait b \<Rightarrow> s
         | LockMutex \<Rightarrow> next\<lparr>c_owner := Some t\<rparr>
         | UnlockMutex \<Rightarrow> next\<lparr>c_owner := None\<rparr>
         | SetHighRun b \<Rightarrow> next\<lparr>c_high_run := b\<rparr>
         | SetLowUnlocked b \<Rightarrow> next\<lparr>c_low_unlocked := b\<rparr>
         | RetryElevate \<Rightarrow>
             if \<not> c_high_run s \<and> \<not> c_low_unlocked s then s\<lparr>c_pc := (c_pc s)(t := c_pc s t - 1)\<rparr> else next
         | Again \<Rightarrow> s\<lparr>c_pc := (c_pc s)(t := 1)\<rparr>)"

text \<open>
  A step: a barrier where all have arrived opens at once; else the ready thread of the highest effective
  priority runs. No step when all threads wait.
\<close>

definition cstep :: "bool \<Rightarrow> (tid \<Rightarrow> cop list) \<Rightarrow> cstate \<Rightarrow> cstate option" where
  "cstep pi prog s =
     (case find (bar_full (op_of prog s)) [ReadyBar, StartBar, LockedBar, ElevateBar, FinishBar] of
        Some b \<Rightarrow> Some (open_bar b s)
      | None \<Rightarrow> map_option (\<lambda>t. exec_op prog t s) (pick pi (op_of prog s) (c_owner s)))"

fun crun :: "bool \<Rightarrow> (tid \<Rightarrow> cop list) \<Rightarrow> nat \<Rightarrow> cstate \<Rightarrow> cstate" where
  "crun pi prog 0 s = s"
| "crun pi prog (Suc n) s = (case cstep pi prog s of None \<Rightarrow> s | Some s' \<Rightarrow> crun pi prog n s')"

text \<open>The threads have been created; the flags start at 0.\<close>

definition cstart :: "int \<Rightarrow> cstate" where
  "cstart inversions = \<lparr>c_pc = (\<lambda>_. 0), c_left = (\<lambda>_. inversions), c_owner = None, c_high_run = False, c_low_unlocked = False\<rparr>"

definition all_done :: "(tid \<Rightarrow> cop list) \<Rightarrow> cstate \<Rightarrow> bool" where
  "all_done prog s = list_all (\<lambda>t. op_of prog s t = Wait DoneBar) [Low, Med, High]"

section \<open>Evaluating runs\<close>

lemma classic_low_nth [simp]:
  "classic_low ! 0 = Wait ReadyBar" "classic_low ! 1 = LoopTest"
  "classic_low ! 2 = Wait StartBar" "classic_low ! 3 = LockMutex"
  "classic_low ! 4 = Wait LockedBar" "classic_low ! 5 = SetLowUnlocked False" "classic_low ! 6 = Wait ElevateBar"
  "classic_low ! 7 = SetLowUnlocked True" "classic_low ! 8 = UnlockMutex" "classic_low ! 9 = Wait FinishBar"
  "classic_low ! 10 = Again" "classic_low ! 11 = Wait DoneBar" "length classic_low = 12"
  by (simp_all add: classic_low_def)

lemma classic_med_nth [simp]:
  "classic_med ! 0 = Wait ReadyBar" "classic_med ! 1 = LoopTest"
  "classic_med ! 2 = Wait StartBar" "classic_med ! 3 = Wait ElevateBar"
  "classic_med ! 4 = RetryElevate" "classic_med ! 5 = Wait FinishBar" "classic_med ! 6 = Again"
  "classic_med ! 7 = Wait DoneBar" "length classic_med = 8"
  by (simp_all add: classic_med_def)

lemma classic_high_nth [simp]:
  "classic_high ! 0 = Wait ReadyBar" "classic_high ! 1 = LoopTest"
  "classic_high ! 2 = SetHighRun False"
  "classic_high ! 3 = Wait StartBar" "classic_high ! 4 = Wait LockedBar" "classic_high ! 5 = LockMutex"
  "classic_high ! 6 = SetHighRun True" "classic_high ! 7 = UnlockMutex" "classic_high ! 8 = Wait FinishBar"
  "classic_high ! 9 = Again" "classic_high ! 10 = Wait DoneBar" "length classic_high = 11"
  by (simp_all add: classic_high_def)

text \<open>A state by its components, in the order of the threads.\<close>

definition cmk :: "nat \<Rightarrow> nat \<Rightarrow> nat \<Rightarrow> int \<Rightarrow> int \<Rightarrow> int \<Rightarrow> tid option \<Rightarrow> bool \<Rightarrow> bool \<Rightarrow> cstate"
where
  "cmk l m h a b c ow hr lu =
     \<lparr>c_pc = case_tid l m h, c_left = case_tid a b c, c_owner = ow, c_high_run = hr, c_low_unlocked = lu\<rparr>"

lemma cmk_sel [simp]:
  "op_of p (cmk l m h a b c ow hr lu) = case_tid (p Low ! l) (p Med ! m) (p High ! h)"
  "c_owner (cmk l m h a b c ow hr lu) = ow"
  by (rule ext) (simp_all add: cmk_def op_of_def split: tid.split)

lemma cmk_open [simp]:
  "open_bar ReadyBar (cmk l m h a b c ow hr lu) = cmk (l + 1) (m + 1) (h + 1) a b c ow hr lu"
  "open_bar StartBar (cmk l m h a b c ow hr lu) = cmk (l + 1) (m + 1) (h + 1) a b c ow hr lu"
  "open_bar LockedBar (cmk l m h a b c ow hr lu) = cmk (l + 1) m (h + 1) a b c ow hr lu"
  "open_bar ElevateBar (cmk l m h a b c ow hr lu) = cmk (l + 1) (m + 1) h a b c ow hr lu"
  "open_bar FinishBar (cmk l m h a b c ow hr lu) = cmk (l + 1) (m + 1) (h + 1) a b c ow hr lu"
  by (simp_all add: cmk_def open_bar_def case_tid_upd)

lemma cmk_exec [simp]:
  "exec_op p Low (cmk l m h a b c ow hr lu) =
     (case p Low ! l of LoopTest \<Rightarrow> cmk (if 0 < a then l + 1 else length (p Low) - 1) m h (a - 1) b c ow hr lu
      | Wait b' \<Rightarrow> cmk l m h a b c ow hr lu
      | LockMutex \<Rightarrow> cmk (l + 1) m h a b c (Some Low) hr lu | UnlockMutex \<Rightarrow> cmk (l + 1) m h a b c None hr lu
      | SetHighRun x \<Rightarrow> cmk (l + 1) m h a b c ow x lu | SetLowUnlocked x \<Rightarrow> cmk (l + 1) m h a b c ow hr x
      | RetryElevate \<Rightarrow> cmk (if \<not> hr \<and> \<not> lu then l - 1 else l + 1) m h a b c ow hr lu
      | Again \<Rightarrow> cmk 1 m h a b c ow hr lu)"
  "exec_op p Med (cmk l m h a b c ow hr lu) =
     (case p Med ! m of LoopTest \<Rightarrow> cmk l (if 0 < b then m + 1 else length (p Med) - 1) h a (b - 1) c ow hr lu
      | Wait b' \<Rightarrow> cmk l m h a b c ow hr lu
      | LockMutex \<Rightarrow> cmk l (m + 1) h a b c (Some Med) hr lu | UnlockMutex \<Rightarrow> cmk l (m + 1) h a b c None hr lu
      | SetHighRun x \<Rightarrow> cmk l (m + 1) h a b c ow x lu | SetLowUnlocked x \<Rightarrow> cmk l (m + 1) h a b c ow hr x
      | RetryElevate \<Rightarrow> cmk l (if \<not> hr \<and> \<not> lu then m - 1 else m + 1) h a b c ow hr lu
      | Again \<Rightarrow> cmk l 1 h a b c ow hr lu)"
  "exec_op p High (cmk l m h a b c ow hr lu) =
     (case p High ! h of LoopTest \<Rightarrow> cmk l m (if 0 < c then h + 1 else length (p High) - 1) a b (c - 1) ow hr lu
      | Wait b' \<Rightarrow> cmk l m h a b c ow hr lu
      | LockMutex \<Rightarrow> cmk l m (h + 1) a b c (Some High) hr lu | UnlockMutex \<Rightarrow> cmk l m (h + 1) a b c None hr lu
      | SetHighRun x \<Rightarrow> cmk l m (h + 1) a b c ow x lu | SetLowUnlocked x \<Rightarrow> cmk l m (h + 1) a b c ow hr x
      | RetryElevate \<Rightarrow> cmk l m (if \<not> hr \<and> \<not> lu then h - 1 else h + 1) a b c ow hr lu
      | Again \<Rightarrow> cmk l m 1 a b c ow hr lu)"
  subgoal by (cases "p Low ! l") (simp_all add: exec_op_def Let_def op_of_def cmk_def case_tid_upd)
  subgoal by (cases "p Med ! m") (simp_all add: exec_op_def Let_def op_of_def cmk_def case_tid_upd)
  subgoal by (cases "p High ! h") (simp_all add: exec_op_def Let_def op_of_def cmk_def case_tid_upd)
  done

lemmas cstep_eval = cstep_def bar_full_def pick_def ready_def effective_def max_def

lemma crun_Some: "cstep pi p s = Some s' \<Longrightarrow> crun pi p (numeral k) s = crun pi p (pred_numeral k) s'"
  by (simp add: numeral_eq_Suc)

lemma crun_Some1: "cstep pi p s = Some s' \<Longrightarrow> crun pi p 1 s = s'"
  by simp

lemma crun_stuck: "cstep pi p s = None \<Longrightarrow> crun pi p n s = s"
  by (cases n) simp_all

lemma crun_add: "crun pi p m s = s' \<Longrightarrow> crun pi p (m + n) s = crun pi p n s'"
proof (induction m arbitrary: s)
  case (Suc m)
  then show ?case by (cases "cstep pi p s") (auto simp: crun_stuck)
qed simp

lemmas crun_eval = cstep_eval crun_Some crun_Some1

text \<open>One round with inheritance, from the end of the last one, in four stretches.\<close>

lemma stretch_back:
  "0 < k \<Longrightarrow> crun True classic_prog 7 (cmk 10 6 9 k k k None True True) = cmk 2 2 3 (k - 1) (k - 1) (k - 1) None False True"
  by (simp add: crun_eval del: crun.simps One_nat_def)

lemma stretch_first:
  "0 < k \<Longrightarrow> crun True classic_prog 5 (cmk 0 0 0 k k k None False False) = cmk 2 2 3 (k - 1) (k - 1) (k - 1) None False False"
  by (simp add: crun_eval del: crun.simps One_nat_def)

lemma stretch_lock:
  "crun True classic_prog 5 (cmk 2 2 3 a b c None False lu) = cmk 7 4 5 a b c (Some Low) False False"
  by (simp add: crun_eval del: crun.simps One_nat_def)

lemma stretch_finish:
  "crun True classic_prog 7 (cmk 7 4 5 a b c (Some Low) False False) = cmk 10 6 9 a b c None True True"
  by (simp add: crun_eval del: crun.simps One_nat_def)

lemma stretch_end:
  "crun True classic_prog 6 (cmk 10 6 9 0 0 0 None True True) = cmk 11 7 10 (- 1) (- 1) (- 1) None True True"
  by (simp add: crun_eval del: crun.simps One_nat_def)

lemma stretch_lock_finish:
  "crun True classic_prog 12 (cmk 2 2 3 a b c None False lu) = cmk 10 6 9 a b c None True True"
  using crun_add [OF stretch_lock, of 7] stretch_finish by simp

lemma round_pi:
  assumes "0 < k"
  shows "crun True classic_prog 19 (cmk 10 6 9 k k k None True True) = cmk 10 6 9 (k - 1) (k - 1) (k - 1) None True True"
  using crun_add [OF stretch_back [OF assms], of 12] stretch_lock_finish
  by simp

lemma rounds_pi:
  "crun True classic_prog (19 * n) (cmk 10 6 9 (int n) (int n) (int n) None True True) = cmk 10 6 9 0 0 0 None True True"
proof (induction n)
  case (Suc n)
  have "crun True classic_prog (19 + 19 * n) (cmk 10 6 9 (int (Suc n)) (int (Suc n)) (int (Suc n)) None True True) =
      crun True classic_prog (19 * n) (cmk 10 6 9 (int n) (int n) (int n) None True True)"
    by (rule crun_add) (simp add: round_pi)
  then show ?case using Suc.IH by simp
qed simp

lemma cstart_cmk: "cstart k = cmk 0 0 0 k k k None False False"
  by (simp add: cstart_def cmk_def fun_eq_iff split: tid.split)

lemma first_round_pi:
  "crun True classic_prog 17 (cstart (int (Suc n))) = cmk 10 6 9 (int n) (int n) (int n) None True True"
  using crun_add [OF stretch_first [of "int (Suc n)"], of 12] stretch_lock_finish
  by (simp add: cstart_cmk)

lemma no_round_pi:
  "crun pi classic_prog 4 (cstart 0) = cmk 11 7 10 (- 1) (- 1) (- 1) None False False"
  by (simp add: cstart_cmk crun_eval del: crun.simps One_nat_def)

section \<open>What the runs end in\<close>

text \<open>
  C11: with a mutex that inherits priorities the test comes to its end for any number of inversions: after
  \<open>4 + 19 n\<close> steps all threads are at the last barrier, the mutex is free, and each thread has counted
  down its \<open>n\<close> inversions (and once more, in the test that ends its loop).
\<close>

theorem classic_pi_completes:
  "let s = crun True classic_prog (4 + 19 * n) (cstart (int n))
   in all_done classic_prog s \<and> c_owner s = None \<and> c_left s = (\<lambda>_. - 1)"
proof (cases n)
  case 0
  then show ?thesis by (simp add: no_round_pi all_done_def) (simp add: cmk_def fun_eq_iff split: tid.split)
next
  case (Suc m)
  have "crun True classic_prog (17 + (19 * m + 6)) (cstart (int (Suc m))) = cmk 11 7 10 (- 1) (- 1) (- 1) None True True"
    by (simp only: crun_add [OF first_round_pi] crun_add [OF rounds_pi] stretch_end)
  moreover have "4 + 19 * n = 17 + (19 * m + 6)" using Suc by simp
  ultimately have "crun True classic_prog (4 + 19 * n) (cstart (int n)) = cmk 11 7 10 (- 1) (- 1) (- 1) None True True"
    unfolding Suc by simp
  then show ?thesis by (simp add: all_done_def) (simp add: cmk_def fun_eq_iff split: tid.split)
qed

lemma stretch_first_none:
  "0 < k \<Longrightarrow> crun False classic_prog 5 (cmk 0 0 0 k k k None False False) = cmk 2 2 3 (k - 1) (k - 1) (k - 1) None False False"
  by (simp add: crun_eval del: crun.simps One_nat_def)

lemma stretch_lock_none:
  "crun False classic_prog 5 (cmk 2 2 3 a b c None False lu) = cmk 7 4 5 a b c (Some Low) False False"
  by (simp add: crun_eval del: crun.simps One_nat_def)

lemma stretch_stuck:
  "crun False classic_prog 6 (cmk 7 4 5 a b c (Some Low) False False) = cmk 9 3 8 a b c None True True"
  by (simp add: crun_eval del: crun.simps One_nat_def)

lemma first_round_none:
  "crun False classic_prog 16 (cstart (int (Suc n))) = cmk 9 3 8 (int n) (int n) (int n) None True True"
  using crun_add [OF stretch_first_none [of "int (Suc n)"], of 11] crun_add [OF stretch_lock_none, of 6] stretch_stuck
  by (simp add: cstart_cmk)

lemma none_stuck: "cstep False classic_prog (cmk 9 3 8 a b c None True True) = None"
  by (simp add: cstep_eval)

text \<open>
  C12: without inheritance the same threads deadlock in the first inversion: the medium thread, which runs
  in place of the boosted low one, looks at the flags before either is set and goes back to the barrier
  where it waits for the low thread, while the two others wait for it at the last barrier of the round.
  From step 16 on nothing moves, although no thread holds the mutex.
\<close>

theorem classic_pi_deadlocks_without_inheritance:
  "let s = crun False classic_prog 16 (cstart (int (Suc n)))
   in cstep False classic_prog s = None \<and> \<not> all_done classic_prog s \<and> c_owner s = None \<and>
    map (op_of classic_prog s) [Low, Med, High] = [Wait FinishBar, Wait ElevateBar, Wait FinishBar] \<and>
    crun False classic_prog (16 + m) (cstart (int (Suc n))) = s"
  unfolding Let_def crun_add [OF refl] unfolding first_round_none
  by (simp add: none_stuck crun_stuck all_done_def)

section \<open>The set-up by \<open>main\<close>\<close>

text \<open>
  A call of \<open>main\<close> and its helpers; what the calls return is the argument \<open>st\<close>. The set-up is a list of
  phases, each with the calls it makes and the exit status if it ends the program.
\<close>

datatype mcall =
    MutexattrInit | SetProtocol | MutexInit | BarrierInit cbar nat
  | GetAffinity | SetAffinity nat | SetSched int
  | AttrInit tid | AttrPolicy tid | AttrInherit tid | AttrPrio tid int | AttrAffinity tid nat
  | CreateThread tid int | KillThread tid
  | OnSigint | OnSigalrm | BarrierWait cbar | Alarm int

type_synonym phase = "mcall list \<times> int option"

fun run_phases :: "phase list \<Rightarrow> phase" where
  "run_phases [] = ([], None)"
| "run_phases ((cs, Some e) # ps) = (cs, Some e)"
| "run_phases ((cs, None) # ps) = (let (ds, r) = run_phases ps in (cs @ ds, r))"

definition made :: "(mcall, string) seq_result \<Rightarrow> mcall list" where
  "made r = (case r of SeqOk cs \<Rightarrow> cs | SeqFail cs m \<Rightarrow> cs)"

text \<open>Calls in sequence, where a failing one ends the program with status \<open>e\<close>, or is ignored.\<close>

definition or_exit :: "(mcall \<Rightarrow> int) \<Rightarrow> int \<Rightarrow> (mcall \<times> string) list \<Rightarrow> phase" where
  "or_exit st e cs = (made (seq_calls st cs), case seq_calls st cs of SeqOk _ \<Rightarrow> None | SeqFail _ _ \<Rightarrow> Some e)"

definition ignoring :: "(mcall \<Rightarrow> int) \<Rightarrow> (mcall \<times> string) list \<Rightarrow> phase" where
  "ignoring st cs = (made (seq_calls st cs), None)"

definition classic_initialize_barriers :: "(mcall \<times> string) list" where
  "classic_initialize_barriers =
     [(BarrierInit ReadyBar 4, ''initialize_barriers: failed to initialize all_threads_ready''),
      (BarrierInit DoneBar 4, ''initialize_barriers: failed to initialize all_threads_done''),
      (BarrierInit StartBar 3, ''initialize_barriers: failed to initialize start_barrier''),
      (BarrierInit LockedBar 2, ''initializing_barriers: failed to intialize locked_barrier''),
      (BarrierInit ElevateBar 2, ''initializing_barriers: failed to initialize elevate_barrier''),
      (BarrierInit FinishBar 3, ''initializing_barriers: failed to initialize finish_barrier'')]"

definition classic_setup_thread_attr :: "tid \<Rightarrow> int \<Rightarrow> nat \<Rightarrow> (mcall \<times> string) list" where
  "classic_setup_thread_attr t prio cpu =
     [(AttrInit t, ''setup_thread_attr: initializing thread attribute''),
      (AttrPolicy t, ''setup_thread_attr: setting attribute policy to SCHED_FIFO''),
      (AttrInherit t, ''setup_thread_attr: setting explicit scheduling inheritance''),
      (AttrPrio t prio, ''setup_thread_attr: setting scheduler param''),
      (AttrAffinity t cpu, ''setup_thread_attr: setting affinity attribute'')]"

text \<open>The first CPU of the process's own mask (\<open>current\<close>), among the 1024 of a \<open>cpu_set_t\<close>.\<close>

definition first_cpu :: "nat list \<Rightarrow> nat option" where
  "first_cpu current = find (\<lambda>i. i \<in> set current) [0..<1024]"

definition classic_set_cpu_affinity :: "(mcall \<Rightarrow> int) \<Rightarrow> nat list \<Rightarrow> phase" where
  "classic_set_cpu_affinity st current =
     (if st GetAffinity \<noteq> 0 then ([GetAffinity], Some 1)
      else case first_cpu current of
             None \<Rightarrow> ([GetAffinity], Some 1)
           | Some i \<Rightarrow> ([GetAffinity, SetAffinity i], if st (SetAffinity i) \<noteq> 0 then Some 1 else None))"

definition classic_cleanup :: "mcall list" where
  "classic_cleanup = map KillThread [Low, Med, High]"

text \<open>A failing call behind which the threads started so far get \<open>SIGQUIT\<close>; a barrier may answer -1 (\<open>SERIAL\<close>).\<close>

definition or_cleanup :: "(mcall \<Rightarrow> int) \<Rightarrow> int list \<Rightarrow> mcall \<Rightarrow> phase" where
  "or_cleanup st good c = (if st c \<in> set good then ([c], None) else (c # classic_cleanup, Some 1))"

text \<open>
  Mutex, barriers, affinity, priority. A \<open>main\<close> that may not raise its priority returns \<open>SUCCESS\<close>.
\<close>

definition prepare_phases :: "(mcall \<Rightarrow> int) \<Rightarrow> bool \<Rightarrow> nat list \<Rightarrow> int \<Rightarrow> phase list" where
  "prepare_phases st use_pi current prio_max =
     [or_exit st 1 [(MutexattrInit, ''main: initializing mutex attribute'')],
      or_exit st 1 (if use_pi then [(SetProtocol, ''main: setting mutex attribute policy'')] else []),
      or_exit st 1 [(MutexInit, ''main: initializing mutex'')],
      or_exit st 1 classic_initialize_barriers,
      classic_set_cpu_affinity st current,
      or_exit st 0 [(SetSched (prio_max - 1), ''main: boosting to max priority'')]]"

text \<open>The three threads; the attributes of the first two are not checked.\<close>

definition create_phases :: "(mcall \<Rightarrow> int) \<Rightarrow> int \<Rightarrow> nat \<Rightarrow> int \<Rightarrow> phase list" where
  "create_phases st inversions cpu prio_max =
     [ignoring st (classic_setup_thread_attr Low (prio_max - 4) cpu),
      or_exit st 1 [(CreateThread Low inversions, ''main: creating low_priority thread'')],
      ignoring st (classic_setup_thread_attr Med (prio_max - 3) cpu),
      or_exit st 1 [(CreateThread Med inversions, ''main: creating med_priority thread'')],
      or_exit st 1 (classic_setup_thread_attr High (prio_max - 2) cpu),
      or_cleanup st [0] (CreateThread High inversions)]"

definition classic_main ::
  "(mcall \<Rightarrow> int) \<Rightarrow> bool \<Rightarrow> int \<Rightarrow> nat list \<Rightarrow> int \<Rightarrow> bool \<Rightarrow> phase"
where
  "classic_main st use_pi inversions current prio_max deadlocked =
     run_phases
       (prepare_phases st use_pi current prio_max @
        create_phases st inversions (case first_cpu current of Some i \<Rightarrow> i | None \<Rightarrow> 0) prio_max @
        [([OnSigint, OnSigalrm], None),
         or_cleanup st [0, -1] (BarrierWait ReadyBar),
         ([Alarm (u32 (2 * inversions))], None),
         or_cleanup st [0, -1] (BarrierWait DoneBar),
         ([Alarm 0], None),
         ([], Some (if deadlocked then 1 else 0))])"

text \<open>
  The options, as \<open>getopt_long\<close> hands them over. Its list of short options is empty (\<open>"+"\<close>), so that a
  short option, also one of those the usage text names, is an unknown one (\<open>'?'\<close>): usage and exit 1.
\<close>

record classic_opts =
  co_verbose :: int
  co_use_pi :: int
  co_inversions :: int

fun classic_option :: "char \<times> string \<Rightarrow> classic_opts \<Rightarrow> classic_opts option" where
  "classic_option (c, optarg) os =
     (if c = CHR ''?'' then None
      else if c = CHR ''v'' then Some (os\<lparr>co_verbose := 1\<rparr>)
      else if c = CHR ''q'' then Some (os\<lparr>co_verbose := 0\<rparr>)
      else if c = CHR ''n'' then Some (os\<lparr>co_use_pi := 0\<rparr>)
      else if c = CHR ''i'' then Some (os\<lparr>co_inversions := s32 (fst (strtol10 optarg))\<rparr>)
      else Some os)"

fun classic_options :: "(char \<times> string) list \<Rightarrow> classic_opts \<Rightarrow> classic_opts option" where
  "classic_options [] os = Some os"
| "classic_options (a # as) os = (case classic_option a os of None \<Rightarrow> None | Some os' \<Rightarrow> classic_options as os')"

section \<open>How \<open>main\<close> ends\<close>

lemma run_phases_append:
  "run_phases (ps @ qs) =
     (case run_phases ps of
        (cs, Some e) \<Rightarrow> (cs, Some e)
      | (cs, None) \<Rightarrow> (cs @ fst (run_phases qs), snd (run_phases qs)))"
  by (induction ps rule: run_phases.induct) (auto split: prod.splits option.splits)

lemma or_exit_snd: "snd (or_exit st e cs) = (if list_all (\<lambda>c. st c = 0) (map fst cs) then None else Some e)"
  using seq_calls_ok_iff [of st cs] by (auto simp: or_exit_def list_all_iff split: seq_result.splits)

lemma ignoring_snd [simp]: "snd (ignoring st cs) = None"
  by (simp add: ignoring_def)

lemma run_phases_Cons_snd:
  "snd (run_phases (p # ps)) = (case snd p of None \<Rightarrow> snd (run_phases ps) | Some e \<Rightarrow> Some e)"
  by (cases p; cases "snd p") (auto split: prod.splits)

lemma run_phases_snd_append:
  "snd (run_phases (ps @ qs)) = (case snd (run_phases ps) of None \<Rightarrow> snd (run_phases qs) | Some e \<Rightarrow> Some e)"
  by (induction ps) (simp_all add: run_phases_Cons_snd split: option.splits)

lemma made_seq: "set (made (seq_calls st cs)) \<subseteq> fst ` set cs"
  by (induction cs) (auto simp: made_def split: seq_result.splits if_splits, blast+)

fun is_create :: "mcall \<Rightarrow> bool" where
  "is_create (CreateThread t n) = True"
| "is_create _ = False"

lemma no_create_phases:
  "list_all (\<lambda>p. list_all (\<lambda>c. \<not> is_create c) (fst p)) ps \<Longrightarrow> list_all (\<lambda>c. \<not> is_create c) (fst (run_phases ps))"
  by (induction ps rule: run_phases.induct) (auto split: prod.splits)

lemma or_exit_no_create:
  "list_all (\<lambda>c. \<not> is_create c) (map fst cs) \<Longrightarrow> list_all (\<lambda>c. \<not> is_create c) (fst (or_exit st e cs))"
  using made_seq [of st cs] by (auto simp: or_exit_def list_all_iff)

lemma prepare_no_create: "list_all (\<lambda>c. \<not> is_create c) (fst (run_phases (prepare_phases st use_pi current pm)))"
  by (rule no_create_phases)
    (auto simp: prepare_phases_def classic_set_cpu_affinity_def classic_initialize_barriers_def
      intro!: or_exit_no_create split: option.split)

definition prepare_good :: "(mcall \<Rightarrow> int) \<Rightarrow> bool \<Rightarrow> bool" where
  "prepare_good st use_pi \<longleftrightarrow> list_all (\<lambda>c. st c = 0)
     (MutexattrInit # (if use_pi then [SetProtocol] else []) @ MutexInit # map fst classic_initialize_barriers @ [GetAffinity])"

lemma set_cpu_affinity_snd:
  "snd (classic_set_cpu_affinity st current) =
     (if st GetAffinity = 0 \<and> (\<exists>i. first_cpu current = Some i \<and> st (SetAffinity i) = 0) then None else Some 1)"
  by (simp add: classic_set_cpu_affinity_def split: option.split)

lemma prepare_snd:
  "snd (run_phases (prepare_phases st use_pi current pm)) =
     (if prepare_good st use_pi \<and> (\<exists>i. first_cpu current = Some i \<and> st (SetAffinity i) = 0)
      then (if st (SetSched (pm - 1)) = 0 then None else Some 0) else Some 1)"
  by (simp add: prepare_phases_def run_phases_Cons_snd or_exit_snd set_cpu_affinity_snd prepare_good_def)

lemma create_snd:
  "snd (run_phases (create_phases st inversions i pm)) =
     (if list_all (\<lambda>c. st c = 0) ([CreateThread Low inversions, CreateThread Med inversions] @
            map fst (classic_setup_thread_attr High (pm - 2) i) @ [CreateThread High inversions])
      then None else Some 1)"
  by (simp add: create_phases_def run_phases_Cons_snd or_exit_snd or_cleanup_def)

lemma run_phases_stops:
  assumes "snd (run_phases ps) = Some e"
  shows "run_phases (ps @ qs) = run_phases ps"
  using assms by (cases "run_phases ps") (simp add: run_phases_append)

text \<open>
  The exit status 0 means one of two things. Either all the calls that are checked succeeded, the threads
  met \<open>main\<close> at both barriers and no deadlock was noticed; or everything up to the raising of \<open>main\<close>'s own
  priority succeeded and that failed, and then no thread was started: without the privilege the
  test is passed without having been made. The thread attributes of the low and medium
  thread are not among the calls that are checked.
\<close>

theorem classic_main_exit_zero:
  "let good = list_all (\<lambda>c. st c = 0); r = classic_main st use_pi inversions current pm deadlocked
   in snd r = Some 0 \<longleftrightarrow>
    good (MutexattrInit # (if use_pi then [SetProtocol] else []) @ MutexInit # map fst classic_initialize_barriers @ [GetAffinity]) \<and>
    (\<exists>i. first_cpu current = Some i \<and> good [SetAffinity i] \<and>
      (st (SetSched (pm - 1)) \<noteq> 0 \<and> list_all (\<lambda>c. \<not> is_create c) (fst r) \<or>
       good ([SetSched (pm - 1), CreateThread Low inversions, CreateThread Med inversions] @
             map fst (classic_setup_thread_attr High (pm - 2) i) @ [CreateThread High inversions]) \<and>
       st (BarrierWait ReadyBar) \<in> {0, - 1} \<and> st (BarrierWait DoneBar) \<in> {0, - 1} \<and> \<not> deadlocked))"
proof (cases "snd (run_phases (prepare_phases st use_pi current pm))")
  case None
  then obtain i where i: "first_cpu current = Some i" by (auto simp: prepare_snd split: if_splits)
  with None have "prepare_good st use_pi" "st (SetAffinity i) = 0" "st (SetSched (pm - 1)) = 0"
    by (auto simp: prepare_snd split: if_splits)
  then show ?thesis
    by (auto simp: classic_main_def run_phases_snd_append None i create_snd run_phases_Cons_snd or_cleanup_def
        prepare_good_def Let_def split: if_splits)
next
  case (Some e)
  then have r: "classic_main st use_pi inversions current pm deadlocked = run_phases (prepare_phases st use_pi current pm)"
    by (simp add: classic_main_def run_phases_stops)
  show ?thesis
    using Some prepare_no_create by (auto simp: r prepare_snd prepare_good_def Let_def split: if_splits)
qed

end
