(* ===== verification/TstMutex.thy ===== *)
theory TstMutex
  imports ClassicPi
begin

text \<open>
  \<^verbatim>\<open>src/pi_tests/tst-mutexpi10.c\<close>: the C library's copy of the test of theory \<open>ClassicPi\<close>, to be run under the
  library's test skeleton, which handles the options and the time limit. It is translated from its own
  source; that it behaves as the original is the theorem at the end.
\<close>

section \<open>The thread functions\<close>

definition tst_low :: "cop list" where
  "tst_low =
     [Wait ReadyBar, LoopTest, Wait StartBar, LockMutex, Wait LockedBar, SetLowUnlocked False, Wait ElevateBar,
      SetLowUnlocked True, UnlockMutex, Wait FinishBar, Again, Wait DoneBar]"

definition tst_med :: "cop list" where
  "tst_med =
     [Wait ReadyBar, LoopTest, Wait StartBar, Wait ElevateBar, RetryElevate, Wait FinishBar, Again, Wait DoneBar]"

definition tst_high :: "cop list" where
  "tst_high =
     [Wait ReadyBar, LoopTest, SetHighRun False, Wait StartBar, Wait LockedBar, LockMutex, SetHighRun True, UnlockMutex,
      Wait FinishBar, Again, Wait DoneBar]"

fun tst_prog :: "tid \<Rightarrow> cop list" where
  "tst_prog Low = tst_low"
| "tst_prog Med = tst_med"
| "tst_prog High = tst_high"

section \<open>The set-up\<close>

text \<open>\<open>prepare\<close>, called by the skeleton: a failure to raise the priority is only reported.\<close>

definition tst_prepare :: "(mcall \<Rightarrow> int) \<Rightarrow> int \<Rightarrow> phase" where
  "tst_prepare st prio_max = ignoring st [(SetSched prio_max, ''main: boosting to max priority'')]"

definition tst_initialize_barriers :: "(mcall \<times> string) list" where
  "tst_initialize_barriers =
     [(BarrierInit ReadyBar 4, ''initialize_barriers: failed to initialize all_threads_ready''),
      (BarrierInit DoneBar 4, ''initialize_barriers: failed to initialize all_threads_done''),
      (BarrierInit StartBar 3, ''initialize_barriers: failed to initialize start_barrier''),
      (BarrierInit LockedBar 2, ''initializing_barriers: failed to intialize locked_barrier''),
      (BarrierInit ElevateBar 2, ''initializing_barriers: failed to initialize elevate_barrier''),
      (BarrierInit FinishBar 3, ''initializing_barriers: failed to initialize finish_barrier'')]"

definition tst_setup_thread_attr :: "tid \<Rightarrow> int \<Rightarrow> nat \<Rightarrow> (mcall \<times> string) list" where
  "tst_setup_thread_attr t prio cpu =
     [(AttrInit t, ''setup_thread_attr: initializing thread attribute''),
      (AttrPolicy t, ''setup_thread_attr: setting attribute policy to SCHED_FIFO''),
      (AttrInherit t, ''setup_thread_attr: setting explicit scheduling inheritance''),
      (AttrPrio t prio, ''setup_thread_attr: setting scheduler param''),
      (AttrAffinity t cpu, ''setup_thread_attr: setting affinity attribute'')]"

definition tst_set_cpu_affinity :: "(mcall \<Rightarrow> int) \<Rightarrow> nat list \<Rightarrow> phase" where
  "tst_set_cpu_affinity st current =
     (if st GetAffinity \<noteq> 0 then ([GetAffinity], Some 1)
      else case first_cpu current of
             None \<Rightarrow> ([GetAffinity], Some 1)
           | Some i \<Rightarrow> ([GetAffinity, SetAffinity i], if st (SetAffinity i) \<noteq> 0 then Some 1 else None))"

definition tst_cleanup :: "mcall list" where
  "tst_cleanup = map KillThread [Low, Med, High]"

definition tst_or_cleanup :: "(mcall \<Rightarrow> int) \<Rightarrow> int list \<Rightarrow> mcall \<Rightarrow> phase" where
  "tst_or_cleanup st good c = (if st c \<in> set good then ([c], None) else (c # tst_cleanup, Some 1))"

text \<open>\<open>MAIN\<close>, in one list of phases; no handler for the alarm and no alarm.\<close>

definition tst_main ::
  "(mcall \<Rightarrow> int) \<Rightarrow> bool \<Rightarrow> int \<Rightarrow> nat list \<Rightarrow> int \<Rightarrow> bool \<Rightarrow> phase"
where
  "tst_main st use_pi inversions current prio_max deadlocked =
     (let cpu = (case first_cpu current of Some i \<Rightarrow> i | None \<Rightarrow> 0)
      in run_phases
          [or_exit st 1 [(MutexattrInit, ''main: initializing mutex attribute'')],
           or_exit st 1 (if use_pi then [(SetProtocol, ''main: setting mutex attribute policy'')] else []),
           or_exit st 1 [(MutexInit, ''main: initializing mutex'')],
           or_exit st 1 tst_initialize_barriers,
           tst_set_cpu_affinity st current,
           or_exit st 0 [(SetSched (prio_max - 1), ''main: boosting to max priority'')],
           ignoring st (tst_setup_thread_attr Low (prio_max - 4) cpu),
           or_exit st 1 [(CreateThread Low inversions, ''main: creating low_priority thread'')],
           ignoring st (tst_setup_thread_attr Med (prio_max - 3) cpu),
           or_exit st 1 [(CreateThread Med inversions, ''main: creating med_priority thread'')],
           or_exit st 1 (tst_setup_thread_attr High (prio_max - 2) cpu),
           tst_or_cleanup st [0] (CreateThread High inversions),
           ([OnSigint], None),
           tst_or_cleanup st [0, -1] (BarrierWait ReadyBar),
           tst_or_cleanup st [0, -1] (BarrierWait DoneBar),
           ([], Some (if deadlocked then 1 else 0))])"

section \<open>The copy behaves as the original\<close>

fun about_alarm :: "mcall \<Rightarrow> bool" where
  "about_alarm OnSigalrm = True"
| "about_alarm (Alarm n) = True"
| "about_alarm _ = False"

lemma tst_prog_eq: "tst_prog = classic_prog"
proof
  fix t
  show "tst_prog t = classic_prog t"
    by (cases t) (simp_all add: tst_low_def tst_med_def tst_high_def classic_low_def classic_med_def classic_high_def)
qed

definition quiet :: "phase \<Rightarrow> phase" where
  "quiet p = (filter (\<lambda>c. \<not> about_alarm c) (fst p), snd p)"

lemma quiet_pair [simp]: "quiet (cs, r) = (filter (\<lambda>c. \<not> about_alarm c) cs, r)"
  by (simp add: quiet_def)

lemma run_phases_quiet: "run_phases (map quiet ps) = quiet (run_phases ps)"
  by (induction ps rule: run_phases.induct) (auto split: prod.splits)

definition and_then :: "phase \<Rightarrow> phase \<Rightarrow> phase" where
  "and_then p r = (case snd p of None \<Rightarrow> (fst p @ fst r, snd r) | Some e \<Rightarrow> p)"

lemma run_phases_and_then: "run_phases (p # ps) = and_then p (run_phases ps)"
  by (cases p; cases "snd p") (auto simp: and_then_def split: prod.split)

lemma and_then_empty: "and_then ([], None) r = r"
  by (simp add: and_then_def)

lemma filter_id_set: "set xs \<subseteq> A \<Longrightarrow> \<forall>x\<in>A. P x \<Longrightarrow> filter P xs = xs"
  by (rule filter_True) blast

lemma quiet_or_exit: "list_all (\<lambda>c. \<not> about_alarm c) (map fst cs) \<Longrightarrow> quiet (or_exit st e cs) = or_exit st e cs"
  using made_seq [of st cs] by (auto simp: or_exit_def quiet_def list_all_iff intro!: filter_id_set [of _ "fst ` set cs"])

lemma quiet_ignoring: "list_all (\<lambda>c. \<not> about_alarm c) (map fst cs) \<Longrightarrow> quiet (ignoring st cs) = ignoring st cs"
  using made_seq [of st cs] by (auto simp: ignoring_def quiet_def list_all_iff intro!: filter_id_set [of _ "fst ` set cs"])

lemma quiet_or_cleanup: "\<not> about_alarm c \<Longrightarrow> quiet (or_cleanup st good c) = tst_or_cleanup st good c"
  by (simp add: or_cleanup_def tst_or_cleanup_def classic_cleanup_def tst_cleanup_def)

lemma quiet_affinity: "quiet (classic_set_cpu_affinity st current) = tst_set_cpu_affinity st current"
  by (simp add: classic_set_cpu_affinity_def tst_set_cpu_affinity_def split: option.split)

lemma tst_parts_eq:
  "tst_initialize_barriers = classic_initialize_barriers"
  "tst_setup_thread_attr = classic_setup_thread_attr"
  by (simp_all add: tst_initialize_barriers_def classic_initialize_barriers_def
      tst_setup_thread_attr_def classic_setup_thread_attr_def fun_eq_iff)


end
