(* ===== verification/PipStress.thy ===== *)
theory PipStress
  imports PiGroup
begin

text \<open>
  \<^verbatim>\<open>src/pi_tests/pip_stress.c\<close>: three processes of rising priority on one CPU share a mutex with priority
  inheritance and a record of what has happened, from which the high one tells at the end whether a
  priority inversion took place. A process is the list of its operations (the two forks have happened);
  \<open>pip_step\<close> lets any process go on, or with \<open>prios\<close> only one of the highest priority. The list of what
  was noted, in order, is kept beside the state (\<open>p_hist\<close>) and read by no operation.
\<close>

section \<open>The processes\<close>

datatype pip_event = LowOwns | HighStarted | MedStarted | HighOwns

datatype pip_op =
    SetPrio nat      \<comment> \<open>\<open>set_rt_prio (0, prio_min + n, policy)\<close>\<close>
  | LockR | UnlockR  \<comment> \<open>the mutex \<open>resource\<close>\<close>
  | LockS | UnlockS  \<comment> \<open>the mutex \<open>statep->mutex\<close>\<close>
  | Note pip_event   \<comment> \<open>the assignments under \<open>statep->mutex\<close>\<close>
  | USleep | Asleep  \<comment> \<open>\<open>usleep\<close>: begins, and is left when the time is over\<close>
  | Spin             \<comment> \<open>\<open>for (;;);\<close>\<close>
  | KillMed | WaitMed | WaitHigh
  | Report | Exited

definition pip_low :: "pip_op list" where
  "pip_low = [LockR, LockS, Note LowOwns, UnlockS, USleep, Asleep, UnlockR, WaitHigh, Exited]"

definition pip_medium :: "pip_op list" where
  "pip_medium = [SetPrio 1, LockS, Note MedStarted, UnlockS, Spin]"

definition pip_high :: "pip_op list" where
  "pip_high =
     [SetPrio 2, LockS, Note HighStarted, UnlockS, LockR, LockS, Note HighOwns, UnlockS, UnlockR,
      KillMed, WaitMed, LockS, Report, UnlockS, Exited]"

fun pip_prog :: "tid \<Rightarrow> pip_op list" where
  "pip_prog Low = pip_low"
| "pip_prog Med = pip_medium"
| "pip_prog High = pip_high"

text \<open>\<open>struct State\<close>, the mutexes' owners, the places of the processes and the priorities they have set.\<close>

record pip =
  low_owns_resource :: bool
  high_started :: bool
  high_owns_resource :: bool
  medium_started :: bool
  inversion :: bool
  r_owner :: "tid option"
  s_owner :: "tid option"
  p_pc :: "tid \<Rightarrow> nat"
  p_prio :: "tid \<Rightarrow> nat"
  med_killed :: bool
  verdict :: "bool option"
  p_hist :: "pip_event list"

definition init_state :: pip where
  "init_state =
     \<lparr>low_owns_resource = False, high_started = False, high_owns_resource = False, medium_started = False,
      inversion = True, r_owner = None, s_owner = None, p_pc = (\<lambda>_. 0), p_prio = (\<lambda>_. 0), med_killed = False,
      verdict = None, p_hist = []\<rparr>"

fun take_note :: "pip_event \<Rightarrow> pip \<Rightarrow> pip" where
  "take_note LowOwns s =
     (let s1 = s\<lparr>low_owns_resource := True\<rparr>
      in if high_owns_resource s1 \<or> medium_started s1 then s1\<lparr>inversion := False\<rparr> else s1)"
| "take_note MedStarted s =
     (let s1 = s\<lparr>medium_started := True\<rparr>
      in if \<not> high_started s1 then s1\<lparr>inversion := False\<rparr> else s1)"
| "take_note HighStarted s = s\<lparr>high_started := True\<rparr>"
| "take_note HighOwns s =
     (let s1 = s\<lparr>high_owns_resource := True\<rparr>
      in if \<not> low_owns_resource s1 \<or> \<not> medium_started s1 then s1\<lparr>inversion := False\<rparr> else s1)"

definition pip_at :: "pip \<Rightarrow> tid \<Rightarrow> pip_op" where
  "pip_at s t = pip_prog t ! p_pc s t"

definition runnable :: "pip \<Rightarrow> tid \<Rightarrow> bool" where
  "runnable s t \<longleftrightarrow> \<not> (t = Med \<and> med_killed s) \<and>
     (case pip_at s t of
        LockR \<Rightarrow> r_owner s = None
      | LockS \<Rightarrow> s_owner s = None
      | Asleep \<Rightarrow> False
      | WaitMed \<Rightarrow> med_killed s
      | WaitHigh \<Rightarrow> pip_at s High = Exited
      | Exited \<Rightarrow> False
      | _ \<Rightarrow> True)"

definition move :: "tid \<Rightarrow> pip \<Rightarrow> pip" where
  "move t s = s\<lparr>p_pc := (p_pc s)(t := Suc (p_pc s t))\<rparr>"

definition pip_exec :: "tid \<Rightarrow> pip \<Rightarrow> pip" where
  "pip_exec t s =
     (case pip_at s t of
        SetPrio n \<Rightarrow> (move t s)\<lparr>p_prio := (p_prio s)(t := n)\<rparr>
      | LockR \<Rightarrow> (move t s)\<lparr>r_owner := Some t\<rparr>
      | UnlockR \<Rightarrow> (move t s)\<lparr>r_owner := None\<rparr>
      | LockS \<Rightarrow> (move t s)\<lparr>s_owner := Some t\<rparr>
      | UnlockS \<Rightarrow> (move t s)\<lparr>s_owner := None\<rparr>
      | Note e \<Rightarrow> (take_note e (move t s))\<lparr>p_hist := p_hist s @ [e]\<rparr>
      | Spin \<Rightarrow> s
      | KillMed \<Rightarrow> (move t s)\<lparr>med_killed := True\<rparr>
      | Report \<Rightarrow> (move t s)\<lparr>verdict := Some (inversion s)\<rparr>
      | _ \<Rightarrow> move t s)"

text \<open>The owner of the resource has at least the priority of those that wait for it.\<close>

definition prio_of :: "pip \<Rightarrow> tid \<Rightarrow> nat" where
  "prio_of s t =
     (if r_owner s = Some t
      then fold max (map (p_prio s) (filter (\<lambda>u. pip_at s u = LockR) [Low, Med, High])) (p_prio s t)
      else p_prio s t)"

definition foremost :: "pip \<Rightarrow> tid \<Rightarrow> bool" where
  "foremost s t \<longleftrightarrow> list_all (\<lambda>u. runnable s u \<longrightarrow> prio_of s u \<le> prio_of s t) [Low, Med, High]"

inductive pip_step :: "bool \<Rightarrow> pip \<Rightarrow> pip \<Rightarrow> bool" for prios where
  pip_run: "runnable s t \<Longrightarrow> prios \<longrightarrow> foremost s t \<Longrightarrow> pip_step prios s (pip_exec t s)"
| pip_wake: "pip_at s t = Asleep \<Longrightarrow> pip_step prios s (move t s)"

definition pip_start :: "pip \<Rightarrow> bool" where
  "pip_start s \<longleftrightarrow> s = init_state"

section \<open>The invariant\<close>

text \<open>The orders of events so far in which nothing has disproved an inversion.\<close>

definition pip_good :: "pip_event list list" where
  "pip_good =
     [[], [LowOwns], [HighStarted], [LowOwns, HighStarted], [HighStarted, LowOwns], [HighStarted, MedStarted],
      [LowOwns, HighStarted, MedStarted], [HighStarted, LowOwns, MedStarted],
      [LowOwns, HighStarted, MedStarted, HighOwns], [HighStarted, LowOwns, MedStarted, HighOwns]]"

definition holds_s :: "pip \<Rightarrow> tid \<Rightarrow> bool" where
  "holds_s s t \<longleftrightarrow> p_pc s t \<in> (case t of Low \<Rightarrow> {2, 3} | Med \<Rightarrow> {2, 3} | High \<Rightarrow> {2, 3, 6, 7, 12, 13})"

definition holds_r :: "pip \<Rightarrow> tid \<Rightarrow> bool" where
  "holds_r s t \<longleftrightarrow> p_pc s t \<in> (case t of Low \<Rightarrow> {1, 2, 3, 4, 5, 6} | Med \<Rightarrow> {} | High \<Rightarrow> {5, 6, 7, 8})"

definition pip_places :: "pip \<Rightarrow> bool" where
  "pip_places s \<longleftrightarrow> p_pc s Low \<le> 8 \<and> p_pc s Med \<le> 4 \<and> p_pc s High \<le> 14"

definition pip_owners :: "pip \<Rightarrow> bool" where
  "pip_owners s \<longleftrightarrow> (\<forall>t. holds_s s t \<longleftrightarrow> s_owner s = Some t) \<and> (\<forall>t. holds_r s t \<longleftrightarrow> r_owner s = Some t)"

definition pip_marks :: "pip \<Rightarrow> bool" where
  "pip_marks s \<longleftrightarrow>
     (low_owns_resource s \<longleftrightarrow> 3 \<le> p_pc s Low) \<and> (medium_started s \<longleftrightarrow> 3 \<le> p_pc s Med) \<and>
     (high_started s \<longleftrightarrow> 3 \<le> p_pc s High) \<and> (high_owns_resource s \<longleftrightarrow> 7 \<le> p_pc s High) \<and>
     (med_killed s \<longleftrightarrow> 10 \<le> p_pc s High)"

definition pip_history :: "pip \<Rightarrow> bool" where
  "pip_history s \<longleftrightarrow>
     (low_owns_resource s \<longleftrightarrow> LowOwns \<in> set (p_hist s)) \<and> (medium_started s \<longleftrightarrow> MedStarted \<in> set (p_hist s)) \<and>
     (high_started s \<longleftrightarrow> HighStarted \<in> set (p_hist s)) \<and> (high_owns_resource s \<longleftrightarrow> HighOwns \<in> set (p_hist s)) \<and>
     (inversion s \<longleftrightarrow> p_hist s \<in> set pip_good)"

definition pip_reported :: "pip \<Rightarrow> bool" where
  "pip_reported s \<longleftrightarrow> verdict s = (if 13 \<le> p_pc s High then Some (inversion s) else None)"

definition pip_values :: "pip \<Rightarrow> bool" where
  "pip_values s \<longleftrightarrow> p_prio s Low = 0 \<and> p_prio s Med = (if 1 \<le> p_pc s Med then 1 else 0) \<and>
     p_prio s High = (if 1 \<le> p_pc s High then 2 else 0)"

definition pip_prios :: "bool \<Rightarrow> pip \<Rightarrow> bool" where
  "pip_prios prios s \<longleftrightarrow>
     pip_values s \<and> (prios \<and> 7 \<le> p_pc s High \<longrightarrow> \<not> holds_s s Med)"

definition pip_inv :: "bool \<Rightarrow> pip \<Rightarrow> bool" where
  "pip_inv prios s \<longleftrightarrow> pip_places s \<and> pip_owners s \<and> pip_marks s \<and> pip_history s \<and> pip_reported s \<and> pip_prios prios s"

lemma low_ops [simp]:
  "pip_low ! 0 = LockR" "pip_low ! 1 = LockS" "pip_low ! 2 = Note LowOwns" "pip_low ! 3 = UnlockS" "pip_low ! 4 = USleep"
  "pip_low ! 5 = Asleep" "pip_low ! 6 = UnlockR" "pip_low ! 7 = WaitHigh" "pip_low ! 8 = Exited" "pip_low ! Suc 0 = LockS"
  by (simp_all add: pip_low_def)

lemma medium_ops [simp]:
  "pip_medium ! 0 = SetPrio 1" "pip_medium ! 1 = LockS" "pip_medium ! 2 = Note MedStarted" "pip_medium ! 3 = UnlockS"
  "pip_medium ! 4 = Spin" "pip_medium ! Suc 0 = LockS"
  by (simp_all add: pip_medium_def)

lemma high_ops [simp]:
  "pip_high ! 0 = SetPrio 2" "pip_high ! 1 = LockS" "pip_high ! 2 = Note HighStarted" "pip_high ! 3 = UnlockS"
  "pip_high ! 4 = LockR" "pip_high ! 5 = LockS" "pip_high ! 6 = Note HighOwns" "pip_high ! 7 = UnlockS"
  "pip_high ! 8 = UnlockR" "pip_high ! 9 = KillMed" "pip_high ! 10 = WaitMed" "pip_high ! 11 = LockS"
  "pip_high ! 12 = Report" "pip_high ! 13 = UnlockS" "pip_high ! 14 = Exited" "pip_high ! Suc 0 = LockS"
  by (simp_all add: pip_high_def)

lemma le8_cases: "(n :: nat) \<le> 8 \<Longrightarrow> n \<in> {0, 1, 2, 3, 4, 5, 6, 7, 8}" by auto
lemma le4_cases: "(n :: nat) \<le> 4 \<Longrightarrow> n \<in> {0, 1, 2, 3, 4}" by auto
lemma le14_cases: "(n :: nat) \<le> 14 \<Longrightarrow> n \<in> {0, 1, 2, 3, 4, 5, 6, 7, 8, 9, 10, 11, 12, 13, 14}"
  by (cases "n \<le> 8") (auto dest: le8_cases)

lemma start_inv: "pip_inv prios init_state"
  by (simp add: pip_inv_def pip_places_def pip_owners_def pip_marks_def pip_history_def pip_reported_def pip_prios_def pip_values_def init_state_def all_tid
      holds_s_def holds_r_def pip_good_def)

lemmas pip_eval = runnable_def pip_exec_def pip_at_def move_def Let_def

text \<open>The places of a process, to be split into cases.\<close>

lemma pip_place:
  "pip_inv prios s \<Longrightarrow> p_pc s t \<in> (case t of Low \<Rightarrow> {0, 1, 2, 3, 4, 5, 6, 7, 8} | Med \<Rightarrow> {0, 1, 2, 3, 4}
     | High \<Rightarrow> {0, 1, 2, 3, 4, 5, 6, 7, 8, 9, 10, 11, 12, 13, 14})"
  by (cases t; simp only: tid.case; rule le8_cases le4_cases le14_cases; simp add: pip_inv_def pip_places_def)

lemma owners_keep:
  assumes "pip_inv prios s" and "runnable s t"
  shows "pip_owners (pip_exec t s)"
proof -
  have "pip_owners s" using assms(1) by (simp add: pip_inv_def)
  then show ?thesis
    using pip_place [OF assms(1), of t] assms(2)
    by (cases t; simp only: tid.case, elim insertE emptyE) (auto simp: pip_owners_def all_tid holds_s_def holds_r_def pip_eval)
qed

lemma marks_keep:
  assumes "pip_inv prios s" and "runnable s t"
  shows "pip_marks (pip_exec t s)"
proof -
  have "pip_marks s" using assms(1) by (simp add: pip_inv_def)
  then show ?thesis
    using pip_place [OF assms(1), of t] assms(2)
    by (cases t; simp only: tid.case, elim insertE emptyE) (auto simp: pip_marks_def pip_eval)
qed

lemma places_keep:
  assumes "pip_inv prios s" and "runnable s t"
  shows "pip_places (pip_exec t s)"
proof -
  have "pip_places s" using assms(1) by (simp add: pip_inv_def)
  then show ?thesis
    using pip_place [OF assms(1), of t] assms(2)
    by (cases t; simp only: tid.case, elim insertE emptyE) (auto simp: pip_places_def pip_eval)
qed

lemma good_low: "LowOwns \<notin> set es \<Longrightarrow> es @ [LowOwns] \<in> set pip_good \<longleftrightarrow> es \<in> set pip_good \<and> HighOwns \<notin> set es \<and> MedStarted \<notin> set es"
  by (auto simp: pip_good_def append_eq_Cons_conv)
lemma good_med: "MedStarted \<notin> set es \<Longrightarrow> es @ [MedStarted] \<in> set pip_good \<longleftrightarrow> es \<in> set pip_good \<and> HighStarted \<in> set es"
  by (auto simp: pip_good_def append_eq_Cons_conv)
lemma good_started: "HighStarted \<notin> set es \<Longrightarrow> es @ [HighStarted] \<in> set pip_good \<longleftrightarrow> es \<in> set pip_good"
  by (auto simp: pip_good_def append_eq_Cons_conv)
lemma good_owns: "HighOwns \<notin> set es \<Longrightarrow> es @ [HighOwns] \<in> set pip_good \<longleftrightarrow> es \<in> set pip_good \<and> LowOwns \<in> set es \<and> MedStarted \<in> set es"
  by (auto simp: pip_good_def append_eq_Cons_conv)


lemmas good_snoc = good_low good_med good_started good_owns

lemma history_keep:
  assumes "pip_inv prios s" and "runnable s t"
  shows "pip_history (pip_exec t s)"
proof -
  have "pip_marks s" "pip_history s" using assms(1) by (simp_all add: pip_inv_def)
  then show ?thesis
    using pip_place [OF assms(1), of t] assms(2)
    by (cases t; simp only: tid.case, elim insertE emptyE)
      (auto simp: pip_marks_def pip_history_def pip_eval good_snoc)
qed

lemma good_late: "es \<in> set pip_good \<Longrightarrow> HighOwns \<in> set es \<Longrightarrow> LowOwns \<in> set es \<and> MedStarted \<in> set es"
  by (auto simp: pip_good_def)

lemma reported_keep:
  assumes "pip_inv prios s" and "runnable s t"
  shows "pip_reported (pip_exec t s)"
proof -
  have "pip_marks s" "pip_history s" "pip_reported s" using assms(1) by (simp_all add: pip_inv_def)
  then show ?thesis
    using pip_place [OF assms(1), of t] assms(2)
    by (cases t; simp only: tid.case, elim insertE emptyE)
      (auto simp: pip_marks_def pip_history_def pip_reported_def pip_eval dest: good_late)
qed

lemma pip_fold_max_ge: "(a :: nat) \<le> fold max xs a"
  by (induction xs arbitrary: a) (auto intro: order_trans [OF max.cobounded2])

lemma prio_ge: "p_prio s t \<le> prio_of s t"
  by (simp add: prio_of_def pip_fold_max_ge)

lemma high_blocks_others:
  assumes "pip_inv prios s" and "p_pc s High \<in> {7, 8, 9}" and "prio_of s High \<le> prio_of s Med"
  shows False
proof -
  have "r_owner s \<noteq> Some Med" using assms(1) by (auto simp: pip_inv_def pip_owners_def all_tid holds_r_def)
  then have "prio_of s Med \<le> 1" using assms(1) by (auto simp: prio_of_def pip_inv_def pip_prios_def pip_values_def)
  moreover have "p_prio s High = 2" using assms(1,2) by (auto simp: pip_inv_def pip_prios_def pip_values_def)
  ultimately show False using prio_ge [of s High] assms(3) by simp
qed

lemma high_goes_on: "p_pc s High \<in> {7, 8, 9} \<Longrightarrow> runnable s High"
  by (auto simp: runnable_def pip_at_def)

lemma med_not_late:
  assumes "pip_inv True s" and "runnable s Med" and "foremost s Med"
  shows "p_pc s High < 7"
proof (rule ccontr)
  assume "\<not> p_pc s High < 7"
  moreover have "\<not> med_killed s" using assms(2) by (simp add: runnable_def)
  ultimately have "p_pc s High \<in> {7, 8, 9}" using assms(1) by (auto simp: pip_inv_def pip_marks_def)
  then show False using high_blocks_others [OF assms(1)] high_goes_on [of s] assms(3) by (auto simp: foremost_def)
qed

lemma prio_values_keep:
  assumes "pip_inv prios s" and "runnable s t"
  shows "pip_values (pip_exec t s)"
proof -
  have "pip_values s" using assms(1) by (simp add: pip_inv_def pip_prios_def)
  then show ?thesis
    using pip_place [OF assms(1), of t] assms(2)
    by (cases t; simp only: tid.case, elim insertE emptyE) (auto simp: pip_values_def pip_eval)
qed

lemma take_note_pc [simp]: "p_pc (take_note e s) = p_pc s"
  by (cases e) (simp_all add: Let_def)

lemma exec_other_pc: "t \<noteq> u \<Longrightarrow> p_pc (pip_exec t s) u = p_pc s u"
  by (cases "pip_at s t") (simp_all add: pip_exec_def move_def)

lemma prios_keep:
  assumes "pip_inv prios s" and "runnable s t" and "prios \<longrightarrow> foremost s t"
  shows "pip_prios prios (pip_exec t s)"
proof -
  have "\<not> holds_s (pip_exec t s) Med" if "prios" and late: "7 \<le> p_pc (pip_exec t s) High"
  proof (cases "t = Med")
    case True
    then have "p_pc s High < 7" using assms that(1) by (auto intro: med_not_late)
    then show ?thesis using late True exec_other_pc [of Med High s] by simp
  next
    case False
    have "\<not> holds_s s Med"
    proof (cases "7 \<le> p_pc s High")
      case True
      then show ?thesis using assms(1) that(1) by (simp add: pip_inv_def pip_prios_def)
    next
      case early: False
      then have "t = High" using late exec_other_pc [of t High s] by (cases "t = High") auto
      then have "p_pc s High = 6"
        using late early assms(2) pip_place [OF assms(1), of High]
        by (simp only: tid.case, elim insertE emptyE) (auto simp: pip_eval)
      then have "holds_s s High" by (simp add: holds_s_def)
      then show ?thesis using assms(1) by (auto simp: pip_inv_def pip_owners_def all_tid)
    qed
    then show ?thesis using False exec_other_pc [of t Med s] by (simp add: holds_s_def)
  qed
  then show ?thesis using prio_values_keep [OF assms(1,2)] by (simp add: pip_prios_def)
qed

lemma asleep_place:
  assumes "pip_inv prios s" and "pip_at s t = Asleep"
  shows "t = Low \<and> p_pc s Low = 5"
  using pip_place [OF assms(1), of t] assms(2)
  by (cases t; simp only: tid.case, elim insertE emptyE) (auto simp: pip_at_def)

lemma wake_keep:
  assumes "pip_inv prios s" and "pip_at s t = Asleep"
  shows "pip_inv prios (move t s)"
proof -
  note t = asleep_place [OF assms]
  have "pip_places s" "pip_owners s" "pip_marks s" "pip_history s" "pip_reported s" "pip_prios prios s"
    using assms(1) by (simp_all add: pip_inv_def)
  note i = this
  show ?thesis unfolding pip_inv_def
  proof (intro conjI)
    show "pip_places (move t s)" using i(1) t by (simp add: pip_places_def move_def)
    show "pip_owners (move t s)" using i(2) t by (simp add: pip_owners_def move_def holds_s_def holds_r_def all_tid)
    show "pip_marks (move t s)" using i(3) t by (simp add: pip_marks_def move_def)
    show "pip_history (move t s)" using i(4) by (simp add: pip_history_def move_def)
    show "pip_reported (move t s)" using i(5) t by (simp add: pip_reported_def move_def)
    show "pip_prios prios (move t s)" using i(6) t by (simp add: pip_prios_def pip_values_def holds_s_def move_def)
  qed
qed

interpretation pip: machine pip_start "pip_step prios" "pip_inv prios" for prios
proof
  show "pip_inv prios s" if "pip_start s" for s
    using that start_inv by (simp add: pip_start_def)
  show "pip_inv prios t" if "pip_inv prios s" "pip_step prios s t" for s t
    using that(2,1)
    by (cases rule: pip_step.cases)
      (simp_all add: wake_keep pip_inv_def [of prios "pip_exec _ s"] places_keep owners_keep marks_keep
        history_keep reported_keep prios_keep)
qed

section \<open>What the report says\<close>

text \<open>Runs given by who goes on; \<open>None\<close> is the end of the sleep.\<close>

fun pip_go :: "bool \<Rightarrow> tid option list \<Rightarrow> pip \<Rightarrow> pip option" where
  "pip_go prios [] s = Some s"
| "pip_go prios (None # ts) s = (if pip_at s Low = Asleep then pip_go prios ts (move Low s) else None)"
| "pip_go prios (Some t # ts) s =
     (if runnable s t \<and> (prios \<longrightarrow> foremost s t)
      then pip_go prios ts (pip_exec t s) else None)"

lemma pip_go_reach: "reach pip_start (pip_step prios) s \<Longrightarrow> pip_go prios ts s = Some s' \<Longrightarrow> reach pip_start (pip_step prios) s'"
  by (induction prios ts s rule: pip_go.induct) (auto split: if_splits intro: reach_step pip_run pip_wake)

lemma init_reach: "reach pip_start (pip_step prios) init_state"
  by (rule reach_init) (simp add: pip_start_def)

lemma good_full: "es \<in> set pip_good \<and> HighOwns \<in> set es \<longleftrightarrow>
    es \<in> {[LowOwns, HighStarted, MedStarted, HighOwns], [HighStarted, LowOwns, MedStarted, HighOwns]}"
  by (auto simp: pip_good_def)

text \<open>
  C18: however the three processes are interleaved, the report of the high one says that an inversion took
  place exactly when the low process had noted that it holds the resource and the high one that it has
  started, in either order, before the medium one noted its start, and the high one got the resource only
  after that.
\<close>

theorem pip_verdict:
  assumes "reach pip_start (pip_step prios) s"
  shows "verdict s \<in> {None, Some (p_hist s \<in>
    {[LowOwns, HighStarted, MedStarted, HighOwns], [HighStarted, LowOwns, MedStarted, HighOwns]})}"
proof -
  have "pip_inv prios s" using assms by (rule pip.reach_inv)
  then have "pip_marks s" "pip_history s" "pip_reported s" by (simp_all add: pip_inv_def)
  then show ?thesis
    unfolding good_full [symmetric] by (auto simp: pip_marks_def pip_history_def pip_reported_def)
qed

definition ex_pip :: "tid option list" where
  "ex_pip = replicate 5 (Some Low) @ replicate 4 (Some High) @ replicate 4 (Some Med) @ [None, Some Low] @ replicate 9 (Some High)"

definition ex_pip_end :: pip where
  "ex_pip_end = the (pip_go True ex_pip init_state)"

lemma ex_pip_go: "pip_go True ex_pip init_state = Some ex_pip_end"
proof -
  have "pip_go True ex_pip init_state \<noteq> None" by code_simp
  then show ?thesis by (auto simp: ex_pip_end_def)
qed

theorem pip_verdict_witness:
  "verdict ex_pip_end \<in> {None, Some (p_hist ex_pip_end \<in>
    {[LowOwns, HighStarted, MedStarted, HighOwns], [HighStarted, LowOwns, MedStarted, HighOwns]})} \<and>
   verdict ex_pip_end = Some True"
proof
  show "verdict ex_pip_end = Some True" by code_simp
qed (rule pip_verdict [OF pip_go_reach [OF init_reach ex_pip_go]])

section \<open>The kill and the mutex\<close>

text \<open>
  When the CPU always goes to a process of the highest priority, the medium process is never killed
  while it holds the mutex of the record, so that the high one gets it for its report.
\<close>

theorem pip_killed_without_mutex:
  assumes "reach pip_start (pip_step True) s"
  shows "\<not> (med_killed s \<and> s_owner s = Some Med)"
proof -
  have i: "pip_inv True s" using assms by (rule pip.reach_inv)
  then show ?thesis
    by (auto simp: pip_inv_def pip_marks_def pip_prios_def pip_owners_def all_tid)
qed

theorem pip_killed_without_mutex_witness:
  "\<not> (med_killed ex_pip_end \<and> s_owner ex_pip_end = Some Med) \<and> med_killed ex_pip_end"
proof
  show "med_killed ex_pip_end" by code_simp
qed (rule pip_killed_without_mutex [OF pip_go_reach [OF init_reach ex_pip_go]])

definition pip_stuck :: "pip \<Rightarrow> bool" where
  "pip_stuck s \<longleftrightarrow> pip_inv False s \<and> med_killed s \<and> s_owner s = Some Med \<and> verdict s = None"

lemma stuck_step:
  assumes "pip_stuck s" and "pip_step False s s'"
  shows "pip_stuck s'"
proof -
  have i: "pip_inv False s" and i': "pip_inv False s'"
    using assms pip.step_inv by (auto simp: pip_stuck_def)
  have o: "pip_owners s" and m: "pip_marks s" and r: "pip_reported s" using i by (simp_all add: pip_inv_def)
  from assms(2) show ?thesis
  proof cases
    case (pip_run t)
    then consider "t = Low" | "t = High" using assms(1) by (cases t) (auto simp: pip_stuck_def runnable_def)
    then show ?thesis
    proof cases
      case 1
      then show ?thesis
        using pip_run pip_place [OF i, of Low] o r assms(1) i'
        by (simp only: tid.case, elim insertE emptyE)
          (auto simp: pip_stuck_def pip_owners_def pip_reported_def all_tid holds_s_def pip_eval)
    next
      case 2
      then show ?thesis
        using pip_run pip_place [OF i, of High] o m r assms(1) i'
        by (simp only: tid.case, elim insertE emptyE)
          (auto simp: pip_stuck_def pip_owners_def pip_marks_def pip_reported_def all_tid holds_s_def pip_eval)
    qed
  next
    case (pip_wake t)
    then show ?thesis using i' assms(1) by (simp add: pip_stuck_def move_def)
  qed
qed

lemma stuck_for_ever: "(pip_step False)\<^sup>*\<^sup>* s s' \<Longrightarrow> pip_stuck s \<Longrightarrow> pip_stuck s'"
  by (induction rule: rtranclp_induct) (auto intro: stuck_step)

definition ex_kill :: "tid option list" where
  "ex_kill = replicate 9 (Some High) @ replicate 2 (Some Med) @ replicate 2 (Some High)"

definition ex_kill_end :: pip where
  "ex_kill_end = the (pip_go False ex_kill init_state)"

lemma ex_kill_go: "pip_go False ex_kill init_state = Some ex_kill_end"
proof -
  have "pip_go False ex_kill init_state \<noteq> None" by code_simp
  then show ?thesis by (auto simp: ex_kill_end_def)
qed

lemma ex_kill_stuck: "pip_stuck ex_kill_end"
proof -
  have "pip_inv False ex_kill_end" by (rule pip.reach_inv [OF pip_go_reach [OF init_reach ex_kill_go]])
  moreover have "med_killed ex_kill_end \<and> s_owner ex_kill_end = Some Med \<and> verdict ex_kill_end = None" by code_simp
  ultimately show ?thesis by (simp add: pip_stuck_def)
qed

text \<open>
  The program rests on the priorities being set, but \<open>set_rt_prio\<close> only prints a message when that fails.
  Without them the high process can kill the medium one inside its critical section: the mutex
  of the record then stays locked for ever, and no continuation of that run comes to a report.
\<close>

theorem pip_hangs_without_priorities:
  "\<exists>s. reach pip_start (pip_step False) s \<and> med_killed s \<and> s_owner s = Some Med \<and>
     {s'. (pip_step False)\<^sup>*\<^sup>* s s' \<and> verdict s' \<noteq> None} = {}"
proof (intro exI conjI)
  show "reach pip_start (pip_step False) ex_kill_end" by (rule pip_go_reach [OF init_reach ex_kill_go])
  show "med_killed ex_kill_end" "s_owner ex_kill_end = Some Med" using ex_kill_stuck by (simp_all add: pip_stuck_def)
  show "{s'. (pip_step False)\<^sup>*\<^sup>* ex_kill_end s' \<and> verdict s' \<noteq> None} = {}"
    using stuck_for_ever [OF _ ex_kill_stuck] by (auto simp: pip_stuck_def)
qed

section \<open>The set-up\<close>

text \<open>
  The calls in the order of \<open>main\<close>, the status the program exits with when one fails; \<open>errno\<close> is what
  \<open>err_exit\<close> is given. \<open>set_rt_prio\<close> is not checked.
\<close>

datatype pip_call =
    CheckPrivs | MmapPage | SharedAvailable bool | AttrInit bool | AttrShared bool | AttrProtocol bool | MutexInit bool
  | SetRtPrio nat | Affinity0 | Fork1 | Fork2

text \<open>\<open>pi\<close>: the protocol is \<open>PTHREAD_PRIO_INHERIT\<close>, as for the resource, or \<open>PTHREAD_PRIO_NONE\<close>.\<close>

definition init_shared_pthread_mutex :: "bool \<Rightarrow> pip_call list" where
  "init_shared_pthread_mutex pi = [SharedAvailable pi, AttrInit pi, AttrShared pi, AttrProtocol pi, MutexInit pi]"

definition pip_calls :: "pip_call list" where
  "pip_calls =
     [CheckPrivs, MmapPage] @ init_shared_pthread_mutex True @ init_shared_pthread_mutex False @
     [SetRtPrio 0, Affinity0, Fork1, Fork2]"

definition pip_exit :: "(pip_call \<Rightarrow> int) \<Rightarrow> (pip_call \<Rightarrow> int) \<Rightarrow> pip_call \<Rightarrow> int" where
  "pip_exit st errno c =
     (case c of
        CheckPrivs \<Rightarrow> -1
      | MmapPage \<Rightarrow> -1
      | SharedAvailable pi \<Rightarrow> errno c
      | Affinity0 \<Rightarrow> errno c
      | Fork1 \<Rightarrow> 1
      | Fork2 \<Rightarrow> -1
      | _ \<Rightarrow> st c)"

fun pip_checked :: "pip_call \<Rightarrow> bool" where
  "pip_checked (SetRtPrio n) = False"
| "pip_checked _ = True"

definition pip_main :: "(pip_call \<Rightarrow> int) \<Rightarrow> (pip_call \<Rightarrow> int) \<Rightarrow> pip_call list \<times> int option" where
  "pip_main st errno =
     (case seq_calls (\<lambda>c. if pip_checked c then st c else 0) (map (\<lambda>c. (c, c)) pip_calls) of
        SeqOk cs \<Rightarrow> (cs, None)
      | SeqFail cs c \<Rightarrow> (cs, Some (pip_exit st errno c)))"

text \<open>
  The processes start exactly when all checked calls succeeded, whether or not the priority could be set.
\<close>

lemma pip_main_starts:
  "snd (pip_main st errno) = None \<longleftrightarrow> list_all (\<lambda>c. pip_checked c \<longrightarrow> st c = 0) pip_calls"
  using seq_calls_ok_iff [of "\<lambda>c. if pip_checked c then st c else 0" "map (\<lambda>c. (c, c)) pip_calls"]
  by (auto simp: pip_main_def list_all_iff split: seq_result.splits)

end
