(* ===== verification/RtGetopt.thy ===== *)
theory RtGetopt
  imports RtPrelude
begin

text \<open>
  \<open>getopt_long\<close> of the C library as its manual describes it, as far as the programs use it: clusters of short
  options, arguments in the same word or the next one, long options with \<open>=\<close> and unambiguous abbreviations, operands
  between the options (moved behind them unless the option string begins with \<open>+\<close> or the environment asks for the
  order of POSIX), and \<open>--\<close>. What a call hands over is a value of \<open>got\<close>; an error is the value of \<open>?\<close>.
\<close>

section \<open>Tables\<close>

datatype arg_kind = NoArgument | RequiredArgument | OptionalArgument

text \<open>A row of \<open>struct option\<close>: name, kind of argument, value. No program sets the member \<open>flag\<close>.\<close>

type_synonym long_option = "string \<times> arg_kind \<times> int"

abbreviation letter :: "char \<Rightarrow> int" where "letter c \<equiv> of_char c"

abbreviation opt_bad :: int where "opt_bad \<equiv> letter (CHR ''?'')"

text \<open>The kind of a letter in the option string: the first place it stands at, and the colons behind it.\<close>

fun short_kind :: "string \<Rightarrow> char \<Rightarrow> arg_kind option" where
  "short_kind [] c = None"
| "short_kind (x # xs) c =
     (if x = c \<and> c \<noteq> CHR '':''
      then Some (if take 2 xs = ''::'' then OptionalArgument else if take 1 xs = '':'' then RequiredArgument else NoArgument)
      else short_kind xs c)"

text \<open>An exact name wins; otherwise an abbreviation, if all rows it fits have the same kind and value.\<close>

definition find_long :: "long_option list \<Rightarrow> string \<Rightarrow> (nat \<times> arg_kind \<times> int) option" where
  "find_long rows nm =
     (case filter (\<lambda>r. fst (snd r) = nm) (List.enumerate 0 rows) of
        (i, _, k, v) # _ \<Rightarrow> Some (i, k, v)
      | [] \<Rightarrow>
          (case filter (\<lambda>r. take (length nm) (fst (snd r)) = nm) (List.enumerate 0 rows) of
             [] \<Rightarrow> None
           | (i, _, k, v) # rs \<Rightarrow> if list_all (\<lambda>r. snd (snd r) = (k, v)) rs then Some (i, k, v) else None))"

section \<open>One word\<close>

text \<open>
  The value, \<open>optarg\<close>, the row of a long option (the variable behind the last argument of \<open>getopt_long\<close>), and
  \<open>argv[optind]\<close>, at which programs look for an optional argument.
\<close>

record got =
  g_val :: int
  g_arg :: "string option"
  g_row :: "nat option"
  g_next :: "string option"

definition first_word :: "string list \<Rightarrow> string option" where
  "first_word ws = (case ws of [] \<Rightarrow> None | w # _ \<Rightarrow> Some w)"

text \<open>With each of the two comes how many of the following words it has used.\<close>

definition get_long :: "long_option list \<Rightarrow> string \<Rightarrow> string list \<Rightarrow> got \<times> nat" where
  "get_long rows w ws =
     (let bad = (\<lparr>g_val = opt_bad, g_arg = None, g_row = None, g_next = first_word ws\<rparr>, 0);
          nm = takeWhile (\<lambda>c. c \<noteq> CHR ''='') w;
          value = dropWhile (\<lambda>c. c \<noteq> CHR ''='') w
      in case find_long rows nm of
           None \<Rightarrow> bad
         | Some (i, k, v) \<Rightarrow>
             if value \<noteq> [] then
               (if k = NoArgument then bad
                else (\<lparr>g_val = v, g_arg = Some (tl value), g_row = Some i, g_next = first_word ws\<rparr>, 0))
             else if k = RequiredArgument then
               (case ws of
                  [] \<Rightarrow> bad
                | a # ws' \<Rightarrow> (\<lparr>g_val = v, g_arg = Some a, g_row = Some i, g_next = first_word ws'\<rparr>, 1))
             else (\<lparr>g_val = v, g_arg = None, g_row = Some i, g_next = first_word ws\<rparr>, 0))"

text \<open>\<open>w\<close> is the whole word, \<open>cs\<close> the letters of it that are left.\<close>

fun get_short :: "string \<Rightarrow> string \<Rightarrow> string \<Rightarrow> string list \<Rightarrow> got list \<times> nat" where
  "get_short sh w [] ws = ([], 0)"
| "get_short sh w (c # cs) ws =
     (let nxt = (if cs = [] then first_word ws else Some w);
          one = (\<lambda>v. case get_short sh w cs ws of
                      (gs, n) \<Rightarrow> (\<lparr>g_val = v, g_arg = None, g_row = None, g_next = nxt\<rparr> # gs, n))
      in case short_kind sh c of
           None \<Rightarrow> one opt_bad
         | Some NoArgument \<Rightarrow> one (letter c)
         | Some OptionalArgument \<Rightarrow>
             ([\<lparr>g_val = letter c, g_arg = (if cs = [] then None else Some cs), g_row = None, g_next = first_word ws\<rparr>], 0)
         | Some RequiredArgument \<Rightarrow>
             if cs \<noteq> [] then ([\<lparr>g_val = letter c, g_arg = Some cs, g_row = None, g_next = first_word ws\<rparr>], 0)
             else (case ws of
                     [] \<Rightarrow> ([\<lparr>g_val = opt_bad, g_arg = None, g_row = None, g_next = None\<rparr>], 0)
                   | a # ws' \<Rightarrow> ([\<lparr>g_val = letter c, g_arg = Some a, g_row = None, g_next = first_word ws'\<rparr>], 1)))"

section \<open>All words\<close>

definition is_operand :: "string \<Rightarrow> bool" where
  "is_operand w \<longleftrightarrow> w = ''-'' \<or> take 1 w \<noteq> ''-''"

text \<open>The options in their order, and the operands, which stand behind them in \<open>argv\<close> at the end.\<close>

fun getopt_words :: "bool \<Rightarrow> string \<Rightarrow> long_option list \<Rightarrow> string list \<Rightarrow> got list \<times> string list" where
  "getopt_words ordered sh rows [] = ([], [])"
| "getopt_words ordered sh rows (w # ws) =
     (if w = ''--'' then ([], ws)
      else if is_operand w then
        (if ordered then ([], w # ws)
         else case getopt_words ordered sh rows ws of (gs, ops) \<Rightarrow> (gs, w # ops))
      else case (if take 2 w = ''--'' then (case get_long rows (drop 2 w) ws of (g, n) \<Rightarrow> ([g], n))
                 else get_short sh w (drop 1 w) ws) of
             (gs1, n) \<Rightarrow>
               (case getopt_words ordered sh rows (drop n ws) of (gs, ops) \<Rightarrow> (gs1 @ gs, ops)))"

text \<open>The words after the name of the program, with the setting of the environment.\<close>

definition getopt_long :: "bool \<Rightarrow> string \<Rightarrow> long_option list \<Rightarrow> string list \<Rightarrow> got list" where
  "getopt_long posix optstring rows ws =
     fst (getopt_words (posix \<or> take 1 optstring = ''+'')
            (if take 1 optstring = ''+'' then drop 1 optstring else optstring) rows ws)"

definition getopt_operands :: "bool \<Rightarrow> string \<Rightarrow> long_option list \<Rightarrow> string list \<Rightarrow> string list" where
  "getopt_operands posix optstring rows ws =
     snd (getopt_words (posix \<or> take 1 optstring = ''+'')
            (if take 1 optstring = ''+'' then drop 1 optstring else optstring) rows ws)"

section \<open>Writing a command line\<close>

text \<open>
  The ways to spell an option: the long name in full, with the argument behind \<open>=\<close> or, if one is required, as the next
  word; the letter, with the argument in the same word or as the next one. Operands may stand in between.
\<close>

datatype spelling =
    LongName nat "string option"
  | LongApart nat string
  | Short char "string option"
  | ShortApart char string
  | Operand string

fun spell :: "long_option list \<Rightarrow> spelling \<Rightarrow> string list" where
  "spell rows (LongName i None) = [''--'' @ fst (rows ! i)]"
| "spell rows (LongName i (Some a)) = [''--'' @ fst (rows ! i) @ ''='' @ a]"
| "spell rows (LongApart i a) = [''--'' @ fst (rows ! i), a]"
| "spell rows (Short c None) = [''-'' @ [c]]"
| "spell rows (Short c (Some a)) = [''-'' @ [c] @ a]"
| "spell rows (ShortApart c a) = [''-'' @ [c], a]"
| "spell rows (Operand w) = [w]"

fun spelled_ok :: "bool \<Rightarrow> string \<Rightarrow> long_option list \<Rightarrow> spelling \<Rightarrow> bool" where
  "spelled_ok ordered sh rows (LongName i a) =
     (i < length rows \<and>
      (case fst (snd (rows ! i)) of NoArgument \<Rightarrow> a = None | RequiredArgument \<Rightarrow> a \<noteq> None | OptionalArgument \<Rightarrow> True))"
| "spelled_ok ordered sh rows (LongApart i a) = (i < length rows \<and> fst (snd (rows ! i)) = RequiredArgument)"
| "spelled_ok ordered sh rows (Short c a) =
     (c \<noteq> CHR ''-'' \<and>
      (case short_kind sh c of
         None \<Rightarrow> False
       | Some NoArgument \<Rightarrow> a = None
       | Some RequiredArgument \<Rightarrow> a \<noteq> None \<and> a \<noteq> Some []
       | Some OptionalArgument \<Rightarrow> a \<noteq> Some []))"
| "spelled_ok ordered sh rows (ShortApart c a) = (c \<noteq> CHR ''-'' \<and> short_kind sh c = Some RequiredArgument)"
| "spelled_ok ordered sh rows (Operand w) = (\<not> ordered \<and> is_operand w)"

text \<open>What the program is to be told.\<close>

fun meaning :: "long_option list \<Rightarrow> spelling \<Rightarrow> string option \<Rightarrow> got list" where
  "meaning rows (LongName i a) nxt = [\<lparr>g_val = snd (snd (rows ! i)), g_arg = a, g_row = Some i, g_next = nxt\<rparr>]"
| "meaning rows (LongApart i a) nxt = [\<lparr>g_val = snd (snd (rows ! i)), g_arg = Some a, g_row = Some i, g_next = nxt\<rparr>]"
| "meaning rows (Short c a) nxt = [\<lparr>g_val = letter c, g_arg = a, g_row = None, g_next = nxt\<rparr>]"
| "meaning rows (ShortApart c a) nxt = [\<lparr>g_val = letter c, g_arg = Some a, g_row = None, g_next = nxt\<rparr>]"
| "meaning rows (Operand w) nxt = []"

fun operand_of :: "spelling \<Rightarrow> string list" where
  "operand_of (Operand w) = [w]"
| "operand_of sp = []"

definition spell_all :: "long_option list \<Rightarrow> spelling list \<Rightarrow> string list" where
  "spell_all rows sps = concat (map (spell rows) sps)"

fun meanings :: "long_option list \<Rightarrow> spelling list \<Rightarrow> got list" where
  "meanings rows [] = []"
| "meanings rows (sp # sps) = meaning rows sp (first_word (spell_all rows sps)) @ meanings rows sps"

text \<open>A table whose names are distinct, not empty and without the character that ends a name.\<close>

definition table_ok :: "long_option list \<Rightarrow> bool" where
  "table_ok rows \<longleftrightarrow> distinct (map fst rows) \<and> list_all (\<lambda>r. fst r \<noteq> [] \<and> CHR ''='' \<notin> set (fst r)) rows"

section \<open>Reading it back\<close>

lemma exact_row:
  assumes "distinct (map fst rows)" "i < length rows"
  shows "filter (\<lambda>r. fst (snd r) = fst (rows ! i)) (List.enumerate n rows) = [(n + i, rows ! i)]"
  using assms
proof (induction rows arbitrary: i n)
  case (Cons r rows)
  show ?case
  proof (cases i)
    case 0
    have "filter (\<lambda>q. fst (snd q) = fst r) (List.enumerate (Suc n) rows) = []"
    proof (rule filter_False, rule ballI)
      fix q assume "q \<in> set (List.enumerate (Suc n) rows)"
      then have "snd q \<in> set rows" using set_zip_rightD [of "fst q" "snd q"] by (simp only: enumerate_eq_zip prod.collapse)
      then have "fst (snd q) \<in> fst ` set rows" by (rule imageI)
      then show "fst (snd q) \<noteq> fst r" using Cons.prems(1) by (metis distinct.simps(2) list.simps(9) set_map)
    qed
    then show ?thesis using 0 by simp
  next
    case (Suc j)
    then have "fst r \<noteq> fst (rows ! j)" using Cons.prems by (auto simp: image_iff)
    then show ?thesis using Suc Cons.IH [of j "Suc n"] Cons.prems by simp
  qed
qed simp

lemma find_long_name:
  assumes "table_ok rows" "i < length rows"
  shows "find_long rows (fst (rows ! i)) = Some (i, fst (snd (rows ! i)), snd (snd (rows ! i)))"
  using exact_row [of rows i 0] assms by (cases "rows ! i") (simp add: find_long_def table_ok_def)

lemma table_name:
  assumes "table_ok rows" "i < length rows"
  shows "fst (rows ! i) \<noteq> []" "\<And>c. c \<in> set (fst (rows ! i)) \<Longrightarrow> c \<noteq> CHR ''=''"
  using assms by (auto simp: table_ok_def list_all_length)

lemma split_name:
  assumes "table_ok rows" "i < length rows"
  shows "takeWhile (\<lambda>c. c \<noteq> CHR ''='') (fst (rows ! i)) = fst (rows ! i)"
    "dropWhile (\<lambda>c. c \<noteq> CHR ''='') (fst (rows ! i)) = []"
    "takeWhile (\<lambda>c. c \<noteq> CHR ''='') (fst (rows ! i) @ CHR ''='' # a) = fst (rows ! i)"
    "dropWhile (\<lambda>c. c \<noteq> CHR ''='') (fst (rows ! i) @ CHR ''='' # a) = CHR ''='' # a"
  using table_name(2) [OF assms] by (auto simp: takeWhile_append2 dropWhile_append2)

text \<open>One step of the reader: an option word, with the words it uses.\<close>

definition get_word :: "string \<Rightarrow> long_option list \<Rightarrow> string \<Rightarrow> string list \<Rightarrow> got list \<times> nat" where
  "get_word sh rows w ws =
     (if take 2 w = ''--'' then (case get_long rows (drop 2 w) ws of (g, n) \<Rightarrow> ([g], n))
      else get_short sh w (drop 1 w) ws)"

lemma read_option:
  assumes "w \<noteq> ''--''" "\<not> is_operand w" "get_word sh rows w ws = (gs, n)"
  shows "getopt_words ordered sh rows (w # ws) =
    (gs @ fst (getopt_words ordered sh rows (drop n ws)), snd (getopt_words ordered sh rows (drop n ws)))"
  using assms by (simp add: get_word_def case_prod_beta)

lemmas read_word = read_option [THEN arg_cong [where f = fst], unfolded fst_conv]

lemma read_operand:
  "is_operand w \<Longrightarrow> w \<noteq> ''--'' \<Longrightarrow> getopt_words ordered sh rows (w # ws) =
    (if ordered then ([], w # ws)
     else (fst (getopt_words ordered sh rows ws), w # snd (getopt_words ordered sh rows ws)))"
  by (simp add: case_prod_beta)

lemma not_operand: "is_operand (CHR ''-'' # w) \<longleftrightarrow> w = []"
  by (simp add: is_operand_def)

declare getopt_words.simps(2) [simp del]

lemma long_word:
  assumes "table_ok rows" "i < length rows" "rows ! i = (nm, k, v)"
  shows "k \<noteq> RequiredArgument \<Longrightarrow>
      get_word sh rows (''--'' @ nm) ws = ([\<lparr>g_val = v, g_arg = None, g_row = Some i, g_next = first_word ws\<rparr>], 0)"
    "k \<noteq> NoArgument \<Longrightarrow>
      get_word sh rows (''--'' @ nm @ ''='' @ a) ws = ([\<lparr>g_val = v, g_arg = Some a, g_row = Some i, g_next = first_word ws\<rparr>], 0)"
    "k = RequiredArgument \<Longrightarrow>
      get_word sh rows (''--'' @ nm) (a # ws) = ([\<lparr>g_val = v, g_arg = Some a, g_row = Some i, g_next = first_word ws\<rparr>], 1)"
  using find_long_name [OF assms(1,2), unfolded assms(3)]
  by (simp_all add: get_word_def get_long_def Let_def split_name [OF assms(1,2), unfolded assms(3) fst_conv])

lemma short_word:
  assumes "c \<noteq> CHR ''-''" "short_kind sh c = Some k"
  shows "k \<noteq> RequiredArgument \<Longrightarrow>
      get_word sh rows (''-'' @ [c]) ws = ([\<lparr>g_val = letter c, g_arg = None, g_row = None, g_next = first_word ws\<rparr>], 0)"
    "k \<noteq> NoArgument \<Longrightarrow> a \<noteq> [] \<Longrightarrow>
      get_word sh rows (''-'' @ [c] @ a) ws = ([\<lparr>g_val = letter c, g_arg = Some a, g_row = None, g_next = first_word ws\<rparr>], 0)"
    "k = RequiredArgument \<Longrightarrow>
      get_word sh rows (''-'' @ [c]) (a # ws) = ([\<lparr>g_val = letter c, g_arg = Some a, g_row = None, g_next = first_word ws\<rparr>], 1)"
  using assms by (cases k; simp add: get_word_def Let_def)+

lemma read_spelling:
  assumes "table_ok rows" "spelled_ok ordered sh rows sp"
  shows "getopt_words ordered sh rows (spell rows sp @ ws) =
    (meaning rows sp (first_word ws) @ fst (getopt_words ordered sh rows ws),
     operand_of sp @ snd (getopt_words ordered sh rows ws))"
proof (cases sp)
  case (LongName i a)
  obtain nm k v where r: "rows ! i = (nm, k, v)" by (cases "rows ! i")
  have i: "i < length rows" and k: "case k of NoArgument \<Rightarrow> a = None | RequiredArgument \<Rightarrow> a \<noteq> None | OptionalArgument \<Rightarrow> True"
    using LongName assms(2) r by simp_all
  note w = long_word [OF assms(1) i r, where sh = sh and ws = ws] and n = table_name(1) [OF assms(1) i]
  show ?thesis
  proof (cases a)
    case None
    then have "k \<noteq> RequiredArgument" using k by auto
    from read_option [OF _ _ w(1) [OF this]] show ?thesis using LongName None r n by (simp add: not_operand)
  next
    case (Some b)
    then have "k \<noteq> NoArgument" using k by auto
    from read_option [OF _ _ w(2) [OF this]] show ?thesis using LongName Some r n by (simp add: not_operand)
  qed
next
  case (LongApart i a)
  obtain nm k v where r: "rows ! i = (nm, k, v)" by (cases "rows ! i")
  have i: "i < length rows" and k: "k = RequiredArgument" using LongApart assms(2) r by simp_all
  from read_option [OF _ _ long_word(3) [OF assms(1) i r k]] show ?thesis
    using LongApart r table_name(1) [OF assms(1) i] by (simp add: not_operand)
next
  case (Short c a)
  obtain k where c: "c \<noteq> CHR ''-''" and k: "short_kind sh c = Some k" and
    a: "case k of NoArgument \<Rightarrow> a = None | RequiredArgument \<Rightarrow> a \<noteq> None \<and> a \<noteq> Some [] | OptionalArgument \<Rightarrow> a \<noteq> Some []"
    using Short assms(2) by (auto split: option.splits)
  note w = short_word [OF c k, where rows = rows and ws = ws]
  show ?thesis
  proof (cases a)
    case None
    then have "k \<noteq> RequiredArgument" using a by auto
    from read_option [OF _ _ w(1) [OF this]] show ?thesis using Short None c by (simp add: not_operand)
  next
    case (Some b)
    then have "k \<noteq> NoArgument" "b \<noteq> []" using a by (auto split: arg_kind.splits)
    from read_option [OF _ _ w(2) [OF this]] show ?thesis using Short Some c by (simp add: not_operand)
  qed
next
  case (ShortApart c a)
  then have c: "c \<noteq> CHR ''-''" and k: "short_kind sh c = Some RequiredArgument" using assms(2) by simp_all
  from read_option [OF _ _ short_word(3) [OF c k refl]] show ?thesis using ShortApart c by (simp add: not_operand)
next
  case (Operand w)
  then show ?thesis using assms(2) read_operand [of w] by (cases "w = ''--''") (auto simp: is_operand_def)
qed

text \<open>Every command line made of such spellings is read as it was meant, in its order.\<close>

lemma getopt_reads_back:
  assumes "table_ok rows" "\<forall>sp \<in> set sps. spelled_ok ordered sh rows sp"
  shows "fst (getopt_words ordered sh rows (spell_all rows sps)) = meanings rows sps"
  using assms(2)
proof (induction sps)
  case (Cons sp sps)
  then show ?case using read_spelling [OF assms(1), of ordered sh sp] by (simp add: spell_all_def)
qed (simp add: spell_all_def)

lemma getopt_operands_back:
  assumes "table_ok rows" "\<forall>sp \<in> set sps. spelled_ok ordered sh rows sp"
  shows "snd (getopt_words ordered sh rows (spell_all rows sps)) = concat (map operand_of sps)"
  using assms(2)
proof (induction sps)
  case (Cons sp sps)
  then show ?case using read_spelling [OF assms(1), of ordered sh sp] by (simp add: spell_all_def)
qed (simp add: spell_all_def)

text \<open>In the order of POSIX nothing behind the first operand is read.\<close>

lemma ordered_stops:
  assumes "table_ok rows" "\<forall>sp \<in> set sps. spelled_ok True sh rows sp" "is_operand w" "w \<noteq> ''--''"
  shows "fst (getopt_words True sh rows (spell_all rows sps @ w # ws)) =
    fst (getopt_words True sh rows (spell_all rows sps @ [w]))"
  using assms(2)
proof (induction sps)
  case (Cons sp sps)
  have "first_word (spell_all rows sps @ w # ws) = first_word (spell_all rows sps @ [w])"
    by (cases "spell_all rows sps") (simp_all add: first_word_def)
  then show ?case
    using Cons read_spelling [OF assms(1), of True sh sp] by (simp add: spell_all_def)
qed (simp add: spell_all_def read_operand assms(3,4))

section \<open>The tables of a program\<close>

definition optstring_letters :: "string \<Rightarrow> string" where
  "optstring_letters s = (if take 1 s = ''+'' then drop 1 s else s)"

definition in_order :: "bool \<Rightarrow> string \<Rightarrow> bool" where
  "in_order posix s \<longleftrightarrow> posix \<or> take 1 s = ''+''"

text \<open>
  A program whose long options have letters as their values: \<open>?\<close> for the help, which is also what an error gives, and
  otherwise a letter of the option string with the same kind of argument.
\<close>

definition letters_agree :: "string \<Rightarrow> long_option list \<Rightarrow> bool" where
  "letters_agree sh rows \<longleftrightarrow>
     list_all (\<lambda>r. snd (snd r) = opt_bad \<or>
       list_ex (\<lambda>c. snd (snd r) = letter c \<and> short_kind sh c = Some (fst (snd r))) sh) rows"

locale command_line =
  fixes optstring :: string and rows :: "long_option list"
  assumes rows_ok: "table_ok rows"
begin

lemma reads_back:
  assumes "\<forall>sp \<in> set sps. spelled_ok (in_order posix optstring) (optstring_letters optstring) rows sp"
  shows "getopt_long posix optstring rows (spell_all rows sps) = meanings rows sps"
  using getopt_reads_back [OF rows_ok assms] by (simp add: getopt_long_def in_order_def optstring_letters_def)

lemma reads_operands:
  assumes "\<forall>sp \<in> set sps. spelled_ok (in_order posix optstring) (optstring_letters optstring) rows sp"
  shows "getopt_operands posix optstring rows (spell_all rows sps) = concat (map operand_of sps)"
  using getopt_operands_back [OF rows_ok assms] by (simp add: getopt_operands_def in_order_def optstring_letters_def)

lemma reads_option:
  assumes "w \<noteq> ''--''" "\<not> is_operand w" "get_word (optstring_letters optstring) rows w ws = (gs, n)"
  shows "getopt_long posix optstring rows (w # ws) = gs @ getopt_long posix optstring rows (drop n ws)"
  using read_word [OF assms, of "in_order posix optstring"]
  by (simp add: getopt_long_def in_order_def optstring_letters_def)

lemma reads_nothing: "getopt_long posix optstring rows [] = []"
  by (simp add: getopt_long_def)

end

end
