(* ===== verification/PairMachine.thy ===== *)
theory PairMachine
  imports RtTime
begin

text \<open>
  What ptsematest, svsematest, pmqtest and sigwaittest have in common: pairs of threads, in which a sender
  notes the time and wakes the receiver, and the receiver notes the time again and keeps statistics of
  the differences. A thread is the list of its operations; \<open>pair_step\<close> lets either thread go on. The
  programs differ in the lists and in the means of waking (\<open>put_kind\<close>); each has a theory of its own. The
  output to the tracing directory is left out.
  Beside the state, the times noted (\<open>m_stamps\<close>) and the pairs of times a difference was taken of
  (\<open>m_used\<close>) are kept and read by no operation.
\<close>

section \<open>A thread's data\<close>

abbreviation tv :: "int \<Rightarrow> int \<Rightarrow> timeval" where
  "tv s u \<equiv> \<lparr>tvl_sec = s, tvl_usec = u\<rparr>"

text \<open>\<open>struct params\<close>, without the fields that only name objects and the error text.\<close>

record pair_params =
  pp_cpu :: int
  pp_priority :: int
  pp_samples :: int
  pp_max_cycles :: int
  pp_tracelimit :: int
  pp_shutdown :: bool
  pp_stopped :: bool
  pp_delay :: "int \<times> int"
  pp_mindiff :: int
  pp_maxdiff :: int
  pp_sumdiff :: int       \<comment> \<open>a \<open>double\<close>, exact up to \<open>2^53\<close>\<close>
  pp_unblocked :: timeval
  pp_received :: timeval
  pp_diff :: timeval
  pp_forcetimeout :: int
  pp_timeoutcount :: int

text \<open>Only the microseconds of the difference are used.\<close>

definition pp_stats :: "int \<Rightarrow> pair_params \<Rightarrow> pair_params" where
  "pp_stats usec p =
     p\<lparr>pp_mindiff := (if usec < pp_mindiff p then u32 usec else pp_mindiff p),
       pp_maxdiff := (if pp_maxdiff p < usec then u32 usec else pp_maxdiff p),
       pp_sumdiff := pp_sumdiff p + usec\<rparr>"

definition pp_measure :: "timeval \<Rightarrow> pair_params \<Rightarrow> pair_params" where
  "pp_measure unblocked p =
     (let d = timersub (pp_received p) unblocked in pp_stats (tvl_usec d) (p\<lparr>pp_diff := d\<rparr>))"

definition pp_limit :: "pair_params \<Rightarrow> pair_params" where
  "pp_limit p = (if pp_max_cycles p \<noteq> 0 \<and> pp_max_cycles p \<le> pp_samples p then p\<lparr>pp_shutdown := True\<rparr> else p)"

text \<open>The comparison with the limit is one of unsigned numbers.\<close>

definition over_limit :: "pair_params \<Rightarrow> bool" where
  "over_limit p \<longleftrightarrow> pp_tracelimit p \<noteq> 0 \<and> u32 (pp_tracelimit p) < pp_maxdiff p"

section \<open>Two threads\<close>

datatype role = Sender | Receiver

datatype pair_op =
    Test            \<comment> \<open>\<open>while (!par->shutdown)\<close>, else on behind the loop\<close>
  | Mask            \<comment> \<open>the signal of the thread is blocked, to be waited for\<close>
  | Take nat        \<comment> \<open>waits for the lock, semaphore, message or signal of that number\<close>
  | TimedTake nat   \<comment> \<open>the same with a time-out\<close>
  | Put nat
  | Stamp           \<comment> \<open>\<open>gettimeofday\<close> to \<open>unblocked\<close> or \<open>sent\<close>\<close>
  | Received        \<comment> \<open>\<open>gettimeofday\<close> to \<open>received\<close>\<close>
  | Count | Limit | GetCpu | Measure | Break | Pause
  | Loop            \<comment> \<open>the end of the loop's body\<close>
  | Stopped

text \<open>
  Unlocking frees the mutex whatever its state; a semaphore counts; a queue of one message makes the sender
  wait; a signal is pending once, and kills a receiver that has not blocked it.
\<close>

datatype put_kind = Mutexes | Semaphores | Queues | Signals

record pair =
  m_snd :: pair_params
  m_rcv :: pair_params
  m_getcpu :: "role \<Rightarrow> bool"
  m_chan :: "nat \<Rightarrow> nat"
  m_masked :: "role \<Rightarrow> bool"
  m_killed :: bool
  m_pc :: "role \<Rightarrow> nat"
  m_stamps :: "timeval list"
  m_used :: "(timeval \<times> timeval) list"

fun other :: "role \<Rightarrow> role" where
  "other Sender = Receiver"
| "other Receiver = Sender"

fun of_role :: "role \<Rightarrow> pair \<Rightarrow> pair_params" where
  "of_role Sender s = m_snd s"
| "of_role Receiver s = m_rcv s"

fun upd_role :: "role \<Rightarrow> (pair_params \<Rightarrow> pair_params) \<Rightarrow> pair \<Rightarrow> pair" where
  "upd_role Sender f s = s\<lparr>m_snd := f (m_snd s)\<rparr>"
| "upd_role Receiver f s = s\<lparr>m_rcv := f (m_rcv s)\<rparr>"

type_synonym pair_prog = "role \<Rightarrow> pair_op list"

definition pair_at :: "pair_prog \<Rightarrow> pair \<Rightarrow> role \<Rightarrow> pair_op" where
  "pair_at prog s r = prog r ! m_pc s r"

definition behind_loop :: "pair_op list \<Rightarrow> nat" where
  "behind_loop ops = Suc (length (takeWhile (\<lambda>x. x \<noteq> Loop) ops))"

definition pair_goto :: "role \<Rightarrow> nat \<Rightarrow> pair \<Rightarrow> pair" where
  "pair_goto r n s = s\<lparr>m_pc := (m_pc s)(r := n)\<rparr>"

definition pair_next :: "role \<Rightarrow> pair \<Rightarrow> pair" where
  "pair_next r s = pair_goto r (Suc (m_pc s r)) s"

definition pair_enabled :: "put_kind \<Rightarrow> pair_prog \<Rightarrow> pair \<Rightarrow> role \<Rightarrow> bool" where
  "pair_enabled kind prog s r \<longleftrightarrow> \<not> m_killed s \<and> m_pc s r < length (prog r) \<and>
     (case pair_at prog s r of
        Take c \<Rightarrow> 0 < m_chan s c
      | TimedTake c \<Rightarrow> 0 < m_chan s c
      | Put c \<Rightarrow> kind = Queues \<longrightarrow> m_chan s c = 0
      | _ \<Rightarrow> True)"

definition pair_put :: "put_kind \<Rightarrow> role \<Rightarrow> nat \<Rightarrow> pair \<Rightarrow> pair" where
  "pair_put kind r c s =
     (case kind of
        Mutexes \<Rightarrow> s\<lparr>m_chan := (m_chan s)(c := 1)\<rparr>
      | Signals \<Rightarrow>
          if m_masked s (other r) then s\<lparr>m_chan := (m_chan s)(c := 1)\<rparr> else s\<lparr>m_killed := True\<rparr>
      | _ \<Rightarrow> s\<lparr>m_chan := (m_chan s)(c := Suc (m_chan s c))\<rparr>)"

text \<open>One operation; \<open>t\<close> is what a clock, \<open>c\<close> what \<open>get_cpu\<close> answers.\<close>

definition pair_exec :: "put_kind \<Rightarrow> pair_prog \<Rightarrow> role \<Rightarrow> timeval \<Rightarrow> int \<Rightarrow> pair \<Rightarrow> pair" where
  "pair_exec kind prog r t cpu s =
     (case pair_at prog s r of
        Test \<Rightarrow> if pp_shutdown (of_role r s) then pair_goto r (behind_loop (prog r)) s else pair_next r s
      | Mask \<Rightarrow> pair_next r (s\<lparr>m_masked := (m_masked s)(r := True)\<rparr>)
      | Take c \<Rightarrow> pair_next r (s\<lparr>m_chan := (m_chan s)(c := m_chan s c - 1)\<rparr>)
      | TimedTake c \<Rightarrow> pair_next r (s\<lparr>m_chan := (m_chan s)(c := m_chan s c - 1)\<rparr>)
      | Put c \<Rightarrow> pair_next r (pair_put kind r c s)
      | Stamp \<Rightarrow> pair_next r (upd_role r (\<lambda>p. p\<lparr>pp_unblocked := t\<rparr>) (s\<lparr>m_stamps := m_stamps s @ [t]\<rparr>))
      | Received \<Rightarrow> pair_next r (upd_role r (\<lambda>p. p\<lparr>pp_received := t\<rparr>) s)
      | Count \<Rightarrow> pair_next r (upd_role r (\<lambda>p. p\<lparr>pp_samples := pp_samples p + 1\<rparr>) s)
      | Limit \<Rightarrow> pair_next r (upd_role r pp_limit s)
      | GetCpu \<Rightarrow> pair_next r (if m_getcpu s r then upd_role r (\<lambda>p. p\<lparr>pp_cpu := cpu\<rparr>) s else s)
      | Measure \<Rightarrow>
          pair_next r (upd_role r (pp_measure (pp_unblocked (of_role (other r) s)))
            (s\<lparr>m_used := m_used s @ [(pp_received (of_role r s), pp_unblocked (of_role (other r) s))]\<rparr>))
      | Break \<Rightarrow>
          pair_next r
            (if over_limit (of_role r s)
             then upd_role (other r) (\<lambda>p. p\<lparr>pp_shutdown := True\<rparr>) (upd_role r (\<lambda>p. p\<lparr>pp_shutdown := True\<rparr>) s)
             else s)
      | Pause \<Rightarrow> pair_next r s
      | Loop \<Rightarrow> pair_goto r 0 s
      | Stopped \<Rightarrow> pair_next r (upd_role r (\<lambda>p. p\<lparr>pp_stopped := True\<rparr>) s))"

text \<open>
  A time-out: the sender stops; the receiver stops as well unless time-outs are forced, when it counts it and
  waits again.
\<close>

definition pair_expire :: "role \<Rightarrow> pair \<Rightarrow> pair" where
  "pair_expire r s =
     (if r = Receiver \<and> pp_forcetimeout (m_rcv s) \<noteq> 0
      then upd_role r (\<lambda>p. p\<lparr>pp_timeoutcount := pp_timeoutcount p + 1\<rparr>) s
      else pair_next r (upd_role r (\<lambda>p. p\<lparr>pp_shutdown := True\<rparr>) s))"

inductive pair_step :: "put_kind \<Rightarrow> pair_prog \<Rightarrow> pair \<Rightarrow> pair \<Rightarrow> bool" for kind prog where
  pair_run: "pair_enabled kind prog s r \<Longrightarrow> tv_normal t \<Longrightarrow> pair_step kind prog s (pair_exec kind prog r t cpu s)"
| pair_timeout: "pair_at prog s r = TimedTake c \<Longrightarrow> m_pc s r < length (prog r) \<Longrightarrow> m_chan s c = 0 \<Longrightarrow> \<not> m_killed s \<Longrightarrow>
     pair_step kind prog s (pair_expire r s)"

text \<open>The steps in which no time-out expires.\<close>

inductive pair_quiet_step :: "put_kind \<Rightarrow> pair_prog \<Rightarrow> pair \<Rightarrow> pair \<Rightarrow> bool" for kind prog where
  pair_quiet: "pair_enabled kind prog s r \<Longrightarrow> tv_normal t \<Longrightarrow>
     pair_quiet_step kind prog s (pair_exec kind prog r t cpu s)"

text \<open>The clock is a normalised \<open>timeval\<close>. The start: \<open>chan\<close> says which locks and semaphores are free.\<close>

definition pair_start :: "(nat \<Rightarrow> nat) \<Rightarrow> pair \<Rightarrow> bool" where
  "pair_start chan s \<longleftrightarrow>
     m_chan s = chan \<and> \<not> m_masked s Sender \<and> \<not> m_masked s Receiver \<and> \<not> m_killed s \<and>
     m_pc s Sender = 0 \<and> m_pc s Receiver = 0 \<and> m_stamps s = [] \<and> m_used s = [] \<and>
     pp_mindiff (m_rcv s) = 4294967295 \<and> pp_maxdiff (m_rcv s) = 0 \<and> pp_sumdiff (m_rcv s) = 0 \<and>
     pp_unblocked (m_snd s) = tv 0 0 \<and> pp_received (m_rcv s) = tv 0 0 \<and>
     pp_samples (m_snd s) = 0 \<and> pp_samples (m_rcv s) = 0"

section \<open>The figures\<close>

interpretation pstat: latency_stats pp_stats pp_mindiff pp_maxdiff pp_sumdiff usec_ok "\<lambda>_. True"
  by unfold_locales (auto simp: pp_stats_def min_def max_def usec_ok_def take_bit_int_eq_self)

abbreviation used_usec :: "pair \<Rightarrow> int list" where
  "used_usec s \<equiv> map (\<lambda>(a, b). tvl_usec (timersub a b)) (m_used s)"

definition pair_figures :: "pair \<Rightarrow> bool" where
  "pair_figures s \<longleftrightarrow>
     pp_mindiff (m_rcv s) = fold min (used_usec s) 4294967295 \<and> pp_maxdiff (m_rcv s) = fold max (used_usec s) 0 \<and>
     pp_sumdiff (m_rcv s) = sum_list (used_usec s) \<and>
     tv_normal (pp_unblocked (m_snd s)) \<and> tv_normal (pp_received (m_rcv s)) \<and>
     list_all usec_ok (used_usec s)"

text \<open>The sender stamps, the receiver measures.\<close>

definition pair_roles :: "pair_prog \<Rightarrow> bool" where
  "pair_roles prog \<longleftrightarrow> list_all (\<lambda>x. x \<noteq> Received \<and> x \<noteq> Measure) (prog Sender) \<and> list_all (\<lambda>x. x \<noteq> Stamp) (prog Receiver)"

lemma start_figures: "pair_start chan s \<Longrightarrow> pair_figures s"
  by (simp add: pair_start_def pair_figures_def tv_normal_def)

lemma pp_limit_sel [simp]:
  "pp_mindiff (pp_limit p) = pp_mindiff p" "pp_maxdiff (pp_limit p) = pp_maxdiff p" "pp_sumdiff (pp_limit p) = pp_sumdiff p"
  "pp_unblocked (pp_limit p) = pp_unblocked p" "pp_received (pp_limit p) = pp_received p" "pp_samples (pp_limit p) = pp_samples p"
  by (simp_all add: pp_limit_def)

lemma measure_figures:
  assumes "pair_figures s"
  shows "pair_figures (s\<lparr>m_rcv := pp_measure (pp_unblocked (m_snd s)) (m_rcv s),
    m_used := m_used s @ [(pp_received (m_rcv s), pp_unblocked (m_snd s))]\<rparr>)"
proof -
  let ?d = "tvl_usec (timersub (pp_received (m_rcv s)) (pp_unblocked (m_snd s)))"
  have d: "usec_ok ?d"
    using assms by (simp add: timersub_usec pair_figures_def tv_normal_def)
  have "pp_received (pp_measure u p) = pp_received p" for u p by (simp add: pp_measure_def pp_stats_def Let_def)
  then show ?thesis
    using assms d pstat.mn_rec [OF TrueI d] pstat.mx_rec [OF TrueI d] pstat.sm_rec [OF TrueI d]
    by (simp add: pair_figures_def pp_measure_def Let_def)
qed

lemma step_figures:
  assumes "pair_figures s" and "pair_roles prog" and "pair_step kind prog s s'"
  shows "pair_figures s'"
  using assms(3)
proof cases
  case (pair_run r t cpu)
  have at: "pair_at prog s r \<in> set (prog r)" using pair_run(2) by (simp add: pair_at_def pair_enabled_def)
  show ?thesis
  proof (cases "pair_at prog s r = Measure")
    case True
    then have "r = Receiver" using at assms(2) by (cases r) (auto simp: pair_roles_def list_all_iff)
    then show ?thesis using True measure_figures [OF assms(1)] pair_run(1)
      by (simp add: pair_exec_def pair_next_def pair_goto_def pair_figures_def)
  next
    case False
    then show ?thesis using at assms(1,2) pair_run(1,3)
      by (cases r; cases "pair_at prog s r")
        (auto simp: pair_exec_def pair_next_def pair_goto_def pair_put_def pair_figures_def tv_normal_def pair_roles_def list_all_iff
          split: put_kind.split)
  qed
next
  case (pair_timeout r c)
  then show ?thesis using assms(1) by (cases r) (auto simp: pair_expire_def pair_figures_def pair_next_def pair_goto_def)
qed

section \<open>The exchange\<close>

text \<open>
  What the programs are meant to do, in terms of the two histories alone: a time is noted when all earlier ones
  have been used, and a difference is taken to the last noted time, once.
\<close>

type_synonym exch = "timeval list \<times> (timeval \<times> timeval) list"

inductive exch_step :: "exch \<Rightarrow> exch \<Rightarrow> bool" where
  exch_stamp: "length used = length stamps \<Longrightarrow> exch_step (stamps, used) (stamps @ [t], used)"
| exch_use: "length used = length stamps \<Longrightarrow> exch_step (stamps @ [u], used) (stamps @ [u], used @ [(t, u)])"

lemma exch_use_last:
  assumes "length stamps = Suc (length used)" and "stamps = [] \<or> last stamps = u"
  shows "exch_step (stamps, used) (stamps, used @ [(t, u)])"
proof -
  obtain ts where "stamps = ts @ [u]" using assms by (cases stamps rule: rev_cases) auto
  then show ?thesis using assms(1) by (simp add: exch_use)
qed

definition exch_inv :: "exch \<Rightarrow> bool" where
  "exch_inv v \<longleftrightarrow> map snd (snd v) = take (length (snd v)) (fst v) \<and>
     length (snd v) \<le> length (fst v) \<and> length (fst v) \<le> Suc (length (snd v))"

interpretation exch: machine "\<lambda>v. v = ([], [])" exch_step exch_inv
proof
  show "exch_inv v" if "v = ([], [])" for v using that by (simp add: exch_inv_def)
  show "exch_inv v'" if "exch_inv v" "exch_step v v'" for v v'
    using that(2,1) by cases (auto simp: exch_inv_def)
qed

text \<open>The contract of a program: its steps are steps of the exchange or leave the histories alone.\<close>

locale exchange = machine init step inv
  for init :: "'s \<Rightarrow> bool" and step :: "'s \<Rightarrow> 's \<Rightarrow> bool" and inv :: "'s \<Rightarrow> bool" +
  fixes view :: "'s \<Rightarrow> exch"
  assumes view_init: "init s \<Longrightarrow> view s = ([], [])"
    and view_step: "inv s \<Longrightarrow> step s t \<Longrightarrow> view t = view s \<or> exch_step (view s) (view t)"
begin

lemma refines: "reach init step s \<Longrightarrow> reach (\<lambda>v. v = ([], [])) exch_step (view s)"
proof (induction rule: reach.induct)
  case (reach_init s)
  then show ?case by (simp add: view_init reach.reach_init)
next
  case (reach_step s t)
  then have "view t = view s \<or> exch_step (view s) (view t)" by (intro view_step reach_inv)
  then show ?case using reach_step.IH by (auto intro: reach.reach_step)
qed

lemma paired: "reach init step s \<Longrightarrow> exch_inv (view s)"
  by (rule exch.reach_inv) (rule refines)

end

definition pair_view :: "pair \<Rightarrow> exch" where
  "pair_view s = (m_stamps s, m_used s)"

text \<open>The places of a thread, to be split into cases.\<close>

lemma place9: "(n :: nat) < 9 \<Longrightarrow> n \<in> {0, 1, 2, 3, 4, 5, 6, 7, 8}" by auto
lemma place10: "(n :: nat) < 10 \<Longrightarrow> n \<in> {0, 1, 2, 3, 4, 5, 6, 7, 8, 9}" by (cases "n < 9") (auto dest: place9)
lemma place11: "(n :: nat) < 11 \<Longrightarrow> n \<in> {0, 1, 2, 3, 4, 5, 6, 7, 8, 9, 10}" by (cases "n < 9") (auto dest: place9)
lemma place12: "(n :: nat) < 12 \<Longrightarrow> n \<in> {0, 1, 2, 3, 4, 5, 6, 7, 8, 9, 10, 11}" by (cases "n < 9") (auto dest: place9)
lemma place13: "(n :: nat) < 13 \<Longrightarrow> n \<in> {0, 1, 2, 3, 4, 5, 6, 7, 8, 9, 10, 11, 12}" by (cases "n < 9") (auto dest: place9)

lemmas pair_eval = pair_enabled_def pair_at_def pair_exec_def pair_next_def pair_goto_def pair_put_def

text \<open>Runs given by who goes on and what the clock says.\<close>

fun pair_go :: "put_kind \<Rightarrow> pair_prog \<Rightarrow> (role \<times> timeval) list \<Rightarrow> pair \<Rightarrow> pair option" where
  "pair_go kind prog [] s = Some s"
| "pair_go kind prog ((r, t) # ms) s =
     (if pair_enabled kind prog s r \<and> tv_normal t
      then pair_go kind prog ms (pair_exec kind prog r t 0 s) else None)"

lemma pair_go_reach:
  "reach init (pair_step kind prog) s \<Longrightarrow> pair_go kind prog ms s = Some s' \<Longrightarrow> reach init (pair_step kind prog) s'"
  by (induction kind prog ms s rule: pair_go.induct) (auto split: if_splits intro: reach_step pair_run)

lemma pair_go_reach_quiet:
  "reach init (pair_quiet_step kind prog) s \<Longrightarrow> pair_go kind prog ms s = Some s' \<Longrightarrow> reach init (pair_quiet_step kind prog) s'"
  by (induction kind prog ms s rule: pair_go.induct) (auto split: if_splits intro: reach_step pair_quiet)

definition ex_params :: "int \<Rightarrow> pair_params" where
  "ex_params cycles =
     \<lparr>pp_cpu = 0, pp_priority = 1, pp_samples = 0, pp_max_cycles = cycles, pp_tracelimit = 0, pp_shutdown = False,
      pp_stopped = False, pp_delay = (0, 1000000), pp_mindiff = 4294967295, pp_maxdiff = 0, pp_sumdiff = 0,
      pp_unblocked = tv 0 0, pp_received = tv 0 0, pp_diff = tv 0 0, pp_forcetimeout = 0, pp_timeoutcount = 0\<rparr>"

definition ex_pair :: "(nat \<Rightarrow> nat) \<Rightarrow> int \<Rightarrow> pair" where
  "ex_pair chan cycles =
     \<lparr>m_snd = ex_params cycles, m_rcv = ex_params cycles, m_getcpu = (\<lambda>_. False), m_chan = chan,
      m_masked = (\<lambda>_. False), m_killed = False, m_pc = (\<lambda>_. 0), m_stamps = [], m_used = []\<rparr>"

lemma ex_pair_reach: "reach (pair_start chan) step (ex_pair chan cycles)"
  by (rule reach_init) (simp add: pair_start_def ex_pair_def ex_params_def)

lemma pair_go_the: "pair_go kind prog ms s \<noteq> None \<Longrightarrow> pair_go kind prog ms s = Some (the (pair_go kind prog ms s))"
  by auto

end
