(* ===== verification/PairMain.thy ===== *)
theory PairMain
  imports PairMachine
begin

text \<open>
  What the \<open>main\<close> functions of the four programs of pairs have in common: the option variables, the
  values a pair of threads starts with, and the figures shown. The programs have their own
  \<open>process_options\<close> and loops, translated in their own theories.
\<close>

section \<open>Options\<close>

datatype aff_mode = AffinityUnspecified | AffinitySpecified | AffinityUseall

record pair_opts =
  q_setaffinity :: aff_mode
  q_affinity :: int
  q_tracelimit :: int
  q_priority :: int
  q_num_threads :: int
  q_max_cycles :: int
  q_interval :: int
  q_distance :: int
  q_smp :: bool
  q_sameprio :: bool
  q_timeout :: int
  q_forcetimeout :: int
  q_mustfork :: bool
  q_wasforked :: bool
  q_wasforked_sender :: int
  q_wasforked_threadno :: int
  q_thistracelimit :: int
  q_error :: bool

definition pair_defaults :: pair_opts where
  "pair_defaults =
     \<lparr>q_setaffinity = AffinityUnspecified, q_affinity = 0, q_tracelimit = 0, q_priority = 0, q_num_threads = 1,
      q_max_cycles = 0, q_interval = 1000, q_distance = 500, q_smp = False, q_sameprio = False, q_timeout = 0,
      q_forcetimeout = 0, q_mustfork = False, q_wasforked = False, q_wasforked_sender = - 1, q_wasforked_threadno = - 1,
      q_thistracelimit = 0, q_error = False\<rparr>"

text \<open>
  An option as \<open>getopt_long\<close> hands it over: its letter, its argument, and the next word of the command line,
  at which the code looks when an optional argument is missing.
\<close>

type_synonym pair_option = "char \<times> string option \<times> string option"

definition arg_int :: "string option \<Rightarrow> int" where
  "arg_int arg = (case arg of Some a \<Rightarrow> atoi a | None \<Rightarrow> 0)"

definition optional_int :: "string option \<Rightarrow> string option \<Rightarrow> int option" where
  "optional_int arg nxt =
     (case arg of
        Some a \<Rightarrow> Some (atoi a)
      | None \<Rightarrow> (case nxt of Some w \<Rightarrow> if atoi w \<noteq> 0 then Some (atoi w) else None | None \<Rightarrow> None))"

definition set_affinity_opt :: "string option \<Rightarrow> string option \<Rightarrow> pair_opts \<Rightarrow> pair_opts" where
  "set_affinity_opt arg nxt q =
     (case optional_int arg nxt of
        Some a \<Rightarrow> q\<lparr>q_affinity := a, q_setaffinity := AffinitySpecified\<rparr>
      | None \<Rightarrow> q\<lparr>q_setaffinity := AffinityUseall\<rparr>)"

definition set_threads_opt :: "int \<Rightarrow> string option \<Rightarrow> string option \<Rightarrow> pair_opts \<Rightarrow> pair_opts" where
  "set_threads_opt max_cpus arg nxt q =
     q\<lparr>q_num_threads := (case optional_int arg nxt of Some n \<Rightarrow> n | None \<Rightarrow> max_cpus)\<rparr>"

definition bad_affinity :: "int \<Rightarrow> pair_opts \<Rightarrow> bool" where
  "bad_affinity max_cpus q \<longleftrightarrow>
     q_setaffinity q = AffinitySpecified \<and> (q_affinity q < 0 \<or> max_cpus \<le> q_affinity q)"

section \<open>The start values of a pair\<close>

definition pair_cpu :: "int \<Rightarrow> pair_opts \<Rightarrow> int \<Rightarrow> int" where
  "pair_cpu max_cpus q i =
     (case q_setaffinity q of
        AffinityUnspecified \<Rightarrow> - 1
      | AffinitySpecified \<Rightarrow> q_affinity q
      | AffinityUseall \<Rightarrow> i smod max_cpus)"

definition pair_delay :: "int \<Rightarrow> int \<times> int" where
  "pair_delay interval = (interval sdiv 1000000, (interval smod 1000000) * 1000)"

definition pair_params_init :: "int \<Rightarrow> pair_opts \<Rightarrow> int \<Rightarrow> int \<Rightarrow> int \<Rightarrow> pair_params" where
  "pair_params_init max_cpus q i priority interval =
     \<lparr>pp_cpu = pair_cpu max_cpus q i, pp_priority = priority, pp_samples = 0, pp_max_cycles = q_max_cycles q,
      pp_tracelimit = q_tracelimit q, pp_shutdown = False, pp_stopped = False, pp_delay = pair_delay interval,
      pp_mindiff = 4294967295, pp_maxdiff = 0, pp_sumdiff = 0, pp_unblocked = tv 0 0, pp_received = tv 0 0,
      pp_diff = tv 0 0, pp_forcetimeout = q_forcetimeout q, pp_timeoutcount = 0\<rparr>"

section \<open>The figures shown\<close>

text \<open>
  \<open>(int) (sumdiff / samples + 0.5)\<close>; without a sample the division has no number as its result.
\<close>

definition pair_average :: "pair_params \<Rightarrow> int option" where
  "pair_average p =
     (if pp_samples p = 0 then None else Some ((2 * pp_sumdiff p + pp_samples p) div (2 * pp_samples p)))"

datatype pair_line =
    PairHead int int int int int int int int      \<comment> \<open>number, priority, CPU, interval; number, priority, CPU, cycles\<close>
  | PairTimeouts int
  | PairStat int int int int "int option" int     \<comment> \<open>numbers, minimum, last, average, maximum\<close>
  | PairNotReady int int
  | PairCollecting

definition pair_head_line :: "int \<Rightarrow> pair_params \<times> pair_params \<Rightarrow> pair_line" where
  "pair_head_line i rs =
     (case rs of (r, s) \<Rightarrow>
        PairHead (2 * i) (pp_priority r) (pp_cpu r) (snd (pp_delay r) sdiv 1000)
          (2 * i + 1) (pp_priority s) (pp_cpu s) (pp_samples s))"

definition pair_stat_line :: "int \<Rightarrow> pair_params \<Rightarrow> pair_line" where
  "pair_stat_line i r =
     PairStat (2 * i + 1) (2 * i) (s32 (pp_mindiff r)) (tvl_usec (pp_diff r)) (pair_average r) (s32 (pp_maxdiff r))"

abbreviation numbered :: "'a list \<Rightarrow> (int \<times> 'a) list" where
  "numbered xs \<equiv> zip (map int [0..<length xs]) xs"

section \<open>The average\<close>

lemma sum_list_bounds: "list_all (\<lambda>d. a \<le> d \<and> d \<le> b) ds \<Longrightarrow>
    a * int (length ds) \<le> sum_list ds \<and> sum_list ds \<le> b * int (length ds)"
  by (induction ds) (auto simp: algebra_simps)

lemma rounded_between:
  assumes "0 < n" and "a * n \<le> x" and "x \<le> b * n"
  shows "a \<le> (2 * x + n) div (2 * n) \<and> (2 * x + n) div (2 * n) \<le> (b :: int)"
proof
  have "a * (2 * n) \<le> 2 * x + n" using assms by (simp add: algebra_simps)
  then have "a * (2 * n) div (2 * n) \<le> (2 * x + n) div (2 * n)" using assms(1) by (intro zdiv_mono1) auto
  then show "a \<le> (2 * x + n) div (2 * n)" using assms(1) by simp
  have "2 * x + n \<le> n + b * (2 * n)" using assms by (simp add: algebra_simps)
  then have "(2 * x + n) div (2 * n) \<le> (n + b * (2 * n)) div (2 * n)" using assms(1) by (intro zdiv_mono1) auto
  also have "\<dots> = b" using assms(1) by simp
  finally show "(2 * x + n) div (2 * n) \<le> b" .
qed

lemma fold_min_bounds: "fold min ds (a :: int) \<le> a \<and> list_all (\<lambda>d. fold min ds a \<le> d) ds"
proof (induction ds arbitrary: a)
  case (Cons d ds)
  have "fold min ds (min d a) \<le> min d a" using Cons.IH by blast
  then show ?case using Cons.IH [of "min d a"] by simp
qed simp

lemma fold_max_bounds: "(a :: int) \<le> fold max ds a \<and> list_all (\<lambda>d. d \<le> fold max ds a) ds"
proof (induction ds arbitrary: a)
  case (Cons d ds)
  have "max d a \<le> fold max ds (max d a)" using Cons.IH by blast
  then show ?case using Cons.IH [of "max d a"] by simp
qed simp

text \<open>The average lies between the extremes when the samples counted are those measured.\<close>

lemma average_between:
  assumes "pair_figures s" and "pp_samples (m_rcv s) = int (length (m_used s))" and "m_used s \<noteq> []"
  shows "\<exists>a. pair_average (m_rcv s) = Some a \<and> pp_mindiff (m_rcv s) \<le> a \<and> a \<le> pp_maxdiff (m_rcv s)"
proof -
  let ?p = "m_rcv s" and ?n = "int (length (m_used s))"
  have n: "0 < ?n" using assms(3) by simp
  have "list_all (\<lambda>d. pp_mindiff ?p \<le> d \<and> d \<le> pp_maxdiff ?p) (used_usec s)"
    using assms(1) fold_min_bounds [of "used_usec s"] fold_max_bounds [where ds = "used_usec s"]
    by (auto simp: pair_figures_def list_all_iff)
  then have "pp_mindiff ?p * ?n \<le> pp_sumdiff ?p \<and> pp_sumdiff ?p \<le> pp_maxdiff ?p * ?n"
    using sum_list_bounds [of _ _ "used_usec s"] assms(1) by (auto simp: pair_figures_def)
  then show ?thesis
    using rounded_between [OF n] assms(2) n by (auto simp: pair_average_def)
qed

lemma s32_id: "- 2147483648 \<le> x \<Longrightarrow> x < 2147483648 \<Longrightarrow> s32 x = x"
  by (simp add: signed_take_bit_int_eq_self)

section \<open>From the options to the threads\<close>

text \<open>The CPU of a pair exists, or is left to the kernel.\<close>

lemma pair_cpu_range:
  assumes "\<not> bad_affinity max_cpus q" and "0 < max_cpus" and "0 \<le> i"
  shows "pair_cpu max_cpus q i = - 1 \<or> 0 \<le> pair_cpu max_cpus q i \<and> pair_cpu max_cpus q i < max_cpus"
  using assms by (auto simp: pair_cpu_def bad_affinity_def signed_modulo_int_def sgn_if split: aff_mode.split)

text \<open>Two threads as they are created, before the first operation.\<close>

definition pair_of :: "(nat \<Rightarrow> nat) \<Rightarrow> (pair_params \<Rightarrow> bool) \<Rightarrow> pair_params \<times> pair_params \<Rightarrow> pair" where
  "pair_of chan getcpu rs =
     \<lparr>m_snd = snd rs, m_rcv = fst rs, m_getcpu = (\<lambda>r. case r of Sender \<Rightarrow> getcpu (snd rs) | Receiver \<Rightarrow> getcpu (fst rs)),
      m_chan = chan, m_masked = (\<lambda>_. False), m_killed = False, m_pc = (\<lambda>_. 0), m_stamps = [], m_used = []\<rparr>"

lemma pair_of_start: "pair_start chan (pair_of chan getcpu (pair_params_init mc q i p iv, pair_params_init mc q i p iv))"
  by (simp add: pair_start_def pair_of_def pair_params_init_def)

section \<open>Passing a number on the command line\<close>

text \<open>
  With \<open>-f\<close> the programs start themselves again for each thread, with the option text \<open>"-fr%d"\<close> or \<open>"-fs%d"\<close>;
  the started program reads its role and number from it. \<open>dec\<close> is the format \<open>%d\<close>.
\<close>

text \<open>The option text and what the parser makes of its argument (the part behind \<open>-f\<close>).\<close>

definition fork_option :: "role \<Rightarrow> nat \<Rightarrow> string" where
  "fork_option r i = ''-f'' @ (case r of Sender \<Rightarrow> ''s'' | Receiver \<Rightarrow> ''r'') @ dec i"

definition set_fork_opt :: "string option \<Rightarrow> pair_opts \<Rightarrow> pair_opts" where
  "set_fork_opt arg q =
     (case arg of
        None \<Rightarrow> q\<lparr>q_mustfork := True\<rparr>
      | Some a \<Rightarrow>
          q\<lparr>q_wasforked := True,
            q_wasforked_sender :=
              (if take 1 a = ''s'' then 1 else if take 1 a = ''r'' then 0 else q_wasforked_sender q),
            q_wasforked_threadno := atoi (drop 1 a)\<rparr>)"

lemma fork_round_trip:
  assumes "i < 2147483648"
  shows "set_fork_opt (Some (drop 2 (fork_option r i))) q =
    q\<lparr>q_wasforked := True, q_wasforked_sender := (case r of Sender \<Rightarrow> 1 | Receiver \<Rightarrow> 0), q_wasforked_threadno := int i\<rparr>"
  using assms by (cases r) (simp_all add: set_fork_opt_def fork_option_def atoi_dec)

lemma fork_option_fits: "i < 1000 \<Longrightarrow> length (fork_option r i) + 1 \<le> 7"
  using length_dec [of i 3] by (cases r) (simp_all add: fork_option_def)

end
