(* ===== verification/PtSema.thy ===== *)
theory PtSema
  imports PairMain
begin

text \<open>
  \<^verbatim>\<open>src/ptsematest/ptsematest.c\<close>: the latency of handing a mutex over. Lock 0 is \<open>testmutex\<close>, locked at the
  start, lock 1 is \<open>syncmutex\<close>, free at the start. The mutexes are used as binary semaphores: each is locked
  by one thread and unlocked by the other.
\<close>

section \<open>The threads\<close>

text \<open>
  The receiver's branch \<open>if (!first)\<close> is never taken: \<open>first\<close> is 1 from the start and only set to 1.
\<close>

definition pts_sender :: "pair_op list" where
  "pts_sender = [Test, Take 1, Stamp, Put 0, Count, Limit, GetCpu, Loop, Stopped]"

definition pts_receiver :: "pair_op list" where
  "pts_receiver = [Test, Take 0, Received, Count, Measure, Break, Limit, GetCpu, Pause, Put 1, Loop, Stopped]"

fun pts_prog :: pair_prog where
  "pts_prog Sender = pts_sender"
| "pts_prog Receiver = pts_receiver"

definition pts_chan :: "nat \<Rightarrow> nat" where
  "pts_chan = (\<lambda>_. 0)(1 := 1)"

text \<open>Whether the thread follows the CPU it runs on (\<open>mustgetcpu\<close>).\<close>

definition pts_getcpu :: "pair_params \<Rightarrow> bool" where
  "pts_getcpu p \<longleftrightarrow> pp_cpu p = - 1"

lemma pts_sender_ops [simp]:
  "pts_sender ! 0 = Test" "pts_sender ! 1 = Take 1" "pts_sender ! Suc 0 = Take 1" "pts_sender ! 2 = Stamp" "pts_sender ! 3 = Put 0"
  "pts_sender ! 4 = Count" "pts_sender ! 5 = Limit" "pts_sender ! 6 = GetCpu" "pts_sender ! 7 = Loop"
  "pts_sender ! 8 = Stopped" "length pts_sender = 9" "behind_loop pts_sender = 8"
  by (simp_all add: pts_sender_def behind_loop_def)

lemma pts_receiver_ops [simp]:
  "pts_receiver ! 0 = Test" "pts_receiver ! 1 = Take 0" "pts_receiver ! Suc 0 = Take 0" "pts_receiver ! 2 = Received"
  "pts_receiver ! 3 = Count" "pts_receiver ! 4 = Measure" "pts_receiver ! 5 = Break" "pts_receiver ! 6 = Limit"
  "pts_receiver ! 7 = GetCpu" "pts_receiver ! 8 = Pause" "pts_receiver ! 9 = Put 1" "pts_receiver ! 10 = Loop"
  "pts_receiver ! 11 = Stopped" "length pts_receiver = 12" "behind_loop pts_receiver = 11"
  by (simp_all add: pts_receiver_def behind_loop_def)

section \<open>One token\<close>

text \<open>
  Exactly one of four things is the case: \<open>syncmutex\<close> is free, the sender has it and has not passed it on,
  \<open>testmutex\<close> is free, or the receiver is between taking that and unlocking the other.
\<close>

definition pts_token :: "pair \<Rightarrow> nat" where
  "pts_token s =
     m_chan s 1 + (if m_pc s Sender \<in> {2, 3} then 1 else 0) + m_chan s 0 +
     (if m_pc s Receiver \<in> {2, 3, 4, 5, 6, 7, 8, 9} then 1 else 0)"

definition pts_open :: "pair \<Rightarrow> bool" where
  "pts_open s \<longleftrightarrow> m_pc s Sender = 3 \<or> m_chan s 0 = 1 \<or> m_pc s Receiver \<in> {2, 3, 4}"

definition pts_places :: "pair \<Rightarrow> bool" where
  "pts_places s \<longleftrightarrow> m_pc s Sender \<le> 9 \<and> m_pc s Receiver \<le> 12 \<and> pts_token s = 1"

definition pts_history :: "pair \<Rightarrow> bool" where
  "pts_history s \<longleftrightarrow> length (m_stamps s) = length (m_used s) + (if pts_open s then 1 else 0) \<and>
     (m_stamps s = [] \<or> last (m_stamps s) = pp_unblocked (m_snd s))"

definition pts_inv :: "pair \<Rightarrow> bool" where
  "pts_inv s \<longleftrightarrow> pts_places s \<and> pts_history s \<and> pair_figures s"

lemma pts_start: "pair_start pts_chan s \<Longrightarrow> pts_inv s"
  by (frule start_figures)
    (auto simp: pts_inv_def pts_places_def pts_history_def pair_start_def pts_token_def pts_open_def pts_chan_def)

lemma pts_roles: "pair_roles pts_prog"
  by (simp add: pair_roles_def pts_sender_def pts_receiver_def)

lemma pts_place:
  assumes "pair_enabled kind pts_prog s r"
  shows "m_pc s r \<in> (case r of Sender \<Rightarrow> {0, 1, 2, 3, 4, 5, 6, 7, 8} | Receiver \<Rightarrow> {0, 1, 2, 3, 4, 5, 6, 7, 8, 9, 10, 11})"
  using assms by (cases r; simp only: role.case; intro place9 place12; simp add: pair_enabled_def)

lemma pts_places_step:
  assumes "pts_places s" and "pair_enabled Mutexes pts_prog s r"
  shows "pts_places (pair_exec Mutexes pts_prog r t cpu s)"
  using pts_place [OF assms(2)] assms
  by (cases r; simp only: role.case, elim insertE emptyE) (auto simp: pts_places_def pts_token_def pair_eval split: if_splits)

lemma pts_history_step:
  assumes "pts_places s" and "pts_history s" and "pair_enabled Mutexes pts_prog s r"
  shows "pts_history (pair_exec Mutexes pts_prog r t cpu s)"
  using pts_place [OF assms(3)] assms
  by (cases r; simp only: role.case, elim insertE emptyE)
    (auto simp: pts_history_def pts_places_def pts_token_def pts_open_def pair_eval split: if_splits)

lemma pts_no_timeout: "m_pc s r < length (pts_prog r) \<Longrightarrow> pair_at pts_prog s r \<noteq> TimedTake c"
  using nth_mem [of "m_pc s r" "pts_prog r"]
  by (cases r) (auto simp: pair_at_def pts_sender_def pts_receiver_def)

lemma pts_view_step:
  assumes "pts_places s" and "pts_history s" and "pair_enabled Mutexes pts_prog s r"
  shows "pair_view (pair_exec Mutexes pts_prog r t cpu s) = pair_view s \<or>
    exch_step (pair_view s) (pair_view (pair_exec Mutexes pts_prog r t cpu s))"
  using pts_place [OF assms(3)] assms
  by (cases r; simp only: role.case, elim insertE emptyE)
    (auto simp: pair_view_def pts_history_def pts_places_def pts_token_def pts_open_def pair_eval
      intro: exch_stamp exch_use_last split: if_splits)

interpretation pts: exchange "pair_start pts_chan" "pair_step Mutexes pts_prog" pts_inv pair_view
proof
  show "pts_inv s" if "pair_start pts_chan s" for s using that by (rule pts_start)
  show "pts_inv s'" if "pts_inv s" "pair_step Mutexes pts_prog s s'" for s s'
    using that(2)
  proof cases
    case (pair_run r t cpu)
    then show ?thesis
      using that pts_places_step pts_history_step step_figures [OF _ pts_roles that(2)] by (auto simp: pts_inv_def)
  qed (use pts_no_timeout in blast)
  show "pair_view s = ([], [])" if "pair_start pts_chan s" for s
    using that by (simp add: pair_view_def pair_start_def)
  show "pair_view s' = pair_view s \<or> exch_step (pair_view s) (pair_view s')"
    if "pts_inv s" "pair_step Mutexes pts_prog s s'" for s s'
    using that(2)
  proof cases
    case (pair_run r t cpu)
    then show ?thesis using that(1) pts_view_step by (auto simp: pts_inv_def)
  qed (use pts_no_timeout in blast)
qed


definition ex_pts_run :: "(role \<times> timeval) list" where
  "ex_pts_run =
     replicate 4 (Sender, tv 5 100) @ replicate 10 (Receiver, tv 5 130) @ replicate 4 (Sender, tv 5 150) @
     replicate 8 (Sender, tv 5 990) @ replicate 8 (Receiver, tv 6 10)"

definition ex_pts :: pair where
  "ex_pts = the (pair_go Mutexes pts_prog ex_pts_run (ex_pair pts_chan 0))"

lemma ex_pts_reach: "reach (pair_start pts_chan) (pair_step Mutexes pts_prog) ex_pts"
  unfolding ex_pts_def by (rule pair_go_reach [OF ex_pair_reach pair_go_the]) code_simp


section \<open>Options\<close>

definition pts_option :: "int \<Rightarrow> pair_option \<Rightarrow> pair_opts \<Rightarrow> pair_opts" where
  "pts_option max_cpus opt q =
     (case opt of (c, arg, nxt) \<Rightarrow>
        if c = CHR ''a'' then (if q_smp q then q else set_affinity_opt arg nxt q)
        else if c = CHR ''b'' then q\<lparr>q_tracelimit := arg_int arg\<rparr>
        else if c = CHR ''d'' then q\<lparr>q_distance := arg_int arg\<rparr>
        else if c = CHR ''i'' then q\<lparr>q_interval := arg_int arg\<rparr>
        else if c = CHR ''l'' then q\<lparr>q_max_cycles := arg_int arg\<rparr>
        else if c = CHR ''p'' then q\<lparr>q_priority := arg_int arg\<rparr>
        else if c = CHR ''S'' then q\<lparr>q_smp := True, q_num_threads := max_cpus, q_setaffinity := AffinityUseall\<rparr>
        else if c = CHR ''t'' then (if q_smp q then q else set_threads_opt max_cpus arg nxt q)
        else if c = CHR ''?'' then q\<lparr>q_error := True\<rparr>
        else q)"

text \<open>The checks behind the loop; \<open>None\<close>: the help text and exit status 1.\<close>

definition pts_options :: "int \<Rightarrow> pair_option list \<Rightarrow> pair_opts option" where
  "pts_options max_cpus as =
     (let q = fold (pts_option max_cpus) as pair_defaults;
          err = (q_error q \<or> bad_affinity max_cpus q \<or> q_num_threads q < 0 \<or> 255 < q_num_threads q \<or>
                 q_priority q < 0 \<or> 99 < q_priority q \<or> q_num_threads q < 1)
      in if err then None
         else Some (if q_priority q \<noteq> 0 \<and> q_smp q then q\<lparr>q_sameprio := True\<rparr> else q))"

section \<open>The pairs\<close>

text \<open>
  The loop that creates receiver \<open>i\<close> and, as a copy of it, sender \<open>i\<close>; the global variables \<open>priority\<close> and
  \<open>interval\<close> go on from pair to pair.
\<close>

fun pts_create :: "int \<Rightarrow> pair_opts \<Rightarrow> nat \<Rightarrow> int \<Rightarrow> int \<Rightarrow> int \<Rightarrow> (pair_params \<times> pair_params) list" where
  "pts_create max_cpus q 0 i priority interval = []"
| "pts_create max_cpus q (Suc n) i priority interval =
     (let r = pair_params_init max_cpus q i priority interval
      in (r, r) # pts_create max_cpus q n (i + 1)
           (if 1 < priority \<and> \<not> q_sameprio q then priority - 1 else priority) (s32 (interval + q_distance q)))"

section \<open>The display and the end\<close>

text \<open>One turn of the loop of \<open>main\<close>: whether it is to stop, and what is printed; \<open>oldsamples\<close> stays 1.\<close>

definition pts_display :: "bool \<Rightarrow> (pair_params \<times> pair_params) list \<Rightarrow> bool \<times> pair_line list" where
  "pts_display shut pairs =
     (let shut' = (shut \<or> list_ex (\<lambda>(r, s). pp_shutdown r \<or> pp_shutdown s) pairs)
      in (shut',
          if shut' \<or> list_ex (\<lambda>(r, s). 1 < pp_samples r) (take 1 pairs)
          then map (\<lambda>(i, rs). pair_head_line i rs) (numbered pairs) @ map (\<lambda>(i, r, s). pair_stat_line i r) (numbered pairs)
          else []))"

datatype pair_stop = Unlock nat int | KillThread role int | DestroyMutex nat int

definition pts_stop :: "(pair_params \<times> pair_params) list \<Rightarrow> (pair_params \<times> pair_params) list \<times> pair_stop list" where
  "pts_stop pairs =
     (map (\<lambda>(r, s). (r\<lparr>pp_shutdown := True\<rparr>, s\<lparr>pp_shutdown := True\<rparr>)) pairs,
      concat (map (\<lambda>(i, _). [Unlock 0 i, Unlock 1 i]) (numbered pairs)) @
      concat (map (\<lambda>(i, r, s). (if pp_stopped r then [] else [KillThread Receiver i]) @
        (if pp_stopped s then [] else [KillThread Sender i])) (numbered pairs)) @
      concat (map (\<lambda>(i, _). [DestroyMutex 0 i, DestroyMutex 1 i]) (numbered pairs)))"

section \<open>What the options and the creation give\<close>

lemma pts_create_length [simp]: "length (pts_create max_cpus q n i p iv) = n"
  by (induction n arbitrary: i p iv) (simp_all add: Let_def)

lemma pts_create_nth:
  "k < n \<Longrightarrow> \<exists>iv'. pts_create max_cpus q n i p iv ! k =
     (let r = pair_params_init max_cpus q (i + int k) (if q_sameprio q \<or> p \<le> 1 then p else max 1 (p - int k)) iv' in (r, r))"
proof (induction n arbitrary: i p iv k)
  case (Suc n)
  show ?case
  proof (cases k)
    case 0
    then show ?thesis by (auto simp: Let_def intro!: exI [of _ iv])
  next
    case (Suc k')
    let ?p = "if 1 < p \<and> \<not> q_sameprio q then p - 1 else p"
    obtain iv' where "pts_create max_cpus q n (i + 1) ?p (s32 (iv + q_distance q)) ! k' =
        (let r = pair_params_init max_cpus q (i + 1 + int k') (if q_sameprio q \<or> ?p \<le> 1 then ?p else max 1 (?p - int k')) iv'
         in (r, r))"
      using Suc.IH [of k' "i + 1" ?p] Suc.prems Suc by auto
    moreover have "(if q_sameprio q \<or> ?p \<le> 1 then ?p else max 1 (?p - int k')) =
        (if q_sameprio q \<or> p \<le> 1 then p else max 1 (p - int k))"
      using Suc by auto
    ultimately show ?thesis using Suc by (auto simp: Let_def algebra_simps intro!: exI [of _ iv'])
  qed
qed simp

lemma pts_options_some:
  assumes "pts_options max_cpus as = Some q"
  shows "\<not> bad_affinity max_cpus q \<and> 1 \<le> q_num_threads q \<and> q_num_threads q \<le> 255 \<and> 0 \<le> q_priority q \<and> q_priority q \<le> 99"
  using assms by (auto simp: pts_options_def Let_def bad_affinity_def split: if_splits)

text \<open>
  C19: a command line that ptsematest accepts gives between 1 and 255 pairs; each is in the start state of the
  exchange, on a CPU that exists or on any, and its priority is the given one or lies between that and 1:
  a test with real-time priority has no pair without.
\<close>

theorem ptsematest_creates_pairs:
  assumes "pts_options max_cpus as = Some q" and "0 < max_cpus"
  defines "pairs \<equiv> pts_create max_cpus q (nat (q_num_threads q)) 0 (q_priority q) (q_interval q)"
  shows "1 \<le> length pairs \<and> length pairs \<le> 255 \<and>
    list_all (\<lambda>rs. pair_start pts_chan (pair_of pts_chan pts_getcpu rs) \<and>
      (pp_cpu (fst rs) = - 1 \<or> 0 \<le> pp_cpu (fst rs) \<and> pp_cpu (fst rs) < max_cpus) \<and>
      min 1 (q_priority q) \<le> pp_priority (fst rs) \<and> pp_priority (fst rs) \<le> q_priority q) pairs"
proof -
  have o: "\<not> bad_affinity max_cpus q" "1 \<le> q_num_threads q" "q_num_threads q \<le> 255" "0 \<le> q_priority q"
    using pts_options_some [OF assms(1)] by simp_all
  have "pair_start pts_chan (pair_of pts_chan pts_getcpu (pairs ! k)) \<and>
      (pp_cpu (fst (pairs ! k)) = - 1 \<or> 0 \<le> pp_cpu (fst (pairs ! k)) \<and> pp_cpu (fst (pairs ! k)) < max_cpus) \<and>
      min 1 (q_priority q) \<le> pp_priority (fst (pairs ! k)) \<and> pp_priority (fst (pairs ! k)) \<le> q_priority q"
    if "k < length pairs" for k
  proof -
    have k: "k < nat (q_num_threads q)" using that by (simp add: pairs_def)
    obtain iv where "pairs ! k = (let r = pair_params_init max_cpus q (0 + int k)
        (if q_sameprio q \<or> q_priority q \<le> 1 then q_priority q else max 1 (q_priority q - int k)) iv in (r, r))"
      unfolding pairs_def using pts_create_nth [OF k] by blast
    then show ?thesis
      using pair_cpu_range [OF o(1) assms(2), of "int k"] o(4) pair_of_start
      by (auto simp: Let_def pair_params_init_def split: if_splits)
  qed
  moreover have "1 \<le> length pairs \<and> length pairs \<le> 255" using o by (simp add: pairs_def) linarith
  ultimately show ?thesis by (simp add: list_all_length)
qed

definition ex_pts_opts :: pair_opts where
  "ex_pts_opts = the (pts_options 4 [(CHR ''S'', None, None), (CHR ''p'', Some ''80'', None)])"

lemma ex_pts_opts: "pts_options 4 [(CHR ''S'', None, None), (CHR ''p'', Some ''80'', None)] = Some ex_pts_opts"
proof -
  have "pts_options 4 [(CHR ''S'', None, None), (CHR ''p'', Some ''80'', None)] \<noteq> None" by code_simp
  then show ?thesis by (auto simp: ex_pts_opts_def)
qed

theorem ptsematest_creates_pairs_witness:
  "(let pairs = pts_create 4 ex_pts_opts (nat (q_num_threads ex_pts_opts)) 0 (q_priority ex_pts_opts) (q_interval ex_pts_opts)
    in length pairs \<le> 255 \<and> map (pp_priority \<circ> fst) pairs = [80, 80, 80, 80] \<and> map (pp_cpu \<circ> fst) pairs = [0, 1, 2, 3])"
proof -
  have "length (pts_create 4 ex_pts_opts (nat (q_num_threads ex_pts_opts)) 0 (q_priority ex_pts_opts) (q_interval ex_pts_opts)) \<le> 255"
    using ptsematest_creates_pairs [OF ex_pts_opts] by simp
  moreover have "map (pp_priority \<circ> fst) (pts_create 4 ex_pts_opts (nat (q_num_threads ex_pts_opts)) 0 (q_priority ex_pts_opts)
      (q_interval ex_pts_opts)) = [80, 80, 80, 80]" by code_simp
  moreover have "map (pp_cpu \<circ> fst) (pts_create 4 ex_pts_opts (nat (q_num_threads ex_pts_opts)) 0 (q_priority ex_pts_opts)
      (q_interval ex_pts_opts)) = [0, 1, 2, 3]" by code_simp
  ultimately show ?thesis by (simp add: Let_def)
qed

end
