(* ===== verification/PmqTest.thy ===== *)
theory PmqTest
  imports PairMain
begin

text \<open>
  \<^verbatim>\<open>src/pmqtest/pmqtest.c\<close>: the latency of a POSIX message queue. Number 0 is the queue of the test message,
  number 1 that of the synchronisation message; both hold one message. The contents of the messages never
  change, so the comparisons of what was received are left out, as are failures of the calls
  other than a time-out.
\<close>

section \<open>The threads\<close>

text \<open>
  The argument is whether \<open>--timeout\<close> is given. The sender then receives twice: the plain \<open>mq_receive\<close> is not the
  alternative of \<open>mq_timedreceive\<close> but follows it.
\<close>

definition pmq_sender :: "bool \<Rightarrow> pair_op list" where
  "pmq_sender timeout =
     [Test, Pause, Stamp, Put 0, Count, Limit, GetCpu] @ (if timeout then [TimedTake 1] else []) @
     [Take 1, Loop, Stopped]"

definition pmq_receiver :: "bool \<Rightarrow> pair_op list" where
  "pmq_receiver timeout =
     [Test, if timeout then TimedTake 0 else Take 0, Received, Count, Measure, Break, Limit, GetCpu, Pause, Put 1,
      Loop, Stopped]"

fun pmq_prog :: "bool \<Rightarrow> pair_prog" where
  "pmq_prog timeout Sender = pmq_sender timeout"
| "pmq_prog timeout Receiver = pmq_receiver timeout"

definition pmq_chan :: "nat \<Rightarrow> nat" where
  "pmq_chan = (\<lambda>_. 0)"

definition pmq_getcpu :: "pair_params \<Rightarrow> bool" where
  "pmq_getcpu p \<longleftrightarrow> pp_cpu p = - 1"

lemma pmq_sender_ops [simp]:
  "pmq_sender b ! 0 = Test" "pmq_sender b ! 1 = Pause" "pmq_sender b ! Suc 0 = Pause" "pmq_sender b ! 2 = Stamp"
  "pmq_sender b ! 3 = Put 0" "pmq_sender b ! 4 = Count" "pmq_sender b ! 5 = Limit" "pmq_sender b ! 6 = GetCpu"
  by (simp_all add: pmq_sender_def)

lemma pmq_sender_plain [simp]:
  "pmq_sender False ! 7 = Take 1" "pmq_sender False ! 8 = Loop" "pmq_sender False ! 9 = Stopped"
  "length (pmq_sender False) = 10" "behind_loop (pmq_sender False) = 9"
  by (simp_all add: pmq_sender_def behind_loop_def)

lemma pmq_sender_timed [simp]:
  "pmq_sender True ! 7 = TimedTake 1" "pmq_sender True ! 8 = Take 1" "pmq_sender True ! 9 = Loop" "pmq_sender True ! 10 = Stopped"
  "length (pmq_sender True) = 11" "behind_loop (pmq_sender True) = 10"
  by (simp_all add: pmq_sender_def behind_loop_def)

lemma pmq_receiver_ops [simp]:
  "pmq_receiver b ! 0 = Test" "pmq_receiver b ! 1 = (if b then TimedTake 0 else Take 0)"
  "pmq_receiver b ! Suc 0 = (if b then TimedTake 0 else Take 0)" "pmq_receiver b ! 2 = Received"
  "pmq_receiver b ! 3 = Count" "pmq_receiver b ! 4 = Measure" "pmq_receiver b ! 5 = Break" "pmq_receiver b ! 6 = Limit"
  "pmq_receiver b ! 7 = GetCpu" "pmq_receiver b ! 8 = Pause" "pmq_receiver b ! 9 = Put 1" "pmq_receiver b ! 10 = Loop"
  "pmq_receiver b ! 11 = Stopped" "length (pmq_receiver b) = 12" "behind_loop (pmq_receiver b) = 11"
  by (simp_all add: pmq_receiver_def behind_loop_def)

section \<open>One token\<close>

definition pmq_receiving :: "pair \<Rightarrow> bool" where
  "pmq_receiving s \<longleftrightarrow> m_pc s Receiver \<in> {2, 3, 4, 5, 6, 7, 8, 9}"

definition pmq_token :: "nat set \<Rightarrow> pair \<Rightarrow> nat" where
  "pmq_token places s =
     (if m_pc s Sender \<in> places then 1 else 0) + m_chan s 0 + (if pmq_receiving s then 1 else 0) + m_chan s 1"

definition pmq_open :: "pair \<Rightarrow> bool" where
  "pmq_open s \<longleftrightarrow> m_pc s Sender = 3 \<or> m_chan s 0 = 1 \<or> m_pc s Receiver \<in> {2, 3, 4}"

definition pmq_history :: "pair \<Rightarrow> bool" where
  "pmq_history s \<longleftrightarrow> length (m_stamps s) = length (m_used s) + (if pmq_open s then 1 else 0) \<and>
     (m_stamps s = [] \<or> last (m_stamps s) = pp_unblocked (m_snd s))"

lemma pmq_roles: "pair_roles (pmq_prog b)"
  by (simp add: pair_roles_def pmq_sender_def pmq_receiver_def)

subsection \<open>Without time-outs\<close>

definition pmq_places :: "pair \<Rightarrow> bool" where
  "pmq_places s \<longleftrightarrow> m_pc s Sender \<le> 10 \<and> m_pc s Receiver \<le> 12 \<and> pmq_token {0, 1, 2, 3, 8, 9, 10} s = 1"

definition pmq_inv :: "pair \<Rightarrow> bool" where
  "pmq_inv s \<longleftrightarrow> pmq_places s \<and> pmq_history s \<and> pair_figures s"

lemma pmq_start: "pair_start pmq_chan s \<Longrightarrow> pmq_inv s"
  by (frule start_figures)
    (auto simp: pmq_inv_def pmq_places_def pmq_history_def pair_start_def pmq_token_def pmq_open_def pmq_receiving_def pmq_chan_def)

lemma pmq_place:
  assumes "pair_enabled kind (pmq_prog False) s r"
  shows "m_pc s r \<in> (case r of Sender \<Rightarrow> {0, 1, 2, 3, 4, 5, 6, 7, 8, 9} | Receiver \<Rightarrow> {0, 1, 2, 3, 4, 5, 6, 7, 8, 9, 10, 11})"
  using assms by (cases r; simp only: role.case; intro place10 place12; simp add: pair_enabled_def)

lemmas pmq_parts = pmq_places_def pmq_token_def pmq_receiving_def pmq_history_def pmq_open_def

lemma pmq_places_step:
  assumes "pmq_places s" and "pair_enabled Queues (pmq_prog False) s r"
  shows "pmq_places (pair_exec Queues (pmq_prog False) r t cpu s)"
  using pmq_place [OF assms(2)] assms
  by (cases r; simp only: role.case, elim insertE emptyE) (auto simp: pmq_parts pair_eval split: if_splits)

lemma pmq_history_step:
  assumes "pmq_places s" and "pmq_history s" and "pair_enabled Queues (pmq_prog False) s r"
  shows "pmq_history (pair_exec Queues (pmq_prog False) r t cpu s)"
  using pmq_place [OF assms(3)] assms
  by (cases r; simp only: role.case, elim insertE emptyE) (auto simp: pmq_parts pair_eval split: if_splits)

lemma pmq_no_timeout: "m_pc s r < length (pmq_prog False r) \<Longrightarrow> pair_at (pmq_prog False) s r \<noteq> TimedTake c"
  using nth_mem [of "m_pc s r" "pmq_prog False r"]
  by (cases r) (auto simp: pair_at_def pmq_sender_def pmq_receiver_def)

lemma pmq_view_step:
  assumes "pmq_places s" and "pmq_history s" and "pair_enabled Queues (pmq_prog False) s r"
  shows "pair_view (pair_exec Queues (pmq_prog False) r t cpu s) = pair_view s \<or>
    exch_step (pair_view s) (pair_view (pair_exec Queues (pmq_prog False) r t cpu s))"
  using pmq_place [OF assms(3)] assms
  by (cases r; simp only: role.case, elim insertE emptyE)
    (auto simp: pair_view_def pmq_parts pair_eval intro: exch_stamp exch_use_last split: if_splits)

interpretation pmq: exchange "pair_start pmq_chan" "pair_step Queues (pmq_prog False)" pmq_inv pair_view
proof
  show "pmq_inv s" if "pair_start pmq_chan s" for s using that by (rule pmq_start)
  show "pmq_inv s'" if "pmq_inv s" "pair_step Queues (pmq_prog False) s s'" for s s'
    using that(2)
  proof cases
    case (pair_run r t cpu)
    then show ?thesis
      using that pmq_places_step pmq_history_step step_figures [OF _ pmq_roles that(2)] by (auto simp: pmq_inv_def)
  qed (use pmq_no_timeout in blast)
  show "pair_view s = ([], [])" if "pair_start pmq_chan s" for s
    using that by (simp add: pair_view_def pair_start_def)
  show "pair_view s' = pair_view s \<or> exch_step (pair_view s) (pair_view s')"
    if "pmq_inv s" "pair_step Queues (pmq_prog False) s s'" for s s'
    using that(2)
  proof cases
    case (pair_run r t cpu)
    then show ?thesis using that(1) pmq_view_step by (auto simp: pmq_inv_def)
  qed (use pmq_no_timeout in blast)
qed


definition ex_pmq_run :: "(role \<times> timeval) list" where
  "ex_pmq_run =
     replicate 4 (Sender, tv 5 100) @ replicate 10 (Receiver, tv 5 130) @ replicate 5 (Sender, tv 5 150) @
     replicate 4 (Sender, tv 5 990) @ replicate 8 (Receiver, tv 6 10)"

definition ex_pmq :: pair where
  "ex_pmq = the (pair_go Queues (pmq_prog False) ex_pmq_run (ex_pair pmq_chan 0))"

lemma ex_pmq_reach: "reach (pair_start pmq_chan) (pair_step Queues (pmq_prog False)) ex_pmq"
  unfolding ex_pmq_def by (rule pair_go_reach [OF ex_pair_reach pair_go_the]) code_simp


subsection \<open>With time-outs\<close>

definition pmqt_inv :: "pair \<Rightarrow> bool" where
  "pmqt_inv s \<longleftrightarrow> m_pc s Sender \<le> 11 \<and> m_pc s Receiver \<le> 12 \<and> pmq_token {0, 1, 2, 3, 8, 9, 10, 11} s = 1 \<and>
     pmq_history s \<and>
     (m_stamps s = [] \<and> m_pc s Sender \<in> {0, 1, 2, 10, 11} \<or>
      length (m_stamps s) = 1 \<and> m_pc s Sender \<in> {3, 4, 5, 6, 7, 8})"

lemma pmqt_place:
  assumes "pair_enabled kind (pmq_prog True) s r"
  shows "m_pc s r \<in> (case r of Sender \<Rightarrow> {0, 1, 2, 3, 4, 5, 6, 7, 8, 9, 10} | Receiver \<Rightarrow> {0, 1, 2, 3, 4, 5, 6, 7, 8, 9, 10, 11})"
  using assms by (cases r; simp only: role.case; intro place11 place12; simp add: pair_enabled_def)

lemma pmqt_step:
  assumes "pmqt_inv s" and "pair_enabled Queues (pmq_prog True) s r"
  shows "pmqt_inv (pair_exec Queues (pmq_prog True) r t cpu s)"
  using pmqt_place [OF assms(2)] assms
  by (cases r; simp only: role.case, elim insertE emptyE)
    (auto simp: pmqt_inv_def pmq_token_def pmq_receiving_def pmq_history_def pmq_open_def pair_eval split: if_splits)

interpretation pmqt: machine "pair_start pmq_chan" "pair_quiet_step Queues (pmq_prog True)" pmqt_inv
proof
  show "pmqt_inv s" if "pair_start pmq_chan s" for s
    using that
    by (auto simp: pmqt_inv_def pmq_token_def pmq_receiving_def pmq_history_def pmq_open_def pair_start_def pmq_chan_def)
  show "pmqt_inv s'" if "pmqt_inv s" "pair_quiet_step Queues (pmq_prog True) s s'" for s s'
    using that(2,1) by cases (simp add: pmqt_step)
qed

text \<open>
  With \<open>--timeout\<close> pmqtest never gets beyond its first sample without a time-out: the sender, having
  received the receiver's only answer with its time limit, waits for a second one, and once it
  does so neither thread can go on other than by the receiver's time-out.
\<close>

theorem pmqtest_timeout_stalls:
  assumes "reach (pair_start pmq_chan) (pair_quiet_step Queues (pmq_prog True)) s"
  shows "length (m_used s) \<le> 1 \<and> (m_pc s Sender = 8 \<longrightarrow> \<not> pair_enabled Queues (pmq_prog True) s Sender) \<and>
    (m_pc s Sender = 8 \<and> m_pc s Receiver = 1 \<longrightarrow> \<not> pair_enabled Queues (pmq_prog True) s Receiver)"
proof -
  have "pmqt_inv s" using assms by (rule pmqt.reach_inv)
  then show ?thesis
    by (auto simp: pmqt_inv_def pmq_token_def pmq_history_def pair_enabled_def pair_at_def split: if_splits)
qed

definition ex_pmqt_run :: "(role \<times> timeval) list" where
  "ex_pmqt_run = replicate 7 (Sender, tv 5 100) @ replicate 11 (Receiver, tv 5 130) @ [(Sender, tv 5 140), (Receiver, tv 5 150)]"

definition ex_pmqt :: pair where
  "ex_pmqt = the (pair_go Queues (pmq_prog True) ex_pmqt_run (ex_pair pmq_chan 0))"

lemma ex_pmqt_reach: "reach (pair_start pmq_chan) (pair_quiet_step Queues (pmq_prog True)) ex_pmqt"
  unfolding ex_pmqt_def by (rule pair_go_reach_quiet [OF ex_pair_reach pair_go_the]) code_simp

theorem pmqtest_timeout_stalls_witness:
  "length (m_used ex_pmqt) = 1 \<and> m_pc ex_pmqt Sender = 8 \<and> m_pc ex_pmqt Receiver = 1 \<and>
   \<not> pair_enabled Queues (pmq_prog True) ex_pmqt Sender \<and> \<not> pair_enabled Queues (pmq_prog True) ex_pmqt Receiver"
proof -
  have "length (m_used ex_pmqt) = 1 \<and> m_pc ex_pmqt Sender = 8 \<and> m_pc ex_pmqt Receiver = 1" by code_simp
  then show ?thesis using pmqtest_timeout_stalls [OF ex_pmqt_reach] by simp
qed

section \<open>Options\<close>

definition pmq_option :: "int \<Rightarrow> pair_option \<Rightarrow> pair_opts \<Rightarrow> pair_opts" where
  "pmq_option max_cpus opt q =
     (case opt of (c, arg, nxt) \<Rightarrow>
        if c = CHR ''a'' then (if q_smp q then q else set_affinity_opt arg nxt q)
        else if c = CHR ''b'' then q\<lparr>q_tracelimit := arg_int arg\<rparr>
        else if c = CHR ''d'' then q\<lparr>q_distance := arg_int arg\<rparr>
        else if c = CHR ''f'' then q\<lparr>q_forcetimeout := arg_int arg\<rparr>
        else if c = CHR ''i'' then q\<lparr>q_interval := arg_int arg\<rparr>
        else if c = CHR ''l'' then q\<lparr>q_max_cycles := arg_int arg\<rparr>
        else if c = CHR ''p'' then q\<lparr>q_priority := arg_int arg\<rparr>
        else if c = CHR ''S'' then q\<lparr>q_smp := True, q_num_threads := max_cpus, q_setaffinity := AffinityUseall\<rparr>
        else if c = CHR ''t'' then (if q_smp q then q else set_threads_opt max_cpus arg nxt q)
        else if c = CHR ''T'' then q\<lparr>q_timeout := arg_int arg\<rparr>
        else if c = CHR ''?'' then q\<lparr>q_error := True\<rparr>
        else q)"

definition pmq_options :: "int \<Rightarrow> pair_option list \<Rightarrow> pair_opts option" where
  "pmq_options max_cpus as =
     (let q = fold (pmq_option max_cpus) as pair_defaults;
          err = (q_error q \<or> bad_affinity max_cpus q \<or> q_num_threads q < 0 \<or> 255 < q_num_threads q \<or>
                 q_priority q < 0 \<or> 99 < q_priority q \<or> q_num_threads q < 1 \<or>
                 q_forcetimeout q \<noteq> 0 \<and> q_timeout q = 0)
      in if err then None
         else Some (if q_priority q \<noteq> 0 \<and> q_smp q then q\<lparr>q_sameprio := True\<rparr> else q))"

section \<open>The pairs\<close>

text \<open>
  \<open>opens k\<close>: whether the k-th \<open>mq_open\<close> succeeds. At the first that fails \<open>main\<close> returns, with the threads of
  the pairs before that one running; the flag is False then.
\<close>

fun pmq_create ::
  "int \<Rightarrow> pair_opts \<Rightarrow> (int \<Rightarrow> bool) \<Rightarrow> nat \<Rightarrow> int \<Rightarrow> int \<Rightarrow> int \<Rightarrow> (pair_params \<times> pair_params) list \<times> bool"
where
  "pmq_create max_cpus q opens 0 i priority interval = ([], True)"
| "pmq_create max_cpus q opens (Suc n) i priority interval =
     (if \<not> opens (2 * i) \<or> \<not> opens (2 * i + 1) then ([], False)
      else let r = pair_params_init max_cpus q i priority interval;
               (rest, ok) = pmq_create max_cpus q opens n (i + 1)
                 (if 1 < priority \<and> \<not> q_sameprio q then priority - 1 else priority) (s32 (interval + q_distance q))
           in ((r, r) # rest, ok))"

section \<open>The display and the end\<close>

text \<open>
  The variables of the display loop, and one turn of it: the lines printed and whether the loop ends.
  \<open>error_lines\<close> is how many error texts were shown in this turn.
\<close>

record pmq_view =
  v_oldsamples :: int
  v_oldtimeoutcount :: int
  v_first :: bool
  v_errorlines :: int

definition pmq_view_init :: pmq_view where
  "pmq_view_init = \<lparr>v_oldsamples = 2147483647, v_oldtimeoutcount = 2147483647, v_first = True, v_errorlines = 0\<rparr>"

datatype pmq_line = PmqUp int | PmqLine pair_line

definition pmq_display ::
  "bool \<Rightarrow> int \<Rightarrow> (pair_params \<times> pair_params) list \<Rightarrow> pmq_view \<Rightarrow> pmq_line list \<times> pmq_view \<times> bool"
where
  "pmq_display shut error_lines pairs v =
     (let newsamples = (\<Sum>(r, s) \<leftarrow> pairs. pp_samples r);
          newtimeouts = (\<Sum>(r, s) \<leftarrow> pairs. pp_timeoutcount r);
          minsamples = fold min (map (\<lambda>(r, s). pp_samples r) pairs) 2147483647;
          show = (1 < minsamples \<and> (shut \<or> v_oldsamples v < newsamples \<or> v_oldtimeoutcount v < newtimeouts));
          lines =
            (if show then
               (if v_first v then [] else [PmqUp (2 * int (length pairs) + v_errorlines v)]) @
               map PmqLine
                 (concat (map (\<lambda>(i, r, s). [pair_head_line i (r, s), PairTimeouts (pp_timeoutcount r)]) (numbered pairs)) @
                  map (\<lambda>(i, r, s). pair_stat_line i r) (numbered pairs))
             else if minsamples < 1 then [PmqLine PairCollecting] else [])
      in (lines,
          v\<lparr>v_oldsamples := newsamples, v_oldtimeoutcount := newtimeouts,
            v_first := v_first v \<and> \<not> show, v_errorlines := v_errorlines v + (if show then error_lines else 0)\<rparr>,
          shut \<or> list_ex (\<lambda>(r, s). pp_shutdown r \<or> pp_shutdown s) pairs))"

datatype pmq_stop_op = PmqKill role int | MqClose nat int | MqUnlink nat int

definition pmq_stop :: "(pair_params \<times> pair_params) list \<Rightarrow> (pair_params \<times> pair_params) list \<times> pmq_stop_op list" where
  "pmq_stop pairs =
     (map (\<lambda>(r, s). (r\<lparr>pp_shutdown := True\<rparr>, s\<lparr>pp_shutdown := True\<rparr>)) pairs,
      concat (map (\<lambda>(i, r, s). (if pp_stopped r then [] else [PmqKill Receiver i]) @
        (if pp_stopped s then [] else [PmqKill Sender i])) (numbered pairs)) @
      concat (map (\<lambda>(i, _). [MqClose 1 i, MqUnlink 1 i, MqClose 0 i, MqUnlink 0 i]) (numbered pairs)))"

text \<open>
  Without progress nothing is repeated on the screen: a turn of the display that finds the counts of the turn before
  prints no figures, unless the test is being stopped.
\<close>

lemma pmq_display_quiet:
  assumes "pmq_display shut e pairs v = (ls, v', stop)"
    and "map (\<lambda>(r, s). (pp_samples r, pp_timeoutcount r)) pairs' = map (\<lambda>(r, s). (pp_samples r, pp_timeoutcount r)) pairs"
  shows "fst (pmq_display False e' pairs' v') \<in> {[], [PmqLine PairCollecting]}"
proof -
  have c: "map (\<lambda>(r, s). pp_samples r) pairs' = map (\<lambda>(r, s). pp_samples r) pairs"
    "map (\<lambda>(r, s). pp_timeoutcount r) pairs' = map (\<lambda>(r, s). pp_timeoutcount r) pairs"
    using arg_cong [OF assms(2), of "map fst"] arg_cong [OF assms(2), of "map snd"]
    by (simp_all add: case_prod_unfold comp_def)
  have "v_oldsamples v' = (\<Sum>(r, s) \<leftarrow> pairs. pp_samples r) \<and> v_oldtimeoutcount v' = (\<Sum>(r, s) \<leftarrow> pairs. pp_timeoutcount r)"
    using assms(1) by (auto simp: pmq_display_def Let_def)
  then show ?thesis by (simp add: pmq_display_def Let_def c)
qed

end
