(* ===== verification/SigWait.thy ===== *)
theory SigWait
  imports PairMain
begin

text \<open>
  \<^verbatim>\<open>src/sigwaittest/sigwaittest.c\<close>: the latency of a signal. Number 2 is \<open>SIGUSR2\<close>, which the sender sends and the
  receiver waits for, number 1 is \<open>SIGUSR1\<close>, with which it answers.
\<close>

section \<open>The threads\<close>

definition sw_sender :: "pair_op list" where
  "sw_sender = [Test, Mask, Stamp, Put 2, Count, Limit, GetCpu, Take 1, Loop, Stopped]"

definition sw_receiver :: "pair_op list" where
  "sw_receiver = [Test, Mask, Take 2, Received, Count, Limit, GetCpu, Measure, Break, Pause, Put 1, Loop, Stopped]"

fun sw_prog :: pair_prog where
  "sw_prog Sender = sw_sender"
| "sw_prog Receiver = sw_receiver"

definition sw_chan :: "nat \<Rightarrow> nat" where
  "sw_chan = (\<lambda>_. 0)"

text \<open>\<open>mustgetcpu\<close>, and the CPU of a thread that is bound to none when there is only one.\<close>

definition sw_getcpu :: "int \<Rightarrow> pair_params \<Rightarrow> bool" where
  "sw_getcpu max_cpus p \<longleftrightarrow> pp_cpu p = - 1 \<and> 1 < max_cpus"

definition sw_cpu :: "int \<Rightarrow> pair_params \<Rightarrow> int" where
  "sw_cpu max_cpus p = (if pp_cpu p \<noteq> - 1 then pp_cpu p else if 1 < max_cpus then - 1 else 0)"

lemma sw_sender_ops [simp]:
  "sw_sender ! 0 = Test" "sw_sender ! 1 = Mask" "sw_sender ! Suc 0 = Mask" "sw_sender ! 2 = Stamp" "sw_sender ! 3 = Put 2"
  "sw_sender ! 4 = Count" "sw_sender ! 5 = Limit" "sw_sender ! 6 = GetCpu" "sw_sender ! 7 = Take 1" "sw_sender ! 8 = Loop"
  "sw_sender ! 9 = Stopped" "length sw_sender = 10" "behind_loop sw_sender = 9"
  by (simp_all add: sw_sender_def behind_loop_def)

lemma sw_receiver_ops [simp]:
  "sw_receiver ! 0 = Test" "sw_receiver ! 1 = Mask" "sw_receiver ! Suc 0 = Mask" "sw_receiver ! 2 = Take 2"
  "sw_receiver ! 3 = Received" "sw_receiver ! 4 = Count" "sw_receiver ! 5 = Limit" "sw_receiver ! 6 = GetCpu"
  "sw_receiver ! 7 = Measure" "sw_receiver ! 8 = Break" "sw_receiver ! 9 = Pause" "sw_receiver ! 10 = Put 1"
  "sw_receiver ! 11 = Loop" "sw_receiver ! 12 = Stopped" "length sw_receiver = 13" "behind_loop sw_receiver = 12"
  by (simp_all add: sw_receiver_def behind_loop_def)

section \<open>One token\<close>

definition sw_token :: "pair \<Rightarrow> nat" where
  "sw_token s =
     (if m_pc s Sender \<in> {0, 1, 2, 3, 8, 9, 10} then 1 else 0) + m_chan s 2 +
     (if m_pc s Receiver \<in> {3, 4, 5, 6, 7, 8, 9, 10} then 1 else 0) + m_chan s 1"

definition sw_open :: "pair \<Rightarrow> bool" where
  "sw_open s \<longleftrightarrow> m_pc s Sender = 3 \<or> m_chan s 2 = 1 \<or> m_pc s Receiver \<in> {3, 4, 5, 6, 7}"

definition sw_places :: "pair \<Rightarrow> bool" where
  "sw_places s \<longleftrightarrow> m_pc s Sender \<le> 10 \<and> m_pc s Receiver \<le> 13 \<and> sw_token s = 1 \<and>
     (m_masked s Sender \<or> m_pc s Sender \<in> {0, 1, 9, 10} \<and> m_pc s Receiver \<notin> {3, 4, 5, 6, 7, 8, 9, 10} \<and> m_chan s 2 = 0) \<and>
     (m_masked s Receiver \<or> m_used s = [] \<and> m_pc s Receiver \<notin> {2, 3, 4, 5, 6, 7, 8, 9, 10, 11})"

definition sw_history :: "pair \<Rightarrow> bool" where
  "sw_history s \<longleftrightarrow> length (m_stamps s) = length (m_used s) + (if sw_open s then 1 else 0) \<and>
     (m_stamps s = [] \<or> last (m_stamps s) = pp_unblocked (m_snd s))"

definition sw_inv :: "pair \<Rightarrow> bool" where
  "sw_inv s \<longleftrightarrow>
     (if m_killed s then \<not> m_masked s Receiver \<and> m_used s = [] else sw_places s \<and> sw_history s) \<and> pair_figures s"

lemma sw_start: "pair_start sw_chan s \<Longrightarrow> sw_inv s"
  by (frule start_figures)
    (auto simp: sw_inv_def sw_places_def sw_history_def pair_start_def sw_token_def sw_open_def sw_chan_def)

lemma sw_roles: "pair_roles sw_prog"
  by (simp add: pair_roles_def sw_sender_def sw_receiver_def)

lemma sw_place:
  assumes "pair_enabled kind sw_prog s r"
  shows "m_pc s r \<in> (case r of Sender \<Rightarrow> {0, 1, 2, 3, 4, 5, 6, 7, 8, 9} | Receiver \<Rightarrow> {0, 1, 2, 3, 4, 5, 6, 7, 8, 9, 10, 11, 12})"
  using assms by (cases r; simp only: role.case; intro place10 place13; simp add: pair_enabled_def)

lemma sw_places_step:
  assumes "sw_places s" and "pair_enabled Signals sw_prog s r"
  shows "m_killed (pair_exec Signals sw_prog r t cpu s) \<or> sw_places (pair_exec Signals sw_prog r t cpu s)"
  using sw_place [OF assms(2)] assms
  by (cases r; simp only: role.case, elim insertE emptyE) (auto simp: sw_places_def sw_token_def pair_eval split: if_splits)

lemma sw_history_step:
  assumes "sw_places s" and "sw_history s" and "pair_enabled Signals sw_prog s r"
  shows "m_killed (pair_exec Signals sw_prog r t cpu s) \<or> sw_history (pair_exec Signals sw_prog r t cpu s)"
  using sw_place [OF assms(3)] assms
  by (cases r; simp only: role.case, elim insertE emptyE)
    (auto simp: sw_history_def sw_places_def sw_token_def sw_open_def pair_eval split: if_splits)

lemma sw_killed_step:
  assumes "sw_places s" and "pair_enabled Signals sw_prog s r" and "m_killed (pair_exec Signals sw_prog r t cpu s)"
  shows "\<not> m_masked (pair_exec Signals sw_prog r t cpu s) Receiver \<and> m_used (pair_exec Signals sw_prog r t cpu s) = []"
  using sw_place [OF assms(2)] assms
  by (cases r; simp only: role.case, elim insertE emptyE)
    (auto simp: sw_places_def sw_token_def pair_eval split: if_splits)

lemma sw_no_timeout: "m_pc s r < length (sw_prog r) \<Longrightarrow> pair_at sw_prog s r \<noteq> TimedTake c"
  using nth_mem [of "m_pc s r" "sw_prog r"]
  by (cases r) (auto simp: pair_at_def sw_sender_def sw_receiver_def)

lemma sw_view_step:
  assumes "sw_places s" and "sw_history s" and "pair_enabled Signals sw_prog s r"
  shows "pair_view (pair_exec Signals sw_prog r t cpu s) = pair_view s \<or>
    exch_step (pair_view s) (pair_view (pair_exec Signals sw_prog r t cpu s))"
  using sw_place [OF assms(3)] assms
  by (cases r; simp only: role.case, elim insertE emptyE)
    (auto simp: pair_view_def sw_history_def sw_places_def sw_token_def sw_open_def pair_eval
      intro: exch_stamp exch_use_last split: if_splits)

interpretation sw: exchange "pair_start sw_chan" "pair_step Signals sw_prog" sw_inv pair_view
proof
  show "sw_inv s" if "pair_start sw_chan s" for s using that by (rule sw_start)
  show "sw_inv s'" if "sw_inv s" "pair_step Signals sw_prog s s'" for s s'
    using that(2)
  proof cases
    case (pair_run r t cpu)
    then have e: "pair_enabled Signals sw_prog s r" and "\<not> m_killed s" by (simp_all add: pair_enabled_def)
    then have "sw_places s" "sw_history s" "pair_figures s" using that(1) by (simp_all add: sw_inv_def)
    then show ?thesis
      using sw_places_step [OF _ e, of t cpu] sw_history_step [OF _ _ e, of t cpu] sw_killed_step [OF _ e, of t cpu]
        step_figures [OF _ sw_roles that(2)] pair_run(1) by (auto simp: sw_inv_def)
  qed (use sw_no_timeout in blast)
  show "pair_view s = ([], [])" if "pair_start sw_chan s" for s
    using that by (simp add: pair_view_def pair_start_def)
  show "pair_view s' = pair_view s \<or> exch_step (pair_view s) (pair_view s')"
    if "sw_inv s" "pair_step Signals sw_prog s s'" for s s'
    using that(2)
  proof cases
    case (pair_run r t cpu)
    then have "\<not> m_killed s" by (simp add: pair_enabled_def)
    then show ?thesis using that(1) pair_run sw_view_step by (auto simp: sw_inv_def)
  qed (use sw_no_timeout in blast)
qed


definition ex_sw_run :: "(role \<times> timeval) list" where
  "ex_sw_run =
     replicate 2 (Receiver, tv 0 0) @ replicate 7 (Sender, tv 7 999990) @ replicate 11 (Receiver, tv 8 20) @
     replicate 4 (Sender, tv 8 30)"

definition ex_sw :: pair where
  "ex_sw = the (pair_go Signals sw_prog ex_sw_run (ex_pair sw_chan 0))"

lemma ex_sw_reach: "reach (pair_start sw_chan) (pair_step Signals sw_prog) ex_sw"
  unfolding ex_sw_def by (rule pair_go_reach [OF ex_pair_reach pair_go_the]) code_simp


section \<open>Options\<close>

definition sw_option :: "int \<Rightarrow> pair_option \<Rightarrow> pair_opts \<Rightarrow> pair_opts" where
  "sw_option max_cpus opt q =
     (case opt of (c, arg, nxt) \<Rightarrow>
        if c = CHR ''a'' then set_affinity_opt arg nxt q
        else if c = CHR ''b'' then q\<lparr>q_thistracelimit := arg_int arg\<rparr>
        else if c = CHR ''d'' then q\<lparr>q_distance := arg_int arg\<rparr>
        else if c = CHR ''f'' then set_fork_opt arg q
        else if c = CHR ''i'' then q\<lparr>q_interval := arg_int arg\<rparr>
        else if c = CHR ''l'' then q\<lparr>q_max_cycles := arg_int arg\<rparr>
        else if c = CHR ''p'' then q\<lparr>q_priority := arg_int arg\<rparr>
        else if c = CHR ''t'' then set_threads_opt max_cpus arg nxt q
        else if c = CHR ''?'' then q\<lparr>q_error := True\<rparr>
        else q)"

definition sw_options :: "int \<Rightarrow> pair_option list \<Rightarrow> pair_opts option" where
  "sw_options max_cpus as =
     (let q = fold (sw_option max_cpus) as pair_defaults;
          err = (q_error q \<or> (\<not> q_wasforked q \<and>
                 (bad_affinity max_cpus q \<or> q_num_threads q < 1 \<or> 255 < q_num_threads q \<or>
                  q_priority q < 0 \<or> 99 < q_priority q)))
      in if err then None
         else Some (if q_wasforked q then q else q\<lparr>q_tracelimit := q_thistracelimit q\<rparr>))"

section \<open>The pairs\<close>

text \<open>Here a positive priority is counted down to 0.\<close>

fun sw_create :: "int \<Rightarrow> pair_opts \<Rightarrow> nat \<Rightarrow> int \<Rightarrow> int \<Rightarrow> int \<Rightarrow> (pair_params \<times> pair_params) list" where
  "sw_create max_cpus q 0 i priority interval = []"
| "sw_create max_cpus q (Suc n) i priority interval =
     (let r = pair_params_init max_cpus q i priority interval
      in (r, r) # sw_create max_cpus q n (i + 1) (if 0 < priority then priority - 1 else priority)
           (s32 (interval + q_distance q)))"

text \<open>
  The role a started program takes (\<open>wasforked\<close>): \<open>None\<close> when the option is invalid or the shared memory
  has not the size of the \<open>num_threads\<close> found in it; else the entry of the shared array, which holds
  the receivers and behind them the senders.
\<close>

definition sw_forked :: "pair_opts \<Rightarrow> int \<Rightarrow> int \<Rightarrow> int \<Rightarrow> (role \<times> int) option" where
  "sw_forked q num_threads size_params totalsize =
     (if q_wasforked_threadno q = - 1 \<or> q_wasforked_sender q = - 1 then None
      else if totalsize \<noteq> s32 (num_threads * size_params * 2) then None
      else if q_wasforked_sender q \<noteq> 0 then Some (Sender, num_threads + q_wasforked_threadno q)
      else Some (Receiver, q_wasforked_threadno q))"

section \<open>The display and the end\<close>

definition sw_display :: "bool \<Rightarrow> (pair_params \<times> pair_params) list \<Rightarrow> bool \<times> pair_line list" where
  "sw_display shut pairs =
     (let shut' = (shut \<or> list_ex (\<lambda>(r, s). pp_shutdown r \<or> pp_shutdown s) pairs)
      in (shut',
          if shut' \<or> list_ex (\<lambda>(r, s). 1 < pp_samples r) (take 1 pairs)
          then map (\<lambda>(i, rs). pair_head_line i rs) (numbered pairs) @
               map (\<lambda>(i, r, s). if pp_mindiff r = 4294967295 then PairNotReady (2 * i + 1) (2 * i) else pair_stat_line i r)
                 (numbered pairs)
          else []))"

datatype sw_stop = SwKill role int | SwUnmap

definition sw_stop_threads :: "bool \<Rightarrow> (pair_params \<times> pair_params) list \<Rightarrow> (pair_params \<times> pair_params) list \<times> sw_stop list" where
  "sw_stop_threads mustfork pairs =
     (map (\<lambda>(r, s). (r\<lparr>pp_shutdown := True\<rparr>, s\<lparr>pp_shutdown := True\<rparr>)) pairs,
      concat (map (\<lambda>(i, r, s). (if pp_stopped r then [] else [SwKill Receiver i]) @
        (if pp_stopped s then [] else [SwKill Sender i])) (numbered pairs)) @
      (if mustfork then [SwUnmap] else []))"

text \<open>
  The fork mode finds its way back: the program that sigwaittest starts for thread \<open>i\<close> in some role reads
  that role and number from the option text, passes the checks, and, when the shared memory has the right size,
  goes to its own entry, receivers first and senders behind them. The text fits the 8 bytes of \<open>f_opt\<close>.
\<close>

theorem sigwaittest_fork_round_trip:
  assumes "i < num" and "num \<le> 255" and "0 \<le> sz" and "int num * sz * 2 < 2147483648"
  shows "(\<exists>q. sw_options max_cpus [(CHR ''f'', Some (drop 2 (fork_option r i)), None)] = Some q \<and>
    sw_forked q (int num) sz (int num * sz * 2) =
      Some (r, (case r of Receiver \<Rightarrow> int i | Sender \<Rightarrow> int num + int i))) \<and>
    length (fork_option r i) + 1 \<le> 8"
proof -
  let ?q = "set_fork_opt (Some (drop 2 (fork_option r i))) pair_defaults"
  have q: "?q = pair_defaults\<lparr>q_wasforked := True, q_wasforked_sender := (case r of Sender \<Rightarrow> 1 | Receiver \<Rightarrow> 0),
      q_wasforked_threadno := int i\<rparr>"
    by (rule fork_round_trip) (use assms in simp)
  have "s32 (int num * sz * 2) = int num * sz * 2"
    using assms(4) mult_nonneg_nonneg [of "int num" sz, OF of_nat_0_le_iff assms(3)] by (intro s32_id) linarith+
  moreover have f: "fold (sw_option max_cpus) [(CHR ''f'', Some (drop 2 (fork_option r i)), None)] pair_defaults = ?q"
    by (simp add: sw_option_def)
  ultimately have "sw_options max_cpus [(CHR ''f'', Some (drop 2 (fork_option r i)), None)] = Some ?q \<and>
      sw_forked ?q (int num) sz (int num * sz * 2) = Some (r, (case r of Receiver \<Rightarrow> int i | Sender \<Rightarrow> int num + int i))"
    unfolding sw_options_def f unfolding q
    by (cases r) (simp_all add: pair_defaults_def sw_forked_def Let_def)
  moreover have "length (fork_option r i) + 1 \<le> 8" using fork_option_fits [of i r] assms by simp
  ultimately show ?thesis by blast
qed

theorem sigwaittest_fork_round_trip_witness:
  "\<exists>q. sw_options 2 [(CHR ''f'', Some (drop 2 (fork_option Sender 3)), None)] = Some q \<and>
     sw_forked q 4 500 4000 = Some (Sender, 7)"
  using sigwaittest_fork_round_trip [where i = 3 and num = 4 and sz = 500 and max_cpus = 2 and r = Sender] by auto

end
