(* ===== verification/SvSema.thy ===== *)
theory SvSema
  imports PairMain
begin

text \<open>
  \<^verbatim>\<open>src/svsematest/svsematest.c\<close>: the latency of a System V semaphore. Number 0 is
  \<open>SEM_WAIT_FOR_RECEIVER\<close>, number 1 \<open>SEM_WAIT_FOR_SENDER\<close>; both are taken to 0 before the threads start.
  The second serves both ways: the sender unlocks it for the receiver, and the receiver for the sender.
\<close>

section \<open>The threads\<close>

definition sv_sender :: "pair_op list" where
  "sv_sender = [Test, Stamp, Put 1, Count, Limit, GetCpu, Take 0, Take 1, Loop, Put 1, Put 0, Stopped]"

definition sv_receiver :: "pair_op list" where
  "sv_receiver = [Test, Take 1, Received, Count, Limit, GetCpu, Measure, Break, Put 0, Pause, Put 1, Loop, Stopped]"

fun sv_prog :: pair_prog where
  "sv_prog Sender = sv_sender"
| "sv_prog Receiver = sv_receiver"

definition sv_chan :: "nat \<Rightarrow> nat" where
  "sv_chan = (\<lambda>_. 0)"

definition sv_getcpu :: "int \<Rightarrow> pair_params \<Rightarrow> bool" where
  "sv_getcpu max_cpus p \<longleftrightarrow> pp_cpu p = - 1 \<and> 1 < max_cpus"

definition sv_cpu :: "int \<Rightarrow> pair_params \<Rightarrow> int" where
  "sv_cpu max_cpus p = (if pp_cpu p \<noteq> - 1 then pp_cpu p else if 1 < max_cpus then - 1 else 0)"

lemma sv_sender_ops [simp]:
  "sv_sender ! 0 = Test" "sv_sender ! 1 = Stamp" "sv_sender ! Suc 0 = Stamp" "sv_sender ! 2 = Put 1" "sv_sender ! 3 = Count"
  "sv_sender ! 4 = Limit" "sv_sender ! 5 = GetCpu" "sv_sender ! 6 = Take 0" "sv_sender ! 7 = Take 1" "sv_sender ! 8 = Loop"
  "sv_sender ! 9 = Put 1" "sv_sender ! 10 = Put 0" "sv_sender ! 11 = Stopped" "length sv_sender = 12"
  "behind_loop sv_sender = 9"
  by (simp_all add: sv_sender_def behind_loop_def)

lemma sv_receiver_ops [simp]:
  "sv_receiver ! 0 = Test" "sv_receiver ! 1 = Take 1" "sv_receiver ! Suc 0 = Take 1" "sv_receiver ! 2 = Received"
  "sv_receiver ! 3 = Count" "sv_receiver ! 4 = Limit" "sv_receiver ! 5 = GetCpu" "sv_receiver ! 6 = Measure"
  "sv_receiver ! 7 = Break" "sv_receiver ! 8 = Put 0" "sv_receiver ! 9 = Pause" "sv_receiver ! 10 = Put 1"
  "sv_receiver ! 11 = Loop" "sv_receiver ! 12 = Stopped" "length sv_receiver = 13" "behind_loop sv_receiver = 12"
  by (simp_all add: sv_receiver_def behind_loop_def)

section \<open>The race\<close>

definition ex_sv_run :: "(role \<times> timeval) list" where
  "ex_sv_run = replicate 5 (Sender, tv 5 100) @ replicate 12 (Receiver, tv 5 130) @ replicate 7 (Receiver, tv 5 1130)"

definition ex_sv :: pair where
  "ex_sv = the (pair_go Semaphores sv_prog ex_sv_run (ex_pair sv_chan 0))"

lemma ex_sv_reach: "reach (pair_start sv_chan) (pair_step Semaphores sv_prog) ex_sv"
  unfolding ex_sv_def by (rule pair_go_reach [OF ex_pair_reach pair_go_the]) code_simp

lemma ex_sv_values:
  "(m_stamps ex_sv, m_used ex_sv, pp_maxdiff (m_rcv ex_sv)) = ([tv 5 100], [(tv 5 130, tv 5 100), (tv 5 1130, tv 5 100)], 1030)"
  by code_simp

text \<open>
  Nothing in the semaphores keeps the receiver of svsematest from taking back the semaphore it has just
  unlocked for the sender: there is a run in which it takes two differences to one and the same time of
  the sender, the second one as long as its own sleep.
\<close>

theorem svsematest_uses_a_time_twice:
  "\<exists>s. reach (pair_start sv_chan) (pair_step Semaphores sv_prog) s \<and>
     length (m_stamps s) = 1 \<and> map snd (m_used s) = [hd (m_stamps s), hd (m_stamps s)] \<and>
     pp_maxdiff (m_rcv s) = 1030"
  using ex_sv_values by (intro exI [of _ ex_sv] conjI ex_sv_reach) auto

section \<open>When the sleep is long enough\<close>

text \<open>
  The program relies on two things: the sleep of the receiver lasts until the sender waits for the semaphore, and
  the kernel gives the semaphore to the one that was waiting. The sender is followed as long as it is
  in its loop; behind it it unlocks both semaphores to let the receiver go.
\<close>

definition sv_timely :: "pair \<Rightarrow> role \<Rightarrow> bool" where
  "sv_timely s r \<longleftrightarrow>
     (case r of
        Sender \<Rightarrow> m_pc s Sender \<le> 8
      | Receiver \<Rightarrow> (m_pc s Receiver = 9 \<longrightarrow> m_pc s Sender = 7) \<and> (m_pc s Receiver = 1 \<longrightarrow> m_pc s Sender \<noteq> 7))"

inductive sv_step :: "pair \<Rightarrow> pair \<Rightarrow> bool" where
  sv_run: "pair_enabled Semaphores sv_prog s r \<Longrightarrow> sv_timely s r \<Longrightarrow> tv_normal t \<Longrightarrow>
     sv_step s (pair_exec Semaphores sv_prog r t cpu s)"

lemma sv_step_pair_step: "sv_step s s' \<Longrightarrow> pair_step Semaphores sv_prog s s'"
  by (induction rule: sv_step.induct) (rule pair_run)

text \<open>
  The turn of the sender, the semaphore on its way to the receiver, the receiver's turn, and the way back, over
  the first semaphore and then the second.
\<close>

definition sv_phase :: "pair \<Rightarrow> bool" where
  "sv_phase s \<longleftrightarrow>
     (let p = m_pc s Sender; q = m_pc s Receiver; a = m_chan s 0; b = m_chan s 1 in
        p \<in> {0, 1, 2, 8, 9} \<and> q \<in> {0, 1, 11, 12, 13} \<and> a = 0 \<and> b = 0 \<or>
        p \<in> {3, 4, 5, 6} \<and> q \<in> {0, 1, 11, 12, 13} \<and> a = 0 \<and> b = 1 \<or>
        p \<in> {3, 4, 5, 6} \<and> q \<in> {2, 3, 4, 5, 6, 7, 8} \<and> a = 0 \<and> b = 0 \<or>
        p \<in> {3, 4, 5, 6} \<and> q = 9 \<and> a = 1 \<and> b = 0 \<or>
        p = 7 \<and> q \<in> {9, 10} \<and> a = 0 \<and> b = 0 \<or>
        p = 7 \<and> q \<in> {0, 1, 11, 12, 13} \<and> a = 0 \<and> b = 1)"

definition sv_open :: "pair \<Rightarrow> bool" where
  "sv_open s \<longleftrightarrow> m_pc s Sender = 2 \<or> m_pc s Sender \<in> {3, 4, 5, 6} \<and> m_chan s 1 = 1 \<or> m_pc s Receiver \<in> {2, 3, 4, 5, 6}"

definition sv_history :: "pair \<Rightarrow> bool" where
  "sv_history s \<longleftrightarrow> length (m_stamps s) = length (m_used s) + (if sv_open s then 1 else 0) \<and>
     (m_stamps s = [] \<or> last (m_stamps s) = pp_unblocked (m_snd s))"

definition sv_inv :: "pair \<Rightarrow> bool" where
  "sv_inv s \<longleftrightarrow> sv_phase s \<and> sv_history s \<and> pair_figures s"

lemma sv_start: "pair_start sv_chan s \<Longrightarrow> sv_inv s"
  by (frule start_figures) (auto simp: sv_inv_def sv_phase_def sv_history_def pair_start_def sv_open_def sv_chan_def)

lemma sv_roles: "pair_roles sv_prog"
  by (simp add: pair_roles_def sv_sender_def sv_receiver_def)

lemma sv_place:
  assumes "pair_enabled kind sv_prog s r"
  shows "m_pc s r \<in> (case r of Sender \<Rightarrow> {0, 1, 2, 3, 4, 5, 6, 7, 8, 9, 10, 11} | Receiver \<Rightarrow> {0, 1, 2, 3, 4, 5, 6, 7, 8, 9, 10, 11, 12})"
  using assms by (cases r; simp only: role.case; intro place12 place13; simp add: pair_enabled_def)

lemma sv_phase_step:
  assumes "sv_phase s" and "pair_enabled Semaphores sv_prog s r" and "sv_timely s r"
  shows "sv_phase (pair_exec Semaphores sv_prog r t cpu s)"
  using sv_place [OF assms(2)] assms
  by (cases r; simp only: role.case, elim insertE emptyE)
    (auto simp: sv_phase_def sv_timely_def Let_def pair_eval split: if_splits)

lemma sv_history_step:
  assumes "sv_phase s" and "sv_history s" and "pair_enabled Semaphores sv_prog s r" and "sv_timely s r"
  shows "sv_history (pair_exec Semaphores sv_prog r t cpu s)"
  using sv_place [OF assms(3)] assms
  by (cases r; simp only: role.case, elim insertE emptyE)
    (auto simp: sv_phase_def sv_history_def sv_open_def sv_timely_def Let_def pair_eval split: if_splits)

lemma sv_view_step:
  assumes "sv_phase s" and "sv_history s" and "pair_enabled Semaphores sv_prog s r" and "sv_timely s r"
  shows "pair_view (pair_exec Semaphores sv_prog r t cpu s) = pair_view s \<or>
    exch_step (pair_view s) (pair_view (pair_exec Semaphores sv_prog r t cpu s))"
  using sv_place [OF assms(3)] assms
  by (cases r; simp only: role.case, elim insertE emptyE)
    (auto simp: pair_view_def sv_phase_def sv_history_def sv_open_def sv_timely_def Let_def pair_eval
      intro: exch_stamp exch_use_last split: if_splits)

interpretation sv: exchange "pair_start sv_chan" sv_step sv_inv pair_view
proof
  show "sv_inv s" if "pair_start sv_chan s" for s using that by (rule sv_start)
  show "sv_inv s'" if "sv_inv s" "sv_step s s'" for s s'
    using that(2)
  proof cases
    case (sv_run r t cpu)
    then show ?thesis
      using that sv_phase_step sv_history_step step_figures [OF _ sv_roles sv_step_pair_step [OF that(2)]]
      by (auto simp: sv_inv_def)
  qed
  show "pair_view s = ([], [])" if "pair_start sv_chan s" for s
    using that by (simp add: pair_view_def pair_start_def)
  show "pair_view s' = pair_view s \<or> exch_step (pair_view s) (pair_view s')"
    if "sv_inv s" "sv_step s s'" for s s'
    using that(2)
  proof cases
    case (sv_run r t cpu)
    then show ?thesis using that(1) sv_view_step by (auto simp: sv_inv_def)
  qed
qed


fun sv_go :: "(role \<times> timeval) list \<Rightarrow> pair \<Rightarrow> pair option" where
  "sv_go [] s = Some s"
| "sv_go ((r, t) # ms) s =
     (if pair_enabled Semaphores sv_prog s r \<and> sv_timely s r \<and> tv_normal t
      then sv_go ms (pair_exec Semaphores sv_prog r t 0 s) else None)"

lemma sv_go_reach: "reach init sv_step s \<Longrightarrow> sv_go ms s = Some s' \<Longrightarrow> reach init sv_step s'"
  by (induction ms s rule: sv_go.induct) (auto split: if_splits intro: reach_step sv_run)

definition ex_sv_timely :: pair where
  "ex_sv_timely = the (sv_go
     (replicate 6 (Sender, tv 5 100) @ replicate 9 (Receiver, tv 5 130) @ replicate 1 (Sender, tv 5 140) @
      replicate 4 (Receiver, tv 5 150) @ replicate 5 (Sender, tv 5 990) @ replicate 6 (Receiver, tv 6 10)) (ex_pair sv_chan 0))"

lemma ex_sv_timely_reach: "reach (pair_start sv_chan) sv_step ex_sv_timely"
proof -
  have "sv_go (replicate 6 (Sender, tv 5 100) @ replicate 9 (Receiver, tv 5 130) @ replicate 1 (Sender, tv 5 140) @
      replicate 4 (Receiver, tv 5 150) @ replicate 5 (Sender, tv 5 990) @ replicate 6 (Receiver, tv 6 10)) (ex_pair sv_chan 0) \<noteq> None"
    by code_simp
  then show ?thesis unfolding ex_sv_timely_def by (intro sv_go_reach [OF ex_pair_reach]) auto
qed


section \<open>Options\<close>

definition sv_option :: "int \<Rightarrow> pair_option \<Rightarrow> pair_opts \<Rightarrow> pair_opts" where
  "sv_option max_cpus opt q =
     (case opt of (c, arg, nxt) \<Rightarrow>
        if c = CHR ''a'' then (if q_smp q then q else set_affinity_opt arg nxt q)
        else if c = CHR ''b'' then q\<lparr>q_thistracelimit := arg_int arg\<rparr>
        else if c = CHR ''d'' then q\<lparr>q_distance := arg_int arg\<rparr>
        else if c = CHR ''f'' then set_fork_opt arg q
        else if c = CHR ''i'' then q\<lparr>q_interval := arg_int arg\<rparr>
        else if c = CHR ''l'' then q\<lparr>q_max_cycles := arg_int arg\<rparr>
        else if c = CHR ''p'' then q\<lparr>q_priority := arg_int arg\<rparr>
        else if c = CHR ''S'' then q\<lparr>q_smp := True, q_num_threads := max_cpus, q_setaffinity := AffinityUseall\<rparr>
        else if c = CHR ''t'' then (if q_smp q then q else set_threads_opt max_cpus arg nxt q)
        else if c = CHR ''?'' then q\<lparr>q_error := True\<rparr>
        else q)"

definition sv_options :: "int \<Rightarrow> pair_option list \<Rightarrow> pair_opts option" where
  "sv_options max_cpus as =
     (let q = fold (sv_option max_cpus) as pair_defaults;
          err = (q_error q \<or> (\<not> q_wasforked q \<and>
                 (bad_affinity max_cpus q \<or> q_num_threads q < 1 \<or> 255 < q_num_threads q \<or>
                  q_priority q < 0 \<or> 99 < q_priority q)))
      in if err then None
         else Some (if q_wasforked q then q
                    else q\<lparr>q_sameprio := (q_sameprio q \<or> q_priority q \<noteq> 0 \<and> q_smp q), q_tracelimit := q_thistracelimit q\<rparr>))"

section \<open>The pairs\<close>

text \<open>
  The four calls that set up the semaphores of a pair; the argument of \<open>fails\<close> is the pair and the call. At the
  first failure \<open>main\<close> goes to its clean-up, and no further pair is started (the flag is False).
\<close>

datatype sv_call = Ftok | Semget | Semctl nat

fun sv_create ::
  "int \<Rightarrow> pair_opts \<Rightarrow> (int \<Rightarrow> sv_call \<Rightarrow> bool) \<Rightarrow> nat \<Rightarrow> int \<Rightarrow> int \<Rightarrow> int \<Rightarrow> (pair_params \<times> pair_params) list \<times> bool"
where
  "sv_create max_cpus q fails 0 i priority interval = ([], True)"
| "sv_create max_cpus q fails (Suc n) i priority interval =
     (if list_ex (fails i) [Ftok, Semget, Semctl 0, Semctl 1] then ([], False)
      else let r = pair_params_init max_cpus q i priority interval;
               (rest, ok) = sv_create max_cpus q fails n (i + 1)
                 (if 1 < priority \<and> \<not> q_sameprio q then priority - 1 else priority) (s32 (interval + q_distance q))
           in ((r, r) # rest, ok))"

definition sv_forked :: "pair_opts \<Rightarrow> int \<Rightarrow> int \<Rightarrow> int \<Rightarrow> (role \<times> int) option" where
  "sv_forked q num_threads size_params totalsize =
     (if q_wasforked_threadno q = - 1 \<or> q_wasforked_sender q = - 1 then None
      else if totalsize \<noteq> s32 (num_threads * size_params * 2) then None
      else if q_wasforked_sender q \<noteq> 0 then Some (Sender, num_threads + q_wasforked_threadno q)
      else Some (Receiver, q_wasforked_threadno q))"

section \<open>The display and the end\<close>

definition sv_display :: "bool \<Rightarrow> (pair_params \<times> pair_params) list \<Rightarrow> bool \<times> pair_line list" where
  "sv_display shut pairs =
     (let shut' = (shut \<or> list_ex (\<lambda>(r, s). pp_shutdown r \<or> pp_shutdown s) pairs)
      in (shut',
          if shut' \<or> list_ex (\<lambda>(r, s). 1 < pp_samples r) (take 1 pairs)
          then map (\<lambda>(i, rs). pair_head_line i rs) (numbered pairs) @
               map (\<lambda>(i, r, s). if pp_mindiff r = 4294967295 then PairNotReady (2 * i + 1) (2 * i) else pair_stat_line i r)
                 (numbered pairs)
          else []))"

datatype sv_stop = SvKill role int | SvRemove int | SvUnmap

definition sv_stop_threads :: "bool \<Rightarrow> (pair_params \<times> pair_params) list \<Rightarrow> (pair_params \<times> pair_params) list \<times> sv_stop list" where
  "sv_stop_threads mustfork pairs =
     (map (\<lambda>(r, s). (r\<lparr>pp_shutdown := True\<rparr>, s\<lparr>pp_shutdown := True\<rparr>)) pairs,
      concat (map (\<lambda>(i, r, s). (if pp_stopped r then [] else [SvKill Receiver i]) @
        (if pp_stopped s then [] else [SvKill Sender i])) (numbered pairs)) @
      map (\<lambda>(i, _). SvRemove i) (numbered pairs) @
      (if mustfork then [SvUnmap] else []))"

end
