(* ===== verification/PairCommand.thy ===== *)
theory PairCommand
  imports RtGetopt PtSema PmqTest SigWait SvSema
begin

text \<open>
  The command lines of the four programs of pairs (\<^verbatim>\<open>ptsematest.c\<close>, \<^verbatim>\<open>pmqtest.c\<close>, \<^verbatim>\<open>sigwaittest.c\<close>,
  \<^verbatim>\<open>svsematest.c\<close>): their tables of long options and option strings, between \<open>getopt_long\<close> and their
  \<open>process_options\<close>.
\<close>

section \<open>Tables\<close>

definition pts_rows :: "long_option list" where
  "pts_rows =
     [(''affinity'', OptionalArgument, letter CHR ''a''),
      (''breaktrace'', RequiredArgument, letter CHR ''b''),
      (''distance'', RequiredArgument, letter CHR ''d''),
      (''interval'', RequiredArgument, letter CHR ''i''),
      (''loops'', RequiredArgument, letter CHR ''l''),
      (''priority'', RequiredArgument, letter CHR ''p''),
      (''smp'', NoArgument, letter CHR ''S''),
      (''threads'', OptionalArgument, letter CHR ''t''),
      (''help'', NoArgument, letter CHR ''?'')]"

definition pts_optstring :: string where
  "pts_optstring = ''a::b:d:i:l:p:St::''"

definition pmq_rows :: "long_option list" where
  "pmq_rows =
     [(''affinity'', OptionalArgument, letter CHR ''a''),
      (''breaktrace'', RequiredArgument, letter CHR ''b''),
      (''distance'', RequiredArgument, letter CHR ''d''),
      (''forcetimeout'', RequiredArgument, letter CHR ''f''),
      (''interval'', RequiredArgument, letter CHR ''i''),
      (''loops'', RequiredArgument, letter CHR ''l''),
      (''priority'', RequiredArgument, letter CHR ''p''),
      (''smp'', NoArgument, letter CHR ''S''),
      (''threads'', OptionalArgument, letter CHR ''t''),
      (''timeout'', RequiredArgument, letter CHR ''T''),
      (''help'', NoArgument, letter CHR ''?'')]"

definition pmq_optstring :: string where
  "pmq_optstring = ''a::b:d:f:i:l:p:St::T:''"

definition sw_rows :: "long_option list" where
  "sw_rows =
     [(''affinity'', OptionalArgument, letter CHR ''a''),
      (''breaktrace'', RequiredArgument, letter CHR ''b''),
      (''distance'', RequiredArgument, letter CHR ''d''),
      (''fork'', OptionalArgument, letter CHR ''f''),
      (''interval'', RequiredArgument, letter CHR ''i''),
      (''loops'', RequiredArgument, letter CHR ''l''),
      (''priority'', RequiredArgument, letter CHR ''p''),
      (''threads'', OptionalArgument, letter CHR ''t''),
      (''help'', NoArgument, letter CHR ''?'')]"

definition sw_optstring :: string where
  "sw_optstring = ''a::b:d:f::i:l:p:t::''"

definition sv_rows :: "long_option list" where
  "sv_rows =
     [(''affinity'', OptionalArgument, letter CHR ''a''),
      (''breaktrace'', RequiredArgument, letter CHR ''b''),
      (''distance'', RequiredArgument, letter CHR ''d''),
      (''fork'', OptionalArgument, letter CHR ''f''),
      (''interval'', RequiredArgument, letter CHR ''i''),
      (''loops'', RequiredArgument, letter CHR ''l''),
      (''priority'', RequiredArgument, letter CHR ''p''),
      (''smp'', NoArgument, letter CHR ''S''),
      (''threads'', OptionalArgument, letter CHR ''t''),
      (''help'', NoArgument, letter CHR ''?'')]"

definition sv_optstring :: string where
  "sv_optstring = ''a::b:d:f::i:l:p:St::''"

section \<open>From the words to the options\<close>

definition pair_event :: "got \<Rightarrow> pair_option" where
  "pair_event g = (char_of (g_val g), g_arg g, g_next g)"

definition pts_command :: "int \<Rightarrow> bool \<Rightarrow> string list \<Rightarrow> pair_opts option" where
  "pts_command max_cpus posix ws = pts_options max_cpus (map pair_event (getopt_long posix pts_optstring pts_rows ws))"

definition pmq_command :: "int \<Rightarrow> bool \<Rightarrow> string list \<Rightarrow> pair_opts option" where
  "pmq_command max_cpus posix ws = pmq_options max_cpus (map pair_event (getopt_long posix pmq_optstring pmq_rows ws))"

definition sw_command :: "int \<Rightarrow> bool \<Rightarrow> string list \<Rightarrow> pair_opts option" where
  "sw_command max_cpus posix ws = sw_options max_cpus (map pair_event (getopt_long posix sw_optstring sw_rows ws))"

definition sv_command :: "int \<Rightarrow> bool \<Rightarrow> string list \<Rightarrow> pair_opts option" where
  "sv_command max_cpus posix ws = sv_options max_cpus (map pair_event (getopt_long posix sv_optstring sv_rows ws))"

interpretation pts_line: command_line pts_optstring pts_rows by unfold_locales code_simp
interpretation pmq_line: command_line pmq_optstring pmq_rows by unfold_locales code_simp
interpretation sw_line: command_line sw_optstring sw_rows by unfold_locales code_simp
interpretation sv_line: command_line sv_optstring sv_rows by unfold_locales code_simp

text \<open>None of the option strings asks for an order.\<close>

lemma pair_letters:
  "in_order posix pts_optstring = posix" "optstring_letters pts_optstring = pts_optstring"
  "in_order posix pmq_optstring = posix" "optstring_letters pmq_optstring = pmq_optstring"
  "in_order posix sw_optstring = posix" "optstring_letters sw_optstring = sw_optstring"
  "in_order posix sv_optstring = posix" "optstring_letters sv_optstring = sv_optstring"
  by (simp_all add: in_order_def optstring_letters_def pts_optstring_def pmq_optstring_def sw_optstring_def sv_optstring_def)

section \<open>Properties\<close>



text \<open>A started program gets the text \<open>-fr%d\<close> or \<open>-fs%d\<close> as its only word.\<close>

lemma fork_word:
  "sw_command n posix [fork_option r i] = sw_options n [(CHR ''f'', Some (drop 2 (fork_option r i)), None)]"
  "sv_command n posix [fork_option r i] = sv_options n [(CHR ''f'', Some (drop 2 (fork_option r i)), None)]"
proof -
  obtain a where f: "fork_option r i = ''-'' @ [CHR ''f''] @ a" "a \<noteq> []"
    by (cases r) (simp_all add: fork_option_def)
  have c: "char_of (102 :: int) = CHR ''f''" by code_simp
  have k: "short_kind sw_optstring CHR ''f'' = Some OptionalArgument" "short_kind sv_optstring CHR ''f'' = Some OptionalArgument"
    by code_simp+
  have w: "get_word (optstring_letters sw_optstring) sw_rows (fork_option r i) [] = ([\<lparr>g_val = letter CHR ''f'', g_arg = Some a, g_row = None, g_next = None\<rparr>], 0)"
    "get_word (optstring_letters sv_optstring) sv_rows (fork_option r i) [] = ([\<lparr>g_val = letter CHR ''f'', g_arg = Some a, g_row = None, g_next = None\<rparr>], 0)"
    using short_word(2) [OF _ k(1) _ f(2), of sw_rows "[]"] short_word(2) [OF _ k(2) _ f(2), of sv_rows "[]"]
    by (simp_all add: f(1) first_word_def pair_letters)
  show "sw_command n posix [fork_option r i] = sw_options n [(CHR ''f'', Some (drop 2 (fork_option r i)), None)]"
    using sw_line.reads_option [OF _ _ w(1), of posix] f(1)
    by (simp add: sw_command_def not_operand sw_line.reads_nothing pair_event_def c)
  show "sv_command n posix [fork_option r i] = sv_options n [(CHR ''f'', Some (drop 2 (fork_option r i)), None)]"
    using sv_line.reads_option [OF _ _ w(2), of posix] f(1)
    by (simp add: sv_command_def not_operand sv_line.reads_nothing pair_event_def c)
qed

end
