(* ===== verification/PairSetup.thy ===== *)
theory PairSetup
  imports PairCommand
begin

text \<open>
  How the four programs of pairs start, up to the creation of their threads (\<^verbatim>\<open>ptsematest.c\<close>, \<^verbatim>\<open>pmqtest.c\<close>,
  \<^verbatim>\<open>sigwaittest.c\<close>, \<^verbatim>\<open>svsematest.c\<close>): privileges, locking of the memory, the shared memory of the mode \<open>-f\<close> on both of
  its sides, and the exits.
\<close>

section \<open>Shared memory\<close>

datatype su_call =
    SuPrivs | SuMlockall | SuCpuSetup | SuHandlers | SuAlloc
  | SuShmUnlink string | SuShmCreate string | SuTruncate int | SuMap int | SuCloseShm
  | SuShmOpen string | SuFstat | SuUnmap int | SuThread role int

datatype su_end = SuExit int | SuGo

text \<open>
  The results of the calls; \<open>su_num\<close> is \<open>num_threads\<close> of the first entry of the memory a started program maps, and
  \<open>su_sizeof\<close> the size of an entry.
\<close>

record su_env =
  su_privs :: int
  su_mlockall :: int
  su_shm :: int
  su_mapped :: bool
  su_fstat :: int
  su_size :: int
  su_num :: int
  su_sizeof :: int
  su_calloc :: bool

definition shm_name :: string where
  "shm_name = ''/sigwaittest''"

text \<open>The program that starts the others.\<close>

definition shm_starter :: "pair_opts \<Rightarrow> su_env \<Rightarrow> su_call list \<times> su_end" where
  "shm_starter q e =
     (let totalsize = s32 (q_num_threads q * su_sizeof e * 2)
      in if su_shm e < 0 then ([SuShmUnlink shm_name, SuShmCreate shm_name], SuExit 1)
         else if \<not> su_mapped e
         then ([SuShmUnlink shm_name, SuShmCreate shm_name, SuTruncate totalsize, SuMap totalsize, SuCloseShm], SuExit 1)
         else ([SuShmUnlink shm_name, SuShmCreate shm_name, SuTruncate totalsize, SuMap totalsize, SuHandlers], SuGo))"

text \<open>A started program: it runs the thread function for its entry and ends.\<close>

definition shm_started :: "pair_opts \<Rightarrow> su_env \<Rightarrow> su_call list \<times> su_end" where
  "shm_started q e =
     (let totalsize = s32 (su_size e);
          expect_totalsize = s32 (su_num e * su_sizeof e * 2)
      in if q_wasforked_threadno q = - 1 \<or> q_wasforked_sender q = - 1 then ([], SuExit 1)
         else if su_fstat e \<noteq> 0 then ([SuShmOpen shm_name, SuFstat, SuCloseShm], SuExit 1)
         else if \<not> su_mapped e then ([SuShmOpen shm_name, SuFstat, SuMap totalsize, SuCloseShm], SuExit 1)
         else if totalsize \<noteq> expect_totalsize
         then ([SuShmOpen shm_name, SuFstat, SuMap totalsize, SuCloseShm, SuUnmap totalsize], SuExit 1)
         else ([SuShmOpen shm_name, SuFstat, SuMap totalsize, SuCloseShm] @
               [if q_wasforked_sender q \<noteq> 0 then SuThread Sender (su_num e + q_wasforked_threadno q)
                else SuThread Receiver (q_wasforked_threadno q)] @ [SuUnmap totalsize], SuExit 0))"

section \<open>The four programs\<close>

text \<open>A failing allocation goes to the label \<open>nomem\<close>, behind which the status is 0.\<close>

definition sw_setup :: "pair_opts \<Rightarrow> su_env \<Rightarrow> su_call list \<times> su_end" where
  "sw_setup q e =
     (if su_privs e \<noteq> 0 then ([SuPrivs], SuExit 1)
      else if su_mlockall e = - 1 then ([SuPrivs, SuMlockall], SuExit 1)
      else case (if q_mustfork q then shm_starter q e
                 else if q_wasforked q then shm_started q e
                 else ([SuHandlers, SuAlloc], if su_calloc e then SuGo else SuExit 0)) of
             (ops, r) \<Rightarrow> ([SuPrivs, SuMlockall, SuCpuSetup] @ ops, r))"

definition sv_setup :: "pair_opts \<Rightarrow> su_env \<Rightarrow> su_call list \<times> su_end" where
  "sv_setup q e =
     (if su_privs e \<noteq> 0 then ([SuPrivs], SuExit 1)
      else if su_mlockall e = - 1 then ([SuPrivs, SuMlockall], SuExit 1)
      else case (if q_mustfork q then shm_starter q e
                 else if q_wasforked q then shm_started q e
                 else ([SuHandlers, SuAlloc], if su_calloc e then SuGo else SuExit 0)) of
             (ops, r) \<Rightarrow> ([SuPrivs, SuMlockall, SuCpuSetup] @ ops, r))"

definition pts_setup :: "su_env \<Rightarrow> su_call list \<times> su_end" where
  "pts_setup e =
     (if su_privs e \<noteq> 0 then ([SuPrivs], SuExit 1)
      else if su_mlockall e = - 1 then ([SuPrivs, SuMlockall], SuExit 1)
      else ([SuPrivs, SuMlockall, SuHandlers, SuAlloc], if su_calloc e then SuGo else SuExit 0))"

definition pmq_setup :: "su_env \<Rightarrow> su_call list \<times> su_end" where
  "pmq_setup e =
     (if su_privs e \<noteq> 0 then ([SuPrivs], SuExit 1)
      else if su_mlockall e = - 1 then ([SuPrivs, SuMlockall], SuExit 1)
      else ([SuPrivs, SuMlockall, SuHandlers, SuAlloc], if su_calloc e then SuGo else SuExit 0))"

section \<open>Properties\<close>


definition ex_su :: su_env where
  "ex_su = \<lparr>su_privs = 0, su_mlockall = 0, su_shm = 3, su_mapped = True, su_fstat = 0, su_size = 0, su_num = 0,
     su_sizeof = 500, su_calloc = True\<rparr>"


text \<open>
  The exits: the status is 1 exactly when the privileges, the locking or the shared memory fail; a failing allocation
  ends the programs with the status of success, without a measurement.
\<close>

theorem setup_exits:
  assumes "\<not> q_mustfork q" "\<not> q_wasforked q" "su_privs e = 0" "su_mlockall e \<noteq> - 1" "\<not> su_calloc e"
  shows "snd (sw_setup q e) = SuExit 0 \<and> snd (sv_setup q e) = SuExit 0 \<and> snd (pts_setup e) = SuExit 0 \<and>
    snd (pmq_setup e) = SuExit 0"
  using assms by (simp add: sw_setup_def sv_setup_def pts_setup_def pmq_setup_def)

theorem setup_exits_witness:
  "snd (pts_setup (ex_su\<lparr>su_calloc := False\<rparr>)) = SuExit 0"
  using setup_exits [of pair_defaults "ex_su\<lparr>su_calloc := False\<rparr>"]
  by (simp add: ex_su_def pair_defaults_def)

text \<open>The two programs with the mode \<open>-f\<close> use the same memory: each removes the other's.\<close>

lemma same_shared_memory:
  "q_mustfork q \<Longrightarrow> su_privs e = 0 \<Longrightarrow> su_mlockall e \<noteq> - 1 \<Longrightarrow>
     SuShmUnlink shm_name \<in> set (fst (sv_setup q e)) \<and> SuShmUnlink shm_name \<in> set (fst (sw_setup q e))"
  by (simp add: sv_setup_def sw_setup_def shm_starter_def Let_def)

end
