(* ===== verification/MigrateTest.thy ===== *)
theory MigrateTest
  imports RtPrelude
begin

text \<open>
  \<^verbatim>\<open>src/rt-migrate-test/rt-migrate-test.c\<close>: one task more than there are CPUs, each of a higher priority than
  the one before, run busy loops at the same time; the test looks whether a lower task got a CPU before a higher
  one. All times are 64-bit unsigned numbers of nanoseconds.
\<close>

section \<open>Options and set-up\<close>

record mg_opts =
  mo_prio_start :: int
  mo_run_interval :: int
  mo_interval :: int
  mo_max_err :: int
  mo_nr_runs :: int
  mo_check :: int

definition ms2nano :: "int \<Rightarrow> int" where "ms2nano ms = u64 (ms * 1000000)"
definition usec2nano :: "int \<Rightarrow> int" where "usec2nano us = u64 (us * 1000)"
definition sec2nano :: "int \<Rightarrow> int" where "sec2nano s = u64 (s * 1000000000)"
definition nano2usec :: "int \<Rightarrow> int" where "nano2usec n = n div 1000"

definition mg_defaults :: mg_opts where
  "mg_defaults = \<lparr>mo_prio_start = 2, mo_run_interval = ms2nano 20, mo_interval = ms2nano 100,
     mo_max_err = usec2nano 1000, mo_nr_runs = 50, mo_check = 0\<rparr>"

datatype mg_opt = MgP string | MgR string | MgS string | MgL string | MgM string | MgC | MgHelp

text \<open>An option; \<open>None\<close> when the program shows its usage and exits.\<close>

definition mg_option :: "mg_opt \<Rightarrow> mg_opts \<Rightarrow> mg_opts option" where
  "mg_option opt p =
     (case opt of
        MgP a \<Rightarrow> Some (p\<lparr>mo_prio_start := atoi a\<rparr>)
      | MgR a \<Rightarrow> Some (p\<lparr>mo_run_interval := ms2nano (atoi a)\<rparr>)
      | MgS a \<Rightarrow> Some (p\<lparr>mo_interval := ms2nano (atoi a)\<rparr>)
      | MgL a \<Rightarrow> Some (p\<lparr>mo_nr_runs := atoi a\<rparr>)
      | MgM a \<Rightarrow> Some (p\<lparr>mo_max_err := usec2nano (atoi a)\<rparr>)
      | MgC \<Rightarrow> Some (p\<lparr>mo_check := 1\<rparr>)
      | MgHelp \<Rightarrow> None)"

fun mg_option_loop :: "mg_opt list \<Rightarrow> mg_opts \<Rightarrow> mg_opts option" where
  "mg_option_loop [] p = Some p"
| "mg_option_loop (opt # opts) p = (case mg_option opt p of None \<Rightarrow> None | Some p1 \<Rightarrow> mg_option_loop opts p1)"

definition mg_parse_options :: "mg_opt list \<Rightarrow> mg_opts option" where
  "mg_parse_options opts =
     (case mg_option_loop opts mg_defaults of
        None \<Rightarrow> None
      | Some p \<Rightarrow> if mo_nr_runs p \<le> 0 \<or> mo_prio_start p < 1 \<or> mo_prio_start p > 99 then None else Some p)"

text \<open>The lines of \<open>/proc/cpuinfo\<close> that start a processor.\<close>

definition count_cpus :: "string list \<Rightarrow> int" where
  "count_cpus ls =
     int (length (filter (\<lambda>l. take 9 l = ''processor'' \<and> take 1 (dropWhile isspace (drop 9 l)) = '':'') ls))"

text \<open>The first marker file that exists, and the number of dashes of the progress bar.\<close>

definition setup_ftrace_marker :: "(string \<Rightarrow> bool) \<Rightarrow> string option" where
  "setup_ftrace_marker exists =
     find exists [''/sys/kernel/debug/tracing/trace_marker'', ''/debug/tracing/trace_marker'',
                  ''/debugfs/tracing/trace_marker'']"

definition progress_dashes :: "int \<Rightarrow> int" where
  "progress_dashes percent = (70 * (if percent > 100 then 100 else percent)) sdiv 100"

section \<open>A task\<close>

definition get_time :: "int \<Rightarrow> int \<Rightarrow> int" where
  "get_time sec usec = u64 (sec2nano sec + usec2nano usec)"

text \<open>
  The busy loop over the clock's readings: the number of rounds, \<open>None\<close> when the readings are
  used up before it ends.
\<close>

fun busy_loop :: "int \<Rightarrow> int \<Rightarrow> int list \<Rightarrow> int \<Rightarrow> int option" where
  "busy_loop run_interval start_time [] l = None"
| "busy_loop run_interval start_time (t # ts) l =
     (let l1 = u64 (l + 1)
      in if u64 (t - start_time) < run_interval then busy_loop run_interval start_time ts l1 else Some l1)"

text \<open>The CPU of the highest task in a round, and where it looks in the next.\<close>

definition rotate_cpu :: "int set \<Rightarrow> int \<Rightarrow> int \<times> int" where
  "rotate_cpu save_mask cpu = (let c = (if cpu \<notin> save_mask then 0 else cpu) in (c, c + 1))"

fun rotate_cpus :: "int set \<Rightarrow> int \<Rightarrow> nat \<Rightarrow> int list" where
  "rotate_cpus save_mask cpu 0 = []"
| "rotate_cpus save_mask cpu (Suc n) =
     (case rotate_cpu save_mask cpu of (c, next) \<Rightarrow> c # rotate_cpus save_mask next n)"

text \<open>What a task leaves in the tables: when it started, when it ended, and the rounds it made.\<close>

record mg_entry =
  me_start :: int
  me_length :: int
  me_loops :: int

text \<open>The tables, as the list of runs with the list of tasks.\<close>

definition record_time ::
  "int \<Rightarrow> int \<Rightarrow> int \<Rightarrow> int \<Rightarrow> int \<Rightarrow> int \<Rightarrow> int \<Rightarrow> mg_entry list list \<Rightarrow> mg_entry list list option" where
  "record_time loop nr_runs now i time endtime l tab =
     (if loop \<ge> nr_runs then Some tab
      else case c_read tab loop of
             None \<Rightarrow> None
           | Some row \<Rightarrow>
               (case c_write row i \<lparr>me_start = u64 (time - now), me_length = u64 (endtime - now), me_loops = l\<rparr> of
                  None \<Rightarrow> None
                | Some row1 \<Rightarrow> c_write tab loop row1))"

section \<open>The check\<close>

text \<open>The suspicion about two neighbouring tasks, and its confirmation.\<close>

definition out_of_order :: "int \<Rightarrow> mg_entry \<Rightarrow> mg_entry \<Rightarrow> bool" where
  "out_of_order max_err lst e \<longleftrightarrow>
     me_start lst < me_start e \<and> u64 (me_start e - me_start lst) > max_err \<and>
     (me_loops e < me_loops lst \<or> me_start e > me_length lst \<or>
      (me_length e > me_length lst \<and> u64 (me_length e - me_length lst) > max_err))"

fun check_from :: "int \<Rightarrow> mg_entry option \<Rightarrow> mg_entry list \<Rightarrow> bool" where
  "check_from max_err lst [] = False"
| "check_from max_err lst (e # es) =
     (if (case lst of None \<Rightarrow> False | Some p \<Rightarrow> out_of_order max_err p e) then True
      else check_from max_err (Some e) es)"

definition check_times :: "int \<Rightarrow> mg_entry list \<Rightarrow> bool" where
  "check_times max_err row = check_from max_err None row"

text \<open>
  The loop of \<open>main\<close> over the runs, with the row each leaves and whether the user has asked to stop by
  then: the number of runs that count and the value of \<open>check\<close> after it.
\<close>

fun mg_runs :: "int \<Rightarrow> int \<Rightarrow> int \<Rightarrow> int \<Rightarrow> (mg_entry list \<times> bool) list \<Rightarrow> int \<times> int" where
  "mg_runs max_err check loop nr_runs [] = (nr_runs, check)"
| "mg_runs max_err check loop nr_runs ((row, stop) # rs) =
     (if loop \<ge> nr_runs then (nr_runs, check)
      else if stop then (loop + 1, check)
      else if check \<noteq> 0 \<and> check_times max_err row then (loop + 1, -1)
      else mg_runs max_err check (loop + 1) nr_runs rs)"

definition mg_exit :: "bool \<Rightarrow> int \<Rightarrow> int" where
  "mg_exit stop check = (if stop then (if check < 0 then -1 else 1) else if check < 0 then -1 else 0)"

section \<open>The results\<close>

text \<open>One task's statistics. The sum is kept unwrapped; it is reduced where it is printed.\<close>

record mg_stat =
  mt_max :: int
  mt_min :: int
  mt_avg :: int

definition mg_sample :: "int \<Rightarrow> mg_stat \<Rightarrow> mg_stat" where
  "mg_sample itv s =
     (let s1 = (if mt_max s < itv then s\<lparr>mt_max := itv\<rparr> else s);
          s2 = (if mt_min s1 > itv then s1\<lparr>mt_min := itv\<rparr> else s1)
      in s2\<lparr>mt_avg := mt_avg s2 + itv\<rparr>)"

definition mg_start_stat :: mg_stat where
  "mg_start_stat = \<lparr>mt_max = 0, mt_min = ULONG_MAX, mt_avg = 0\<rparr>"

text \<open>A line of the summary: maximum, minimum, total and average in microseconds.\<close>

definition task_results :: "int \<Rightarrow> mg_entry list list \<Rightarrow> nat \<Rightarrow> int \<times> int \<times> int \<times> int" where
  "task_results nr_runs tab t =
     (let s = fold mg_sample (map (\<lambda>row. me_start (row ! t)) (take (nat nr_runs) tab)) mg_start_stat
      in (nano2usec (mt_max s), nano2usec (mt_min s), nano2usec (u64 (mt_avg s)), nano2usec (u64 (mt_avg s) div nr_runs)))"

definition print_results :: "int \<Rightarrow> nat \<Rightarrow> int \<Rightarrow> mg_entry list list \<Rightarrow> (int \<times> int \<times> int \<times> int) list \<times> bool option" where
  "print_results nr_runs nr_tasks check tab =
     (map (task_results nr_runs tab) [0..<nr_tasks], if check = 0 then None else Some (check > 0))"

section \<open>Properties\<close>

lemma ex_nat_cases: "(\<exists>i. P i) \<longleftrightarrow> P 0 \<or> (\<exists>i. P (Suc i))"
  by (metis not0_implies_Suc)

lemma check_from_iff:
  "check_from max_err lst row \<longleftrightarrow>
     (\<exists>p e es. lst = Some p \<and> row = e # es \<and> out_of_order max_err p e) \<or>
     (\<exists>i. Suc i < length row \<and> out_of_order max_err (row ! i) (row ! Suc i))"
proof (induction max_err lst row rule: check_from.induct)
  case (1 max_err lst)
  then show ?case by simp
next
  case (2 max_err lst e es)
  have tail: "(\<exists>i. Suc i < length (e # es) \<and> out_of_order max_err ((e # es) ! i) ((e # es) ! Suc i)) \<longleftrightarrow>
      (\<exists>f fs. es = f # fs \<and> out_of_order max_err e f) \<or>
      (\<exists>i. Suc i < length es \<and> out_of_order max_err (es ! i) (es ! Suc i))"
    unfolding ex_nat_cases [of "\<lambda>i. Suc i < length (e # es) \<and> out_of_order max_err ((e # es) ! i) ((e # es) ! Suc i)"]
    by (cases es) auto
  show ?case
  proof (cases "\<exists>p. lst = Some p \<and> out_of_order max_err p e")
    case True
    then show ?thesis by auto
  next
    case False
    then have "check_from max_err lst (e # es) = check_from max_err (Some e) es"
      by (auto split: option.splits)
    then show ?thesis using 2 False unfolding tail by (auto split: option.splits)
  qed
qed

lemma check_times_iff:
  "check_times max_err row \<longleftrightarrow> (\<exists>i. Suc i < length row \<and> out_of_order max_err (row ! i) (row ! Suc i))"
  by (simp add: check_times_def check_from_iff)

lemma mg_runs_first:
  assumes "\<forall>x \<in> set rs. \<not> snd x" and "0 \<le> loop" and "loop + int (length rs) = nr_runs"
  shows "mg_runs max_err 1 loop nr_runs rs =
    (case find (\<lambda>r. check_times max_err (fst (rs ! r))) [0..<length rs] of
       None \<Rightarrow> (nr_runs, 1)
     | Some r \<Rightarrow> (loop + int r + 1, -1))"
  using assms
proof (induction rs arbitrary: loop)
  case (Cons x rs)
  obtain row stop where x: "x = (row, stop)" by (cases x) blast
  have map: "find (\<lambda>r. check_times max_err (fst ((y # rs) ! r))) (map Suc ns) =
      map_option Suc (find (\<lambda>r. check_times max_err (fst (rs ! r))) ns)" for y ns
    by (induction ns) auto
  have up: "[0..<length (x # rs)] = 0 # map Suc [0..<length rs]" by (simp add: map_Suc_upt upt_conv_Cons del: upt_Suc)
  show ?case
    using Cons x unfolding up
    by (cases "find (\<lambda>r. check_times max_err (fst (rs ! r))) [0..<length rs]") (simp_all add: map)
qed simp

lemma find_first:
  "find P [0..<n] = Some r \<longleftrightarrow> r < n \<and> P r \<and> (\<forall>j < r. \<not> P j)"
proof -
  have "(\<exists>i. i < n \<and> P ([0..<n] ! i) \<and> r = [0..<n] ! i \<and> (\<forall>j < i. \<not> P ([0..<n] ! j))) \<longleftrightarrow>
      r < n \<and> P r \<and> (\<forall>j < r. \<not> P j)" by auto
  then show ?thesis by (simp add: find_Some_iff)
qed


definition ex_entry :: "int \<Rightarrow> int \<Rightarrow> int \<Rightarrow> mg_entry" where
  "ex_entry s l n = \<lparr>me_start = s, me_length = l, me_loops = n\<rparr>"


lemma busy_loop_step:
  assumes "0 \<le> t" "t < 9223372036854775808" "0 \<le> st" "st < 9223372036854775808" "0 < ri" "ri < 9223372036854775808"
  shows "u64 (t - st) < ri \<longleftrightarrow> st \<le> t \<and> t < st + ri"
proof (cases "st \<le> t")
  case True
  then show ?thesis using assms by (simp add: c_int) linarith
next
  case False
  then show ?thesis using assms by (simp add: u64_neg)
qed

lemma busy_loop_from:
  assumes "0 \<le> st" "st < 9223372036854775808" "0 < ri" "ri < 9223372036854775808"
    and "\<forall>t \<in> set ts. 0 \<le> t \<and> t < 9223372036854775808" and "0 \<le> n" and "n + int (length ts) < 18446744073709551616"
  shows "busy_loop ri st ts n = Some l \<longleftrightarrow>
    (\<exists>k < length ts. l = n + int k + 1 \<and> (ts ! k < st \<or> st + ri \<le> ts ! k) \<and> (\<forall>j < k. st \<le> ts ! j \<and> ts ! j < st + ri))"
  using assms(5-)
proof (induction ts arbitrary: n)
  case (Cons t ts)
  have u: "u64 (n + 1) = n + 1" using Cons.prems by (simp add: c_int)
  have b: "u64 (t - st) < ri \<longleftrightarrow> st \<le> t \<and> t < st + ri" using busy_loop_step Cons.prems assms(1-4) by simp
  have ih: "busy_loop ri st ts (n + 1) = Some l \<longleftrightarrow>
    (\<exists>k < length ts. l = n + 1 + int k + 1 \<and> (ts ! k < st \<or> st + ri \<le> ts ! k) \<and> (\<forall>j < k. st \<le> ts ! j \<and> ts ! j < st + ri))"
    using Cons by simp
  show ?case
  proof (cases "st \<le> t \<and> t < st + ri")
    case True
    have "(\<exists>k < length (t # ts). l = n + int k + 1 \<and> ((t # ts) ! k < st \<or> st + ri \<le> (t # ts) ! k) \<and>
        (\<forall>j < k. st \<le> (t # ts) ! j \<and> (t # ts) ! j < st + ri)) \<longleftrightarrow>
      (\<exists>k < length ts. l = n + 1 + int k + 1 \<and> (ts ! k < st \<or> st + ri \<le> ts ! k) \<and> (\<forall>j < k. st \<le> ts ! j \<and> ts ! j < st + ri))"
      using True ex_nat_cases [of "\<lambda>k. k < length (t # ts) \<and> l = n + int k + 1 \<and> ((t # ts) ! k < st \<or> st + ri \<le> (t # ts) ! k) \<and>
        (\<forall>j < k. st \<le> (t # ts) ! j \<and> (t # ts) ! j < st + ri)"]
      by (auto simp: All_less_Suc2)
    then show ?thesis using b u ih True by simp
  next
    case False
    then show ?thesis using b u by (auto simp: Let_def) (metis nth_Cons_0 gr0I not_less)+
  qed
qed simp

text \<open>
  The busy loop ends at the first reading of the clock that is the run time or more after the start, or
  before the start (a clock that was set back ends it at once); it counts the readings.
\<close>

theorem busy_loop_ends:
  assumes "0 \<le> st" "st < 9223372036854775808" "0 < ri" "ri < 9223372036854775808"
    and "\<forall>t \<in> set ts. 0 \<le> t \<and> t < 9223372036854775808" and "int (length ts) < 18446744073709551616"
  shows "busy_loop ri st ts 0 = Some l \<longleftrightarrow>
    (\<exists>k < length ts. l = int k + 1 \<and> (ts ! k < st \<or> st + ri \<le> ts ! k) \<and> (\<forall>j < k. st \<le> ts ! j \<and> ts ! j < st + ri))"
  using busy_loop_from [OF assms(1-5), of 0 l] assms(6) by simp

theorem busy_loop_ends_witness:
  "busy_loop 20 100 [105, 119, 121, 130] 0 = Some 3 \<and> busy_loop 20 100 [105, 90, 121] 0 = Some 2"
proof
  show "busy_loop 20 100 [105, 119, 121, 130] 0 = Some 3"
    by (subst busy_loop_ends) (auto intro!: exI [of _ 2] simp: less_Suc_eq numeral_2_eq_2)
  show "busy_loop 20 100 [105, 90, 121] 0 = Some 2"
    by (subst busy_loop_ends) (auto intro!: exI [of _ 1])
qed

lemma rotate_cpus_mod:
  "0 \<le> cpu \<Longrightarrow> cpu \<le> c \<Longrightarrow> 0 < c \<Longrightarrow>
     rotate_cpus {0..<c} cpu n = map (\<lambda>k. (cpu + int k) mod c) [0..<n]"
proof (induction n arbitrary: cpu)
  case (Suc n)
  have shift: "map (\<lambda>k. (a + int k) mod c) [0..<Suc n] = a mod c # map (\<lambda>k. (a + 1 + int k) mod c) [0..<n]" for a
    by (simp add: upt_conv_Cons map_Suc_upt [symmetric] algebra_simps del: upt_Suc)
  show ?case
  proof (cases "cpu = c")
    case True
    have "map (\<lambda>k. (c + 1 + int k) mod c) [0..<n] = map (\<lambda>k. (1 + int k) mod c) [0..<n]"
      by (simp add: add.assoc)
    then show ?thesis using True Suc.IH [of 1] Suc.prems unfolding shift by (simp add: rotate_cpu_def)
  next
    case False
    then show ?thesis using Suc.IH [of "cpu + 1"] Suc.prems unfolding shift by (simp add: rotate_cpu_def add.commute)
  qed
qed simp

lemma rotate_cpus_zero:
  "0 \<notin> m \<Longrightarrow> 1 \<notin> m \<Longrightarrow> cpu \<in> {0, 1} \<Longrightarrow> rotate_cpus m cpu n = replicate n 0"
  by (induction n arbitrary: cpu) (auto simp: rotate_cpu_def)

text \<open>
  The highest task visits the CPUs \<open>0\<close> to \<open>c - 1\<close> in turn when these are the ones it may use; when CPUs 0 and
  1 are not among them, it asks for CPU 0 in every run, which it may not use.
\<close>

theorem highest_task_rotates:
  "(0 < c \<longrightarrow> rotate_cpus {0..<c} 0 n = map (\<lambda>k. int k mod c) [0..<n]) \<and>
   (0 \<notin> m \<and> 1 \<notin> m \<longrightarrow> rotate_cpus m 0 n = replicate n 0)"
  using rotate_cpus_mod [of 0 c n] rotate_cpus_zero [of m 0 n] by simp

theorem highest_task_rotates_witness:
  "rotate_cpus {0..<3} 0 5 = [0, 1, 2, 0, 1] \<and> rotate_cpus {2, 3} 0 3 = [0, 0, 0]"
  using highest_task_rotates [of 3 5 "{2, 3}"] highest_task_rotates [of 3 3 "{2, 3}"]
  by (simp add: numeral_eq_Suc)

interpretation mgstat: latency_stats mg_sample mt_min mt_max mt_avg "\<lambda>_. True" "\<lambda>_. True"
  by unfold_locales (auto simp: mg_sample_def Let_def)

text \<open>The printed maximum, minimum and total of a task are those of its recorded start times.\<close>

theorem migrate_results:
  assumes "0 < nr_runs" and "nr_runs \<le> int (length tab)"
    and "xs = map (\<lambda>row. me_start (row ! t)) (take (nat nr_runs) tab)"
    and "\<forall>x \<in> set xs. 0 \<le> x \<and> x \<le> ULONG_MAX" and "sum_list xs \<le> ULONG_MAX"
  shows "task_results nr_runs tab t =
    (Max (set xs) div 1000, Min (set xs) div 1000, sum_list xs div 1000, sum_list xs div nr_runs div 1000)"
proof -
  have ne: "xs \<noteq> []" using assms(1-3) by auto
  have "mt_avg (fold mg_sample xs mg_start_stat) = sum_list xs"
    using mgstat.fold_sm [where s = mg_start_stat and ds = xs] by (simp add: mg_start_stat_def)
  moreover have "mt_min (fold mg_sample xs mg_start_stat) = Min (set xs)"
    using ne assms(4) by (intro mgstat.fold_mn_Min) (auto simp: mg_start_stat_def)
  moreover have "mt_max (fold mg_sample xs mg_start_stat) = Max (set xs)"
    using ne assms(4) by (intro mgstat.fold_mx_Max) (auto simp: mg_start_stat_def)
  moreover have "u64 (sum_list xs) = sum_list xs"
    using assms(4,5) by (intro u64_fits sum_list_nonneg) (auto simp: ULONG_MAX_def)
  ultimately show ?thesis using assms(3) by (simp add: task_results_def Let_def nano2usec_def)
qed

theorem migrate_results_witness:
  "task_results 2 [[ex_entry 5000 90 8, ex_entry 7000 90 9], [ex_entry 4000 90 8, ex_entry 20000 90 9]] 1 = (20, 7, 27, 13)"
  using migrate_results [of 2 "[[ex_entry 5000 90 8, ex_entry 7000 90 9], [ex_entry 4000 90 8, ex_entry 20000 90 9]]" "[7000, 20000]" 1]
  by (simp add: ex_entry_def ULONG_MAX_def)

end
