(* ===== verification/MigrateSystem.thy ===== *)
theory MigrateSystem
  imports MigrateTest
begin

text \<open>
  rt-migrate-test as a whole (\<^verbatim>\<open>src/rt-migrate-test/rt-migrate-test.c\<close>): the set-up of \<open>main\<close> and of a task, and \<open>main\<close>
  and its tasks with the two barriers as a step relation: which rows of the tables are complete when \<open>main\<close> looks at
  them, and how the tasks are told to end.
\<close>

section \<open>Set-up\<close>

text \<open>The number of tasks: the argument behind the options, or one more than there are CPUs.\<close>

definition mg_nr_tasks :: "string option \<Rightarrow> string list \<Rightarrow> int" where
  "mg_nr_tasks arg cpuinfo = (case arg of Some a \<Rightarrow> atoi a | None \<Rightarrow> s32 (count_cpus cpuinfo + 1))"

datatype mg_call =
    MgAlloc string | MgBarrier string int | MgCreate nat | MgSetPrio int | MgNoPrio | MgMarker "string option"

text \<open>
  The calls of \<open>main\<close> with the text of its failure. Of the two barriers only the result of the second is looked at, and
  only whether it is negative, which it never is.
\<close>

definition mg_main_calls :: "int \<Rightarrow> int \<Rightarrow> (mg_call \<times> string) list" where
  "mg_main_calls nr_tasks nr_runs =
     [(MgAlloc ''threads'', ''malloc''),
      (MgBarrier ''start'' (nr_tasks + 1), ''''),
      (MgBarrier ''end'' (nr_tasks + 1), ''pthread_barrier_init''),
      (MgAlloc ''intervals'', ''malloc intervals array''),
      (MgAlloc ''intervals_length'', ''malloc intervals length array''),
      (MgAlloc ''intervals_loops'', ''malloc intervals loops array''),
      (MgAlloc ''thread_pids'', ''malloc thread_pids'')] @
     concat (replicate (nat nr_runs)
       [(MgAlloc ''intervals[i]'', ''malloc intervals''),
        (MgAlloc ''intervals_length[i]'', ''malloc length intervals''),
        (MgAlloc ''intervals_loops[i]'', ''malloc loops intervals'')]) @
     map (\<lambda>i. (MgCreate i, ''pthread_create'')) [0..<nat nr_tasks]"

fun mg_status :: "(mg_call \<Rightarrow> int) \<Rightarrow> mg_call \<Rightarrow> int" where
  "mg_status st (MgBarrier w n) = (if w = ''end'' \<and> st (MgBarrier w n) < 0 then st (MgBarrier w n) else 0)"
| "mg_status st c = st c"

definition mg_main_start :: "(mg_call \<Rightarrow> int) \<Rightarrow> int \<Rightarrow> int \<Rightarrow> (mg_call, string) seq_result" where
  "mg_main_start st nr_tasks nr_runs = seq_calls (mg_status st) (mg_main_calls nr_tasks nr_runs)"

text \<open>The priority of \<open>main\<close>, whose failure is warned of, and the time it sleeps in each run.\<close>

definition mg_raise :: "int \<Rightarrow> int \<Rightarrow> int \<Rightarrow> mg_call list" where
  "mg_raise nr_tasks prio_start ret =
     MgSetPrio (nr_tasks + prio_start) # (if ret \<noteq> 0 then [MgNoPrio] else [])"

definition mg_sleep :: "int \<Rightarrow> int \<times> int" where
  "mg_sleep interval = (interval div 1000000000, interval mod sec2nano 1)"

text \<open>
  The start of a task: its priority, whether it is the highest, and whether it warns; \<open>None\<close> when its affinity could not
  be read, which ends the program.
\<close>

record task_start =
  ts_prio :: int
  ts_high :: bool
  ts_warned :: bool

definition mg_start_task :: "int \<Rightarrow> int \<Rightarrow> int \<Rightarrow> int \<Rightarrow> int \<Rightarrow> task_start option" where
  "mg_start_task nr_tasks prio_start i getaffinity setscheduler =
     (if getaffinity < 0 then None
      else Some \<lparr>ts_prio = i + prio_start, ts_high = (i = nr_tasks - 1), ts_warned = (setscheduler < 0 \<and> i = 0)\<rparr>)"

section \<open>The system\<close>

datatype task_pc = TTop | TStart | TBusy | TEnd | TGone

datatype mgmain_pc = MNow | MSleep | MEnd | MCheck | MLastStart | MSetDone | MLastEnd | MJoin | MOver

text \<open>
  The tasks, \<open>main\<close>, the variables they share, and how often each task has written its entry of each row.
\<close>

record mgsys =
  z_task :: "nat \<Rightarrow> task_pc"
  z_main :: mgmain_pc
  z_loop :: nat
  z_runs :: nat
  z_done :: bool
  z_written :: "nat \<Rightarrow> nat \<Rightarrow> nat"

definition put_task :: "nat \<Rightarrow> task_pc \<Rightarrow> mgsys \<Rightarrow> mgsys" where
  "put_task i p s = s\<lparr>z_task := (z_task s)(i := p)\<rparr>"

text \<open>\<open>record_time\<close> writes only while the run is one of those that count.\<close>

definition write_row :: "nat \<Rightarrow> mgsys \<Rightarrow> mgsys" where
  "write_row i s =
     (if z_loop s < z_runs s
      then s\<lparr>z_written := (z_written s)(z_loop s := (z_written s (z_loop s))(i := Suc (z_written s (z_loop s) i)))\<rparr>
      else s)"

text \<open>
  The end of a run: \<open>stopped\<close> says that the user wants the end or the check has failed, then this run is the last. The
  loop's own test comes with it.
\<close>

definition end_run :: "bool \<Rightarrow> mgsys \<Rightarrow> mgsys" where
  "end_run stopped s =
     (let l = Suc (z_loop s); runs = (if stopped then l else z_runs s)
      in s\<lparr>z_loop := l, z_runs := runs, z_main := (if l < runs then MNow else MLastStart)\<rparr>)"

inductive mgstep :: "nat \<Rightarrow> mgsys \<Rightarrow> mgsys \<Rightarrow> bool" for n where
  again: "i < n \<Longrightarrow> z_task s i = TTop \<Longrightarrow>
    mgstep n s (put_task i (if z_done s then TGone else TStart) s)"
| start: "\<forall>i < n. z_task s i = TStart \<Longrightarrow> z_main s = MNow \<or> z_main s = MLastStart \<Longrightarrow>
    mgstep n s (s\<lparr>z_task := \<lambda>i. TBusy, z_main := (if z_main s = MNow then MSleep else MSetDone)\<rparr>)"
| busy: "i < n \<Longrightarrow> z_task s i = TBusy \<Longrightarrow> mgstep n s (put_task i TEnd (write_row i s))"
| sleep: "z_main s = MSleep \<Longrightarrow> mgstep n s (s\<lparr>z_main := MEnd\<rparr>)"
| set_done: "z_main s = MSetDone \<Longrightarrow> mgstep n s (s\<lparr>z_done := True, z_main := MLastEnd\<rparr>)"
| finish: "\<forall>i < n. z_task s i = TEnd \<Longrightarrow> z_main s = MEnd \<or> z_main s = MLastEnd \<Longrightarrow>
    mgstep n s (s\<lparr>z_task := \<lambda>i. TTop, z_main := (if z_main s = MEnd then MCheck else MJoin)\<rparr>)"
| check: "z_main s = MCheck \<Longrightarrow> mgstep n s (end_run stopped s)"
| join: "z_main s = MJoin \<Longrightarrow> \<forall>i < n. z_task s i = TGone \<Longrightarrow> mgstep n s (s\<lparr>z_main := MOver\<rparr>)"

inductive_cases mgstepE: "mgstep n s t"

text \<open>The options allow no number of runs below one.\<close>

definition mgsys_init :: "nat \<Rightarrow> mgsys \<Rightarrow> bool" where
  "mgsys_init runs s \<longleftrightarrow> 0 < runs \<and> (\<forall>i. z_task s i = TTop) \<and> z_main s = MNow \<and> z_loop s = 0 \<and> z_runs s = runs \<and> \<not> z_done s \<and>
     (\<forall>l i. z_written s l i = 0)"

section \<open>The invariant\<close>

text \<open>Where the tasks are while \<open>main\<close> is at a place, whether they have been told to end, and whether runs are left.\<close>

fun task_at :: "mgmain_pc \<Rightarrow> task_pc set" where
  "task_at MNow = {TTop, TStart}"
| "task_at MSleep = {TBusy, TEnd}"
| "task_at MEnd = {TBusy, TEnd}"
| "task_at MCheck = {TTop, TStart}"
| "task_at MLastStart = {TTop, TStart}"
| "task_at MSetDone = {TBusy, TEnd}"
| "task_at MLastEnd = {TBusy, TEnd}"
| "task_at MJoin = {TTop, TGone}"
| "task_at MOver = {TGone}"

definition mg_running :: "mgmain_pc \<Rightarrow> bool" where
  "mg_running m \<longleftrightarrow> m \<in> {MNow, MSleep, MEnd, MCheck}"

text \<open>What has been written of the row of the run that is made.\<close>

definition row_now :: "mgsys \<Rightarrow> nat \<Rightarrow> nat" where
  "row_now s i =
     (case z_main s of
        MCheck \<Rightarrow> 1
      | MSleep \<Rightarrow> if z_task s i = TEnd then 1 else 0
      | MEnd \<Rightarrow> if z_task s i = TEnd then 1 else 0
      | _ \<Rightarrow> 0)"

definition mg_inv :: "nat \<Rightarrow> nat \<Rightarrow> mgsys \<Rightarrow> bool" where
  "mg_inv n runs s \<longleftrightarrow>
     (\<forall>i < n. z_task s i \<in> task_at (z_main s) \<and>
        (\<forall>l. z_written s l i = (if l < z_loop s then 1 else if l = z_loop s then row_now s i else 0))) \<and>
     (if mg_running (z_main s) then z_loop s < z_runs s else z_loop s = z_runs s) \<and>
     (z_done s \<longleftrightarrow> z_main s \<in> {MLastEnd, MJoin, MOver}) \<and> 0 < z_runs s \<and> z_runs s \<le> runs"

lemma mg_inv_step: "mg_inv n runs s \<Longrightarrow> mgstep n s t \<Longrightarrow> mg_inv n runs t"
proof (elim mgstepE)
  fix i assume inv: "mg_inv n runs s" and i: "i < n" "z_task s i = TTop"
    and t: "t = put_task i (if z_done s then TGone else TStart) s"
  show "mg_inv n runs t"
    using inv i by (cases "z_main s") (auto simp: mg_inv_def t put_task_def row_now_def mg_running_def)
next
  assume inv: "mg_inv n runs s" and "\<forall>i < n. z_task s i = TStart" and m: "z_main s = MNow \<or> z_main s = MLastStart"
    and t: "t = s\<lparr>z_task := \<lambda>i. TBusy, z_main := (if z_main s = MNow then MSleep else MSetDone)\<rparr>"
  from m show "mg_inv n runs t" using inv by (auto simp: mg_inv_def t row_now_def mg_running_def)
next
  fix i assume inv: "mg_inv n runs s" and i: "i < n" "z_task s i = TBusy" and t: "t = put_task i TEnd (write_row i s)"
  have m: "z_main s \<in> {MSleep, MEnd, MSetDone, MLastEnd}"
    using inv i by (cases "z_main s") (auto simp: mg_inv_def)
  show "mg_inv n runs t"
  proof (cases "z_loop s < z_runs s")
    case True
    then have "z_main s = MSleep \<or> z_main s = MEnd" using inv m by (auto simp: mg_inv_def mg_running_def)
    then show ?thesis
      using inv i True by (auto simp: mg_inv_def t put_task_def write_row_def row_now_def mg_running_def)
  next
    case False
    then have "z_main s = MSetDone \<or> z_main s = MLastEnd" using inv m by (auto simp: mg_inv_def mg_running_def)
    then show ?thesis
      using inv i False by (auto simp: mg_inv_def t put_task_def write_row_def row_now_def mg_running_def)
  qed
next
  assume inv: "mg_inv n runs s" and "z_main s = MSleep" and t: "t = s\<lparr>z_main := MEnd\<rparr>"
  then show "mg_inv n runs t" by (auto simp: mg_inv_def row_now_def mg_running_def)
next
  assume inv: "mg_inv n runs s" and "z_main s = MSetDone" and t: "t = s\<lparr>z_done := True, z_main := MLastEnd\<rparr>"
  then show "mg_inv n runs t" by (auto simp: mg_inv_def row_now_def mg_running_def)
next
  assume inv: "mg_inv n runs s" and e: "\<forall>i < n. z_task s i = TEnd" and m: "z_main s = MEnd \<or> z_main s = MLastEnd"
    and t: "t = s\<lparr>z_task := \<lambda>i. TTop, z_main := (if z_main s = MEnd then MCheck else MJoin)\<rparr>"
  from m show "mg_inv n runs t" using inv e by (auto simp: mg_inv_def t row_now_def mg_running_def)
next
  fix stopped assume inv: "mg_inv n runs s" and m: "z_main s = MCheck" and t: "t = end_run stopped s"
  show "mg_inv n runs t"
    using inv m by (auto simp: mg_inv_def t end_run_def row_now_def mg_running_def Let_def less_Suc_eq)
next
  assume inv: "mg_inv n runs s" and "z_main s = MJoin" "\<forall>i < n. z_task s i = TGone" and t: "t = s\<lparr>z_main := MOver\<rparr>"
  then show "mg_inv n runs t" by (auto simp: mg_inv_def row_now_def mg_running_def)
qed

interpretation mgsystem: machine "mgsys_init runs" "mgstep n" "mg_inv n runs" for n runs
proof unfold_locales
  show "mg_inv n runs s" if "mgsys_init runs s" for s
    using that by (auto simp: mgsys_init_def mg_inv_def row_now_def mg_running_def)
qed (rule mg_inv_step)

section \<open>The runs end\<close>

fun task_rank :: "task_pc \<Rightarrow> nat" where
  "task_rank TTop = 4"
| "task_rank TStart = 3"
| "task_rank TBusy = 2"
| "task_rank TEnd = 1"
| "task_rank TGone = 0"

fun main_rank :: "nat \<Rightarrow> mgmain_pc \<Rightarrow> nat" where
  "main_rank n MCheck = 1"
| "main_rank n MEnd = 3 * n + 2"
| "main_rank n MSleep = 3 * n + 3"
| "main_rank n MNow = 3 * n + 4"
| "main_rank n MOver = 0"
| "main_rank n MJoin = 1"
| "main_rank n MLastEnd = 3 * n + 2"
| "main_rank n MSetDone = 3 * n + 3"
| "main_rank n MLastStart = 3 * n + 4"

definition mg_weight :: "nat \<Rightarrow> mgsys \<Rightarrow> nat" where
  "mg_weight n s = (3 * n + 4) * (z_runs s - z_loop s) + main_rank n (z_main s) + (\<Sum>i < n. task_rank (z_task s i))"

lemma sum_task_upd:
  assumes "i < (n :: nat)"
  shows "(\<Sum>j < n. f ((g(i := x)) j)) + f (g i) = (\<Sum>j < n. f (g j)) + (f x :: nat)"
proof -
  have "(\<Sum>j < n. f ((g(i := x)) j)) = f x + (\<Sum>j \<in> {..<n} - {i}. f ((g(i := x)) j))"
    using assms by (subst sum.remove [of _ i]) simp_all
  also have "(\<Sum>j \<in> {..<n} - {i}. f ((g(i := x)) j)) = (\<Sum>j \<in> {..<n} - {i}. f (g j))"
    by (rule sum.cong) auto
  finally show ?thesis using assms sum.remove [of "{..<n}" i "\<lambda>j. f (g j)"] by simp
qed

lemma sum_tasks_const: "\<forall>i < n. z_task s i = p \<Longrightarrow> (\<Sum>i < n. task_rank (z_task s i)) = n * task_rank p"
  by simp

lemma mg_weight_step:
  assumes inv: "mg_inv n runs s" and st: "mgstep n s t"
  shows "mg_weight n t < mg_weight n s"
  using st
proof (cases rule: mgstep.cases)
  case (again i)
  then show ?thesis
    using sum_task_upd [of i n task_rank "z_task s" "if z_done s then TGone else TStart"]
    by (auto simp: mg_weight_def put_task_def split: if_splits)
next
  case start
  then show ?thesis by (auto simp: mg_weight_def)
next
  case (busy i)
  have "z_runs (write_row i s) = z_runs s" "z_loop (write_row i s) = z_loop s" "z_main (write_row i s) = z_main s"
    "z_task (write_row i s) = z_task s"
    by (simp_all add: write_row_def)
  then show ?thesis
    using busy sum_task_upd [of i n task_rank "z_task s" TEnd] by (simp add: mg_weight_def put_task_def)
next
  case finish
  then show ?thesis using sum_tasks_const [of n s TEnd] by (auto simp: mg_weight_def)
next
  case (check stopped)
  have "z_loop s < z_runs s" using inv check by (simp add: mg_inv_def mg_running_def)
  then obtain d where d: "z_runs s = Suc (z_loop s + d)" using less_iff_Suc_add by auto
  then show ?thesis using check by (auto simp: mg_weight_def end_run_def Let_def algebra_simps)
qed (auto simp: mg_weight_def)

lemma mg_run:
  "(mgstep n ^^ k) s t \<Longrightarrow> mg_inv n runs s \<Longrightarrow> mg_inv n runs t \<and> k + mg_weight n t \<le> mg_weight n s"
proof (induction k arbitrary: t)
  case (Suc k)
  then obtain u where u: "(mgstep n ^^ k) s u" "mgstep n u t" by auto
  then have "mg_inv n runs u" "k + mg_weight n u \<le> mg_weight n s" using Suc by auto
  then show ?case using mg_weight_step [OF _ u(2)] mg_inv_step [OF _ u(2)] by fastforce
qed simp

lemma task_rank_le: "task_rank p \<le> 4"
  by (cases p) simp_all

lemma mg_weight_le:
  assumes "mg_inv n runs s"
  shows "mg_weight n s \<le> (3 * n + 4) * (runs + 1) + 4 * n"
proof -
  have "main_rank n (z_main s) \<le> 3 * n + 4" by (cases "z_main s") simp_all
  moreover have "(\<Sum>i < n. task_rank (z_task s i)) \<le> (\<Sum>i < n. 4)" by (rule sum_mono) (rule task_rank_le)
  moreover have "(3 * n + 4) * (z_runs s - z_loop s) \<le> (3 * n + 4) * runs"
    using assms by (intro mult_le_mono2) (auto simp: mg_inv_def intro: order_trans [OF diff_le_self])
  ultimately show ?thesis by (simp add: mg_weight_def algebra_simps)
qed

lemma mg_can_step:
  assumes inv: "mg_inv n runs s" and "\<forall>t. \<not> mgstep n s t"
  shows "z_main s = MOver"
proof (rule ccontr)
  assume no: "z_main s \<noteq> MOver"
  have at: "z_task s i \<in> task_at (z_main s)" if "i < n" for i using inv that by (simp add: mg_inv_def)
  have nt: "z_task s i \<noteq> TTop" "z_task s i \<noteq> TBusy" if "i < n" for i
    using assms(2) that by (metis mgstep.again, metis mgstep.busy)
  have all: "\<forall>i < n. z_task s i = p" if "task_at (z_main s) - {TTop, TBusy} = {p}" for p
    using at nt that by blast
  show False
  proof (cases "z_main s")
    case MNow
    have "\<forall>i < n. z_task s i = TStart" by (rule all) (use MNow in auto)
    then show False using assms(2) mgstep.start MNow by blast
  next
    case MLastStart
    have "\<forall>i < n. z_task s i = TStart" by (rule all) (use MLastStart in auto)
    then show False using assms(2) mgstep.start MLastStart by blast
  next
    case MEnd
    have "\<forall>i < n. z_task s i = TEnd" by (rule all) (use MEnd in auto)
    then show False using assms(2) mgstep.finish MEnd by blast
  next
    case MLastEnd
    have "\<forall>i < n. z_task s i = TEnd" by (rule all) (use MLastEnd in auto)
    then show False using assms(2) mgstep.finish MLastEnd by blast
  next
    case MJoin
    have "\<forall>i < n. z_task s i = TGone" by (rule all) (use MJoin in auto)
    then show False using assms(2) mgstep.join MJoin by blast
  qed (use assms(2) no mgstep.sleep mgstep.set_done mgstep.check in blast)+
qed

text \<open>
  C23: rt-migrate-test as a whole. Whenever \<open>main\<close> checks a run, every task has written its entry of that row exactly
  once, and no task can still write; the program comes to its end after a bounded number of steps, whatever the order
  of the tasks, and then every row that counts is complete and nothing is written behind the last one,
  though the tasks have made one more round to see the flag.
\<close>

theorem migrate_runs_complete:
  assumes "reach (mgsys_init runs) (mgstep n) s" "(mgstep n ^^ k) s t"
  shows "(z_main s = MCheck \<longrightarrow> (\<forall>i < n. z_written s (z_loop s) i = 1 \<and> z_task s i \<noteq> TBusy)) \<and>
    k \<le> (3 * n + 4) * (runs + 1) + 4 * n \<and>
    ((\<forall>u. \<not> mgstep n t u) \<longrightarrow> z_main t = MOver \<and>
       (\<forall>i < n. z_task t i = TGone \<and> (\<forall>l. z_written t l i = (if l < z_runs t then 1 else 0))))"
proof -
  have inv: "mg_inv n runs s" using assms(1) by (rule mgsystem.reach_inv)
  have t: "mg_inv n runs t" "k + mg_weight n t \<le> mg_weight n s" using mg_run [OF assms(2) inv] by auto
  have "k \<le> (3 * n + 4) * (runs + 1) + 4 * n" using t(2) mg_weight_le [OF inv] by linarith
  moreover have "z_main s = MCheck \<Longrightarrow> \<forall>i < n. z_written s (z_loop s) i = 1 \<and> z_task s i \<noteq> TBusy"
    using inv by (auto simp: mg_inv_def row_now_def)
  moreover have "z_main t = MOver \<Longrightarrow>
      \<forall>i < n. z_task t i = TGone \<and> (\<forall>l. z_written t l i = (if l < z_runs t then 1 else 0))"
    using t(1) by (auto simp: mg_inv_def row_now_def mg_running_def)
  ultimately show ?thesis using mg_can_step [OF t(1)] by blast
qed

definition ex_mg :: "task_pc \<Rightarrow> mgmain_pc \<Rightarrow> mgsys" where
  "ex_mg p m = \<lparr>z_task = \<lambda>_. p, z_main = m, z_loop = 0, z_runs = 1, z_done = False, z_written = \<lambda>_ _. 0\<rparr>"

theorem migrate_runs_complete_witness:
  "\<exists>t. (mgstep 1 ^^ 1) (ex_mg TTop MNow) t \<and> (1 :: nat) \<le> (3 * 1 + 4) * (1 + 1) + 4 * 1"
proof -
  have r: "reach (mgsys_init 1) (mgstep 1) (ex_mg TTop MNow)"
    by (rule reach_init) (simp add: mgsys_init_def ex_mg_def)
  have "mgstep 1 (ex_mg TTop MNow) (put_task 0 TStart (ex_mg TTop MNow))"
    using mgstep.again [of 0 1 "ex_mg TTop MNow"] by (simp add: ex_mg_def)
  then have run: "(mgstep 1 ^^ 1) (ex_mg TTop MNow) (put_task 0 TStart (ex_mg TTop MNow))" by (simp add: eq_OO)
  from migrate_runs_complete [OF r run] run show ?thesis by blast
qed

section \<open>Set-up\<close>

text \<open>
  The priorities are taken as they come: with the largest base priority that the options accept all tasks but the first
  ask for one that does not exist, and only the first would say so.
\<close>

theorem high_priorities_unnoticed:
  assumes "0 < i" "i < nr_tasks" "mg_start_task nr_tasks 99 i 0 setscheduler = Some ts"
  shows "99 < ts_prio ts \<and> \<not> ts_warned ts"
  using assms by (auto simp: mg_start_task_def)

theorem high_priorities_unnoticed_witness:
  "99 < ts_prio (the (mg_start_task 4 99 2 0 (- 1)))"
  using high_priorities_unnoticed [of 2 4 "- 1" "the (mg_start_task 4 99 2 0 (- 1))"]
  by (simp add: mg_start_task_def)

end
