(* ===== verification/SigTest.thy ===== *)
theory SigTest
  imports RtPrelude
begin

text \<open>
  sigtest (\<^verbatim>\<open>src/pi_tests/sigtest.c\<close>): a program that starts a timer of half a second, waits for its signal and counts.
  What the kernel answers is the input: the results of the calls, and for each round that of \<open>timer_settime\<close> and
  of the calls around \<open>sigwait\<close>. The timer is \<open>None\<close> while nothing has been stored in it.
\<close>

section \<open>The operations\<close>

abbreviation (input) SUCCESS :: int where "SUCCESS \<equiv> 0"
abbreviation (input) FAILURE :: int where "FAILURE \<equiv> - 1"
abbreviation (input) SIGINT :: int where "SIGINT \<equiv> 2"

text \<open>\<open>SIGRTMIN\<close> of the C library is 34.\<close>

abbreviation (input) TIMER_SIGNAL :: int where "TIMER_SIGNAL \<equiv> 35"

text \<open>The kernel's answer to \<open>timer_create\<close> is its status and the timer's number.\<close>

definition setup_timer :: "int \<times> int \<Rightarrow> int option \<times> int" where
  "setup_timer r = (case r of (status, t) \<Rightarrow> if status \<noteq> 0 then (None, FAILURE) else (Some t, SUCCESS))"

text \<open>
  The call \<open>timer_settime\<close> that is made, with the time in seconds and nanoseconds and no interval, and the status of it
  that is returned.
\<close>

datatype settime = Settime "int option" "int \<times> int" "int \<times> int"

definition start_timer :: "int option \<Rightarrow> int \<Rightarrow> int \<Rightarrow> int \<Rightarrow> settime \<times> int" where
  "start_timer t sec nsec status = (Settime t (0, 0) (sec, nsec), status)"

text \<open>
  The results of the calls around the waiting: \<open>sigemptyset\<close>, the two \<open>sigaddset\<close> and \<open>sigwait\<close> with the number
  it stores.
\<close>

record sig_wait =
  w_empty :: int
  w_add_int :: int
  w_add_timer :: int
  w_wait :: int
  w_signo :: int

definition wait_for_signal :: "sig_wait \<Rightarrow> int" where
  "wait_for_signal w =
     (if w_empty w \<noteq> 0 then - 1
      else if w_add_int w \<noteq> 0 then - 1
      else if w_add_timer w \<noteq> 0 then - 1
      else if w_wait w \<noteq> 0 then - 1
      else w_signo w)"

definition st_block_signals :: "int \<Rightarrow> int \<Rightarrow> int" where
  "st_block_signals fill mask_status =
     (if fill \<noteq> 0 then FAILURE else if mask_status \<noteq> 0 then FAILURE else SUCCESS)"

section \<open>The program\<close>

datatype st_out = PressCtrlC | Start settime | CountLine int | CursorDown | CursorUp | Wtf

text \<open>
  Rounds until the loop ends: the output, the count, and the value \<open>main\<close> returns, \<open>None\<close> when the rounds are used up.
  \<open>count\<close> is an unsigned long.
\<close>

fun st_loop :: "int option \<Rightarrow> int \<Rightarrow> (int \<times> sig_wait) list \<Rightarrow> st_out list \<times> int \<times> int option" where
  "st_loop t count [] = ([], count, None)"
| "st_loop t count ((settime, w) # rounds) =
     (case start_timer t 0 500000000 settime of
        (call, status) \<Rightarrow>
          if status \<noteq> 0 then ([Start call], count, Some 0)
          else if wait_for_signal w = SIGINT then ([Start call, CursorDown], count, Some 0)
          else if wait_for_signal w = TIMER_SIGNAL
          then (let count1 = take_bit 64 (count + 1) in
                case st_loop t count1 rounds of
                  (out, c, r) \<Rightarrow> (Start call # CountLine count1 # CursorUp # out, c, r))
          else ([Start call, Wtf], count, Some (- 1)))"

text \<open>The results of \<open>block_signals\<close> and \<open>setup_timer\<close> are not looked at.\<close>

definition st_main ::
  "int \<times> int \<Rightarrow> int \<times> int \<Rightarrow> (int \<times> sig_wait) list \<Rightarrow> st_out list \<times> int \<times> int option" where
  "st_main blocked created rounds =
     (case (st_block_signals (fst blocked) (snd blocked), setup_timer created) of
        (_, t, _) \<Rightarrow> case st_loop t 0 rounds of (out, c, r) \<Rightarrow> (PressCtrlC # out, c, r))"

section \<open>Properties\<close>

definition is_tick :: "int \<times> sig_wait \<Rightarrow> bool" where
  "is_tick r \<longleftrightarrow> fst r = 0 \<and> wait_for_signal (snd r) = TIMER_SIGNAL"

text \<open>How \<open>main\<close> ends at a round that is not a tick.\<close>

definition st_status :: "int \<times> sig_wait \<Rightarrow> int" where
  "st_status r = (if fst r \<noteq> 0 \<or> wait_for_signal (snd r) = SIGINT then 0 else - 1)"

fun counted :: "st_out \<Rightarrow> int option" where
  "counted (CountLine n) = Some n"
| "counted _ = None"

lemma st_loop_counts:
  assumes "0 \<le> count" "count + int (length rounds) < 2 ^ 64"
  shows "List.map_filter counted (fst (st_loop t count rounds)) =
      map (\<lambda>k. count + 1 + int k) [0..<length (takeWhile is_tick rounds)] \<and>
    fst (snd (st_loop t count rounds)) = count + int (length (takeWhile is_tick rounds)) \<and>
    snd (snd (st_loop t count rounds)) =
      (case dropWhile is_tick rounds of [] \<Rightarrow> None | r # _ \<Rightarrow> Some (st_status r))"
  using assms
proof (induction t count rounds rule: st_loop.induct)
  case (1 t count)
  then show ?case by (simp add: map_filter_def)
next
  case (2 t count s w rounds)
  show ?case
  proof (cases "is_tick (s, w)")
    case True
    have c: "take_bit 64 (count + 1) = count + 1"
      using 2(2,3) by (intro take_bit_int_eq_self) simp_all
    have sw: "s = 0" "wait_for_signal w = TIMER_SIGNAL" using True by (simp_all add: is_tick_def)
    obtain out cc r where l: "st_loop t (count + 1) rounds = (out, cc, r)" by (cases "st_loop t (count + 1) rounds") blast
    have IH: "List.map_filter counted out = map (\<lambda>k. count + 2 + int k) [0..<length (takeWhile is_tick rounds)]"
      "cc = count + 1 + int (length (takeWhile is_tick rounds))"
      "r = (case dropWhile is_tick rounds of [] \<Rightarrow> None | r # _ \<Rightarrow> Some (st_status r))"
      using 2(1) [of _ s "count + 1"] 2(2,3) sw c l by (simp_all add: start_timer_def)
    have up: "map (\<lambda>k. count + 1 + int k) [0..<Suc n] = (count + 1) # map (\<lambda>k. count + 2 + int k) [0..<n]" for n
      by (simp add: upt_conv_Cons map_Suc_upt [symmetric] del: upt_Suc)
    have "fst (st_loop t count ((s, w) # rounds)) =
        Start (Settime t (0, 0) (0, 500000000)) # CountLine (count + 1) # CursorUp # out"
      "snd (st_loop t count ((s, w) # rounds)) = (cc, r)"
      using sw c l by (simp_all add: start_timer_def)
    moreover have "takeWhile is_tick ((s, w) # rounds) = (s, w) # takeWhile is_tick rounds"
      "dropWhile is_tick ((s, w) # rounds) = dropWhile is_tick rounds"
      using True by simp_all
    ultimately show ?thesis
      using IH up [of "length (takeWhile is_tick rounds)"] by (simp add: map_filter_def del: upt_Suc)
  next
    case False
    then show ?thesis by (auto simp: is_tick_def st_status_def start_timer_def map_filter_def)
  qed
qed

lemma st_main_eq:
  "st_main blocked created rounds = (PressCtrlC # fst (st_loop (fst (setup_timer created)) 0 rounds),
     snd (st_loop (fst (setup_timer created)) 0 rounds))"
  by (simp add: st_main_def split_beta)

lemma st_loop_first:
  "rounds \<noteq> [] \<Longrightarrow> Start (Settime t (0, 0) (0, 500000000)) \<in> set (fst (st_loop t count rounds))"
  by (cases rounds) (auto simp: start_timer_def split_beta Let_def)

text \<open>
  The program counts the signals of the timer without a gap and shows every count once; it ends with status 0 at the
  first interrupt or when the timer cannot be started, with \<open>- 1\<close> at any other result of the waiting.
\<close>

theorem sigtest_counts_ticks:
  assumes "int (length rounds) < 2 ^ 64"
  shows "List.map_filter counted (fst (st_main blocked created rounds)) =
      map (\<lambda>k. 1 + int k) [0..<length (takeWhile is_tick rounds)] \<and>
    snd (snd (st_main blocked created rounds)) =
      (case dropWhile is_tick rounds of [] \<Rightarrow> None | r # _ \<Rightarrow> Some (st_status r))"
  using st_loop_counts [of 0 rounds "fst (setup_timer created)"] assms
  by (simp add: st_main_eq map_filter_def)

theorem sigtest_counts_ticks_witness:
  "snd (snd (st_main (0, 0) (0, 7) [(0, \<lparr>w_empty = 0, w_add_int = 0, w_add_timer = 0, w_wait = 0, w_signo = 35\<rparr>),
     (0, \<lparr>w_empty = 0, w_add_int = 0, w_add_timer = 0, w_wait = 0, w_signo = 2\<rparr>)])) = Some 0"
  using sigtest_counts_ticks [of "[(0, \<lparr>w_empty = 0, w_add_int = 0, w_add_timer = 0, w_wait = 0, w_signo = 35\<rparr>),
     (0, \<lparr>w_empty = 0, w_add_int = 0, w_add_timer = 0, w_wait = 0, w_signo = 2\<rparr>)]" "(0, 0)" "(0, 7)"]
  by (simp add: is_tick_def wait_for_signal_def st_status_def)

text \<open>
  When the timer could not be created the program goes on all the same, and every start is made on a variable in
  which nothing was stored.
\<close>

lemma failed_setup_uses_undefined_timer:
  assumes "status \<noteq> 0" "rounds \<noteq> []"
  shows "Start (Settime None (0, 0) (0, 500000000)) \<in> set (fst (st_main blocked (status, t) rounds))"
  using assms st_loop_first [of rounds None 0] by (simp add: st_main_eq setup_timer_def)

end
