(* ===== verification/RtSys.thy ===== *)
theory RtSys
  imports RtNuma
begin

text \<open>
  The small helpers of the library: the error reports of \<^verbatim>\<open>src/lib/error.c\<close>, the CPU a thread runs on
  (\<^verbatim>\<open>src/include/rt-get_cpu.h\<close>, \<^verbatim>\<open>src/lib/rt-get_cpu.c\<close>), and the wrappers of \<^verbatim>\<open>src/cyclictest/rt_numa.h\<close> that report what
  libnuma returns. A message is given as the text its format expands to; \<open>strerror\<close>, libnuma and the kernel are
  parameters.
\<close>

section \<open>Error reports\<close>

text \<open>What is written to the standard error, and whether the function returns or the program exits.\<close>

datatype err_end = ErrReturns | ErrExits int

definition err_doit :: "(int \<Rightarrow> string) \<Rightarrow> int \<Rightarrow> string \<Rightarrow> string" where
  "err_doit strerror err msg = msg @ (if err \<noteq> 0 then '': '' @ strerror err @ [CHR 0x0A] else [])"

definition err_exit :: "(int \<Rightarrow> string) \<Rightarrow> int \<Rightarrow> string \<Rightarrow> string \<times> err_end" where
  "err_exit strerror err msg = (err_doit strerror err msg, ErrExits err)"

definition err_msg :: "(int \<Rightarrow> string) \<Rightarrow> string \<Rightarrow> string \<times> err_end" where
  "err_msg strerror msg = (err_doit strerror 0 msg, ErrReturns)"

definition err_msg_n :: "(int \<Rightarrow> string) \<Rightarrow> int \<Rightarrow> string \<Rightarrow> string \<times> err_end" where
  "err_msg_n strerror err msg = (err_doit strerror err msg, ErrReturns)"

definition err_quit :: "(int \<Rightarrow> string) \<Rightarrow> string \<Rightarrow> string \<times> err_end" where
  "err_quit strerror msg = (err_doit strerror 0 msg, ErrExits 1)"

definition err_debug :: "(int \<Rightarrow> string) \<Rightarrow> string \<Rightarrow> string \<times> err_end" where
  "err_debug strerror msg = (''DEBUG: '' @ err_doit strerror 0 msg, ErrReturns)"

definition err_info :: "(int \<Rightarrow> string) \<Rightarrow> string \<Rightarrow> string \<times> err_end" where
  "err_info strerror msg = (''INFO: '' @ err_doit strerror 0 msg, ErrReturns)"

definition err_warn :: "(int \<Rightarrow> string) \<Rightarrow> string \<Rightarrow> string \<times> err_end" where
  "err_warn strerror msg = (''WARN: '' @ err_doit strerror 0 msg, ErrReturns)"

definition err_fatal :: "(int \<Rightarrow> string) \<Rightarrow> string \<Rightarrow> string \<times> err_end" where
  "err_fatal strerror msg = (''FATAL: '' @ err_doit strerror 0 msg, ErrExits 1)"

text \<open>What the parent of the program sees: the low byte of the argument of \<open>exit\<close>.\<close>

definition exit_byte :: "int \<Rightarrow> int" where
  "exit_byte c = c mod 256"

section \<open>The CPU of a thread\<close>

text \<open>\<open>get_cpu\<close> with the system call: its result, and the CPU it stored.\<close>

definition get_cpu :: "int \<times> int \<Rightarrow> int" where
  "get_cpu r = (case r of (s, c) \<Rightarrow> if s = -1 then s else c)"

text \<open>With the function of the vdso the two are unsigned, and the result is converted back.\<close>

definition getcpu_vdso :: "int \<times> int \<Rightarrow> int" where
  "getcpu_vdso r = (case r of (s, c) \<Rightarrow> if u32 s = u32 (-1) then s32 (u32 s) else s32 (u32 c))"

text \<open>
  \<open>get_cpu_setup\<close>: the library's handle and the symbol in it, if they are found; the result, and the
  function now behind \<open>get_cpu_vdsop\<close> and \<open>get_cpu\<close>.
\<close>

definition get_cpu_setup :: "'h option \<Rightarrow> ('h \<Rightarrow> 'f option) \<Rightarrow> int \<times> 'f option" where
  "get_cpu_setup handle dlsym =
     (case handle of
        Some h \<Rightarrow> (case dlsym h of Some f \<Rightarrow> (0, Some f) | None \<Rightarrow> (-1, None))
      | None \<Rightarrow> (-1, None))"

section \<open>Wrappers for libnuma\<close>

definition rt_numa_set_numa_run_on_node ::
  "(int \<Rightarrow> string) \<Rightarrow> (int \<Rightarrow> int) \<Rightarrow> (int \<Rightarrow> int \<Rightarrow> string) \<Rightarrow> int \<Rightarrow> int \<Rightarrow> string \<times> err_end" where
  "rt_numa_set_numa_run_on_node strerror numa_run_on_node msg node cpu =
     (if numa_run_on_node node \<noteq> 0 then err_warn strerror (msg node cpu) else ([], ErrReturns))"

text \<open>The stack, or \<open>None\<close> when the program ends with the report.\<close>

definition rt_numa_numa_alloc_onnode ::
  "(int \<Rightarrow> string) \<Rightarrow> (int \<Rightarrow> int \<Rightarrow> 'p option) \<Rightarrow> (int \<Rightarrow> int \<Rightarrow> int \<Rightarrow> string) \<Rightarrow> int \<Rightarrow> int \<Rightarrow> int
     \<Rightarrow> (string \<times> err_end) + 'p" where
  "rt_numa_numa_alloc_onnode strerror alloc msg size1 node cpu =
     (case alloc size1 node of
        None \<Rightarrow> Inl (err_fatal strerror (msg size1 node cpu))
      | Some stack \<Rightarrow> Inr stack)"

definition numa_node_of_cpu_v2 ::
  "(int \<Rightarrow> string) \<Rightarrow> (int \<Rightarrow> int) \<Rightarrow> (int \<Rightarrow> string) \<Rightarrow> int \<Rightarrow> (string \<times> err_end) + int" where
  "numa_node_of_cpu_v2 strerror node_of_cpu msg cpu =
     (let node = node_of_cpu cpu
      in if node = -1 then Inl (err_fatal strerror (msg cpu)) else Inr node)"

section \<open>Properties\<close>

text \<open>
  \<open>err_exit\<close> with a code that is a multiple of 256 tells the parent of the program that all went well; with the error
  numbers of the kernel, below 256, the parent sees a failure. \<open>err_quit\<close> and \<open>fatal\<close> always fail.
\<close>

lemma err_exit_seen:
  "\<exists>t. err_exit strerror err msg = (t, ErrExits err) \<and> (exit_byte err = 0 \<longleftrightarrow> 256 dvd err)"
  by (auto simp: err_exit_def exit_byte_def)

lemma quit_and_fatal_fail:
  "\<exists>c. snd (err_quit strerror msg) = ErrExits c \<and> snd (err_fatal strerror msg) = ErrExits c \<and> exit_byte c \<noteq> 0"
  by (simp add: err_quit_def err_fatal_def exit_byte_def)

text \<open>
  The three levels that return: a level's word stands before
  the message and nothing is put behind it, so the line ends where the caller's format ends it.
\<close>

lemma levels_return:
  "err_debug strerror msg = (''DEBUG: '' @ msg, ErrReturns)"
  "err_info strerror msg = (''INFO: '' @ msg, ErrReturns)"
  "err_warn strerror msg = (''WARN: '' @ msg, ErrReturns)"
  by (simp_all add: err_debug_def err_info_def err_warn_def err_doit_def)

text \<open>Both ways to find the CPU agree on every CPU number and on the error.\<close>

lemma vdso_agrees:
  assumes "c \<in> {0..<2147483648}" "s = 0 \<or> s = -1"
  shows "getcpu_vdso (s, c) = get_cpu (s, c)"
proof -
  have "s32 (u32 (-1)) = -1" by code_simp
  with assms show ?thesis by (auto simp: getcpu_vdso_def get_cpu_def c_int simp del: take_bit_minus_one_eq_mask)
qed

text \<open>
  The two interfaces of libnuma differ in what happens with a CPU of no node: with the old one the caller gets -1, with
  the new one the program ends.
\<close>

lemma node_of_cpu_versions_differ:
  assumes "\<forall>n \<in> set [0..max_node]. \<exists>m. ncpus n = Some m \<and> (m ! nat (cpu sdiv 8)) AND 2 ^ nat (cpu smod 8) = 0"
    and "node_of_cpu cpu = -1"
  shows "numa_node_of_cpu_v1 ncpus max_node max_cpus cpu = -1 \<and>
    (\<exists>t. numa_node_of_cpu_v2 strerror node_of_cpu msg cpu = Inl (t, ErrExits 1))"
proof -
  have "search_node ncpus i b ns = -1"
    if "\<forall>n \<in> set ns. \<exists>m. ncpus n = Some m \<and> (m ! nat i) AND 2 ^ nat b = 0" for i b ns
    using that by (induction ns) auto
  with assms show ?thesis
    by (auto simp: numa_node_of_cpu_v1_def numa_node_of_cpu_v2_def err_fatal_def)
qed

end
