(* ===== verification/CyclicCommand.thy ===== *)
theory CyclicCommand
  imports RtGetopt CyclicOptions
begin

text \<open>
  The command line of cyclictest (\<^verbatim>\<open>src/cyclictest/cyclictest.c\<close>): the option string, the table of long options
  and the labels of the \<open>switch\<close>, put between \<open>getopt_long\<close> and \<open>process_options\<close>.
\<close>

section \<open>Tables\<close>

text \<open>\<open>enum option_values\<close>; the number 42 is \<open>OPT_NUMOPTS\<close>, which no row and no label uses.\<close>

primrec option_value :: "copt \<Rightarrow> int" where
  "option_value OPT_AFFINITY = 1"
| "option_value OPT_NOTRACE = 2"
| "option_value OPT_BREAKTRACE = 3"
| "option_value OPT_PREEMPTIRQ = 4"
| "option_value OPT_CLOCK = 5"
| "option_value OPT_CONTEXT = 6"
| "option_value OPT_DISTANCE = 7"
| "option_value OPT_DURATION = 8"
| "option_value OPT_LATENCY = 9"
| "option_value OPT_EVENT = 10"
| "option_value OPT_FTRACE = 11"
| "option_value OPT_FIFO = 12"
| "option_value OPT_HISTOGRAM = 13"
| "option_value OPT_HISTOFALL = 14"
| "option_value OPT_INTERVAL = 15"
| "option_value OPT_IRQSOFF = 16"
| "option_value OPT_LOOPS = 17"
| "option_value OPT_MLOCKALL = 18"
| "option_value OPT_REFRESH = 19"
| "option_value OPT_NANOSLEEP = 20"
| "option_value OPT_NSECS = 21"
| "option_value OPT_OSCOPE = 22"
| "option_value OPT_TRACEOPT = 23"
| "option_value OPT_PRIORITY = 24"
| "option_value OPT_PREEMPTOFF = 25"
| "option_value OPT_QUIET = 26"
| "option_value OPT_PRIOSPREAD = 27"
| "option_value OPT_RELATIVE = 28"
| "option_value OPT_RESOLUTION = 29"
| "option_value OPT_SYSTEM = 30"
| "option_value OPT_SMP = 31"
| "option_value OPT_THREADS = 32"
| "option_value OPT_TRACER = 33"
| "option_value OPT_UNBUFFERED = 34"
| "option_value OPT_NUMA = 35"
| "option_value OPT_VERBOSE = 36"
| "option_value OPT_WAKEUP = 37"
| "option_value OPT_WAKEUPRT = 38"
| "option_value OPT_DBGCYCLIC = 39"
| "option_value OPT_POLICY = 40"
| "option_value OPT_HELP = 41"
| "option_value OPT_ALIGNED = 43"
| "option_value OPT_LAPTOP = 44"
| "option_value OPT_SECALIGNED = 45"

definition ct_table :: "(string \<times> arg_kind \<times> copt) list" where
  "ct_table =
     [(''affinity'', OptionalArgument, OPT_AFFINITY),
      (''notrace'', NoArgument, OPT_NOTRACE),
      (''aligned'', OptionalArgument, OPT_ALIGNED),
      (''breaktrace'', RequiredArgument, OPT_BREAKTRACE),
      (''preemptirqs'', NoArgument, OPT_PREEMPTIRQ),
      (''clock'', RequiredArgument, OPT_CLOCK),
      (''context'', NoArgument, OPT_CONTEXT),
      (''distance'', RequiredArgument, OPT_DISTANCE),
      (''duration'', RequiredArgument, OPT_DURATION),
      (''latency'', RequiredArgument, OPT_LATENCY),
      (''event'', NoArgument, OPT_EVENT),
      (''ftrace'', NoArgument, OPT_FTRACE),
      (''fifo'', RequiredArgument, OPT_FIFO),
      (''histogram'', RequiredArgument, OPT_HISTOGRAM),
      (''histofall'', RequiredArgument, OPT_HISTOFALL),
      (''interval'', RequiredArgument, OPT_INTERVAL),
      (''irqsoff'', NoArgument, OPT_IRQSOFF),
      (''laptop'', NoArgument, OPT_LAPTOP),
      (''loops'', RequiredArgument, OPT_LOOPS),
      (''mlockall'', NoArgument, OPT_MLOCKALL),
      (''refresh_on_max'', NoArgument, OPT_REFRESH),
      (''nanosleep'', NoArgument, OPT_NANOSLEEP),
      (''nsecs'', NoArgument, OPT_NSECS),
      (''oscope'', RequiredArgument, OPT_OSCOPE),
      (''traceopt'', RequiredArgument, OPT_TRACEOPT),
      (''priority'', RequiredArgument, OPT_PRIORITY),
      (''preemptoff'', NoArgument, OPT_PREEMPTOFF),
      (''quiet'', NoArgument, OPT_QUIET),
      (''priospread'', NoArgument, OPT_PRIOSPREAD),
      (''relative'', NoArgument, OPT_RELATIVE),
      (''resolution'', NoArgument, OPT_RESOLUTION),
      (''secaligned'', OptionalArgument, OPT_SECALIGNED),
      (''system'', NoArgument, OPT_SYSTEM),
      (''smp'', NoArgument, OPT_SMP),
      (''threads'', OptionalArgument, OPT_THREADS),
      (''tracer'', RequiredArgument, OPT_TRACER),
      (''unbuffered'', NoArgument, OPT_UNBUFFERED),
      (''numa'', NoArgument, OPT_NUMA),
      (''verbose'', NoArgument, OPT_VERBOSE),
      (''wakeup'', NoArgument, OPT_WAKEUP),
      (''wakeuprt'', NoArgument, OPT_WAKEUPRT),
      (''dbg_cyclictest'', NoArgument, OPT_DBGCYCLIC),
      (''policy'', RequiredArgument, OPT_POLICY),
      (''help'', NoArgument, OPT_HELP)]"

definition ct_rows :: "long_option list" where
  "ct_rows = map (\<lambda>(nm, k, v). (nm, k, option_value v)) ct_table"

definition ct_optstring :: string where
  "ct_optstring = ''a::A::b:Bc:Cd:D:Efh:H:i:Il:MnNo:O:p:PmqrRsSt::uUvD:wWT:''"

text \<open>The labels of the \<open>switch\<close> that are letters, with the label each stands beside.\<close>

definition ct_letters :: "(char \<times> copt) list" where
  "ct_letters =
     [(CHR ''a'', OPT_AFFINITY), (CHR ''A'', OPT_ALIGNED), (CHR ''b'', OPT_BREAKTRACE), (CHR ''B'', OPT_PREEMPTIRQ),
      (CHR ''c'', OPT_CLOCK), (CHR ''C'', OPT_CONTEXT), (CHR ''d'', OPT_DISTANCE), (CHR ''D'', OPT_DURATION),
      (CHR ''E'', OPT_EVENT), (CHR ''f'', OPT_FTRACE), (CHR ''F'', OPT_FIFO), (CHR ''H'', OPT_HISTOFALL),
      (CHR ''h'', OPT_HISTOGRAM), (CHR ''i'', OPT_INTERVAL), (CHR ''I'', OPT_IRQSOFF), (CHR ''l'', OPT_LOOPS),
      (CHR ''m'', OPT_MLOCKALL), (CHR ''M'', OPT_REFRESH), (CHR ''n'', OPT_NANOSLEEP), (CHR ''N'', OPT_NSECS),
      (CHR ''o'', OPT_OSCOPE), (CHR ''O'', OPT_TRACEOPT), (CHR ''p'', OPT_PRIORITY), (CHR ''P'', OPT_PREEMPTOFF),
      (CHR ''q'', OPT_QUIET), (CHR ''r'', OPT_RELATIVE), (CHR ''R'', OPT_RESOLUTION), (CHR ''s'', OPT_SECALIGNED),
      (CHR ''S'', OPT_SMP), (CHR ''t'', OPT_THREADS), (CHR ''T'', OPT_TRACER), (CHR ''u'', OPT_UNBUFFERED),
      (CHR ''U'', OPT_NUMA), (CHR ''v'', OPT_VERBOSE), (CHR ''w'', OPT_WAKEUP), (CHR ''W'', OPT_WAKEUPRT),
      (CHR ''?'', OPT_HELP)]"

section \<open>From the words to the options\<close>

text \<open>The \<open>switch\<close> on the value: its label, or none.\<close>

definition ct_case :: "int \<Rightarrow> copt option" where
  "ct_case v =
     (case map_of (map (\<lambda>(c, l). (letter c, l)) ct_letters) v of
        Some l \<Rightarrow> Some l
      | None \<Rightarrow> map_of (map (\<lambda>(nm, k, l). (option_value l, l)) ct_table) v)"

definition ct_event :: "got \<Rightarrow> opt_event list" where
  "ct_event g =
     (case ct_case (g_val g) of
        None \<Rightarrow> []
      | Some l \<Rightarrow> [\<lparr>oe_opt = l, oe_arg = g_arg g, oe_next = g_next g\<rparr>])"

definition ct_command :: "bool \<times> bool \<Rightarrow> int \<Rightarrow> bool \<Rightarrow> string list \<Rightarrow> opt_result" where
  "ct_command mallocs max_cpus posix ws =
     process_options mallocs max_cpus (concat (map ct_event (getopt_long posix ct_optstring ct_rows ws)))"

text \<open>What a spelling of the manual page asks for.\<close>

fun ct_request :: "spelling \<Rightarrow> string option \<Rightarrow> opt_event list" where
  "ct_request (LongName i a) nxt = [\<lparr>oe_opt = snd (snd (ct_table ! i)), oe_arg = a, oe_next = nxt\<rparr>]"
| "ct_request (LongApart i a) nxt = [\<lparr>oe_opt = snd (snd (ct_table ! i)), oe_arg = Some a, oe_next = nxt\<rparr>]"
| "ct_request (Short c a) nxt = [\<lparr>oe_opt = the (map_of ct_letters c), oe_arg = a, oe_next = nxt\<rparr>]"
| "ct_request (ShortApart c a) nxt = [\<lparr>oe_opt = the (map_of ct_letters c), oe_arg = Some a, oe_next = nxt\<rparr>]"
| "ct_request (Operand w) nxt = []"

fun ct_requests :: "spelling list \<Rightarrow> opt_event list" where
  "ct_requests [] = []"
| "ct_requests (sp # sps) = ct_request sp (first_word (spell_all ct_rows sps)) @ ct_requests sps"

section \<open>The tables agree\<close>

lemma ct_rows_ok: "table_ok ct_rows"
  by code_simp

lemma ct_rows_length: "length ct_rows = length ct_table"
  by (simp add: ct_rows_def)

lemma ct_row: "i < length ct_table \<Longrightarrow> snd (snd (ct_rows ! i)) = option_value (snd (snd (ct_table ! i)))"
  by (simp add: ct_rows_def case_prod_beta)

lemma ct_case_value: "ct_case (option_value l) = Some l"
  by (cases l) (simp_all add: ct_case_def ct_letters_def ct_table_def)

text \<open>Every letter of the option string has its label.\<close>

lemma ct_case_letter:
  assumes "short_kind ct_optstring c = Some k"
  shows "ct_case (letter c) = Some (the (map_of ct_letters c))"
proof -
  have "list_all (\<lambda>c. c = CHR '':'' \<or> ct_case (letter c) = Some (the (map_of ct_letters c))) ct_optstring"
    by code_simp
  moreover have "c \<in> set sh \<and> c \<noteq> CHR '':''" if "short_kind sh c = Some k" for sh
    using that by (induction sh) (auto split: if_splits)
  ultimately show ?thesis using assms by (auto simp: list_all_iff)
qed

lemma ct_event_meaning:
  assumes "spelled_ok ordered ct_optstring ct_rows sp"
  shows "concat (map ct_event (meaning ct_rows sp nxt)) = ct_request sp nxt"
  using assms
  by (cases sp) (auto simp: ct_event_def ct_row ct_rows_length ct_case_value ct_case_letter split: option.splits)

lemma ct_events_meanings:
  assumes "\<forall>sp \<in> set sps. spelled_ok ordered ct_optstring ct_rows sp"
  shows "concat (map ct_event (meanings ct_rows sps)) = ct_requests sps"
  using assms by (induction sps) (simp_all add: ct_event_meaning [of ordered])

lemma ct_getopt: "getopt_long posix ct_optstring ct_rows ws = fst (getopt_words posix ct_optstring ct_rows ws)"
  by (simp add: getopt_long_def ct_optstring_def)

lemma command_word:
  assumes "w \<noteq> ''--''" "\<not> is_operand w" "get_word ct_optstring ct_rows w ws = (gs, n)"
  shows "ct_command mallocs max_cpus posix (w # ws) =
    process_options mallocs max_cpus (concat (map ct_event gs) @
      concat (map ct_event (fst (getopt_words posix ct_optstring ct_rows (drop n ws)))))"
  by (simp add: ct_command_def ct_getopt read_word [OF assms])

lemma unknown_option_usage:
  "process_options mallocs max_cpus (\<lparr>oe_opt = OPT_HELP, oe_arg = a, oe_next = nx\<rparr> # es) = Inl (Usage 0)"
  "process_options mallocs max_cpus (\<lparr>oe_opt = OPT_SECALIGNED, oe_arg = b, oe_next = ny\<rparr> #
     \<lparr>oe_opt = OPT_HELP, oe_arg = a, oe_next = nx\<rparr> # es) = Inl (Usage 0)"
  by (simp_all add: process_options_def process_option_def late_option_def upd_ti_def)

section \<open>Properties\<close>


definition ex_spelled :: "spelling list" where
  "ex_spelled = [Short CHR ''t'' None, Operand ''3'', LongApart 25 ''80'', Short CHR ''i'' (Some ''200''), LongName 34 (Some ''5'')]"


text \<open>
  C36: The letters of cyclictest stand for the long options: each label of the \<open>switch\<close> that is a letter is accepted with the
  kind of argument of its long name, but for two. \<open>-F\<close> is missing in the option string, so that it is an unknown option,
  for which the usage is shown and the program ends with success, whatever follows; \<open>-s\<close> takes no argument in its word
  though \<open>--secaligned\<close> does, so that a digit behind it is an unknown option too. \<open>--prio\<close>, as the help text spells
  the option for the priority, is ambiguous and ends the program in the same way.
\<close>

theorem short_options_of_cyclictest:
  "list_all (\<lambda>(c, l). c \<in> {CHR ''F'', CHR ''s'', CHR ''?''} \<or>
       list_ex (\<lambda>(nm, k, l'). l' = l \<and> short_kind ct_optstring c = Some k) ct_table) ct_letters \<and>
   ct_command mallocs max_cpus posix (''-F'' # ws) = Inl (Usage 0) \<and>
   ct_command mallocs max_cpus posix (''-s5'' # ws) = Inl (Usage 0) \<and>
   ct_command mallocs max_cpus posix ((''--prio='' @ n) # ws) = Inl (Usage 0) \<and>
   ct_command mallocs max_cpus posix [''--fifo'', f] = process_options mallocs max_cpus [\<lparr>oe_opt = OPT_FIFO, oe_arg = Some f, oe_next = None\<rparr>]"
proof (intro conjI)
  show "list_all (\<lambda>(c, l). c \<in> {CHR ''F'', CHR ''s'', CHR ''?''} \<or>
       list_ex (\<lambda>(nm, k, l'). l' = l \<and> short_kind ct_optstring c = Some k) ct_table) ct_letters"
    by code_simp
  have vals: "ct_case opt_bad = Some OPT_HELP" "ct_case (letter CHR ''s'') = Some OPT_SECALIGNED" by code_simp+
  have kinds: "short_kind ct_optstring CHR ''F'' = None" "short_kind ct_optstring CHR ''5'' = None"
    "short_kind ct_optstring CHR ''s'' = Some NoArgument" by code_simp+
  have f: "get_word ct_optstring ct_rows ''-F'' ws = ([\<lparr>g_val = opt_bad, g_arg = None, g_row = None, g_next = first_word ws\<rparr>], 0)"
    by (simp add: get_word_def kinds Let_def)
  show "ct_command mallocs max_cpus posix (''-F'' # ws) = Inl (Usage 0)"
    using vals(1) by (subst command_word [OF _ _ f]) (simp_all add: not_operand ct_event_def unknown_option_usage)
  have s: "get_word ct_optstring ct_rows ''-s5'' ws =
      ([\<lparr>g_val = letter CHR ''s'', g_arg = None, g_row = None, g_next = Some ''-s5''\<rparr>,
        \<lparr>g_val = opt_bad, g_arg = None, g_row = None, g_next = first_word ws\<rparr>], 0)"
    by (simp add: get_word_def kinds Let_def)
  show "ct_command mallocs max_cpus posix (''-s5'' # ws) = Inl (Usage 0)"
    using vals by (subst command_word [OF _ _ s]) (simp_all add: not_operand ct_event_def unknown_option_usage)
  have "find_long ct_rows ''prio'' = None" by code_simp
  then have p: "get_word ct_optstring ct_rows (''--prio='' @ n) ws =
      ([\<lparr>g_val = opt_bad, g_arg = None, g_row = None, g_next = first_word ws\<rparr>], 0)"
    by (simp add: get_word_def get_long_def Let_def)
  show "ct_command mallocs max_cpus posix ((''--prio='' @ n) # ws) = Inl (Usage 0)"
    using vals(1) by (subst command_word [OF _ _ p]) (simp_all add: not_operand ct_event_def unknown_option_usage)
  have row: "ct_table ! 12 = (''fifo'', RequiredArgument, OPT_FIFO)" "ct_rows ! 12 = (''fifo'', RequiredArgument, 12)"
    "12 < length ct_rows" by code_simp+
  from long_word(3) [OF ct_rows_ok row(3,2) refl]
  have l: "get_word ct_optstring ct_rows ''--fifo'' [f] =
      ([\<lparr>g_val = 12, g_arg = Some f, g_row = Some 12, g_next = first_word []\<rparr>], 1)" by simp
  show "ct_command mallocs max_cpus posix [''--fifo'', f] = process_options mallocs max_cpus [\<lparr>oe_opt = OPT_FIFO, oe_arg = Some f, oe_next = None\<rparr>]"
    using ct_case_value [of OPT_FIFO]
    by (subst command_word [OF _ _ l]) (simp_all add: not_operand ct_event_def first_word_def)
qed

text \<open>
  In an environment that asks for the order of POSIX the number that may follow \<open>-t\<close> (or \<open>-a\<close>, \<open>-A\<close>, \<open>-s\<close>) as a word of
  its own ends the options: whatever follows it is ignored.
\<close>

theorem posix_number_ends_options:
  assumes "is_operand n" "n \<noteq> ''--''"
  shows "ct_command mallocs max_cpus True (''-t'' # n # ws) = ct_command mallocs max_cpus True [''-t'', n]"
proof -
  have "fst (getopt_words True ct_optstring ct_rows (spell_all ct_rows [Short CHR ''t'' None] @ n # ws)) =
      fst (getopt_words True ct_optstring ct_rows (spell_all ct_rows [Short CHR ''t'' None] @ [n]))"
  proof (rule ordered_stops [OF ct_rows_ok _ assms])
    have "short_kind ct_optstring CHR ''t'' = Some OptionalArgument" by code_simp
    then show "\<forall>sp \<in> set [Short CHR ''t'' None]. spelled_ok True ct_optstring ct_rows sp" by simp
  qed
  then show ?thesis by (simp add: ct_command_def ct_getopt spell_all_def)
qed

end
