(* ===== verification/CyclicRun.thy ===== *)
theory CyclicRun
  imports CyclicCommand CyclicControl
begin

text \<open>
  cyclictest from the words of its command line to the loops of its threads
  (\<^verbatim>\<open>src/cyclictest/cyclictest.c\<close>): which variables of the options the creation of the threads and the threads
  themselves read, and the parts of the other theories put together.
\<close>

section \<open>From the options to the threads\<close>

text \<open>\<open>clocksources\<close>, indexed by the option; the check of the options lets its length pass as an index.\<close>

definition clocksource :: "int \<Rightarrow> int option" where
  "clocksource clocksel = c_read [1, 0] clocksel"

definition create_cfg_of :: "options \<Rightarrow> int \<Rightarrow> create_cfg option" where
  "create_cfg_of p max_cpus =
     do { clk \<leftarrow> clocksource (o_clocksel (po_ti p));
          Some \<lparr>cc_policy = o_policy (po_sc p), cc_distance = o_distance (po_ti p), cc_histogram = o_histogram (po_ou p),
            cc_verbose = o_verbose (po_ou p), cc_priospread = o_priospread (po_sc p), cc_clock = clk,
            cc_mode = cyclic_mode (o_use_nanosleep (po_ti p)) (o_use_system (po_ti p)),
            cc_timermode = o_timermode (po_ti p), cc_max_cycles = o_max_cycles (po_ti p),
            cc_setaffinity = o_setaffinity (po_sc p), cc_mask = o_affinity_mask (po_sc p), cc_max_cpus = max_cpus,
            cc_numa = 0\<rparr> }"

definition create_state_of :: "options \<Rightarrow> create_state" where
  "create_state_of p =
     \<lparr>cs_priority = o_priority (po_sc p), cs_interval = o_interval (po_ti p), cs_force_other = 0\<rparr>"

text \<open>The variables the threads read.\<close>

definition thread_cfg_of :: "options \<Rightarrow> cyc_cfg" where
  "thread_cfg_of p =
     \<lparr>c_tracelimit = o_tracelimit (po_tr p), c_histogram = o_histogram (po_ou p), c_duration = o_duration (po_ti p),
      c_use_nsecs = o_use_nsecs (po_ti p), c_refresh_on_max = o_refresh_on_max (po_ou p),
      c_aligned = o_aligned (po_ti p), c_secaligned = o_secaligned (po_ti p), c_offset = o_offset (po_ti p)\<rparr>"

text \<open>
  The whole way, in the build without NUMA: an exit of the options, or what the loop over the threads has made, with
  one input of \<open>cis\<close> for each thread. \<open>None\<close> when the array of clocks is read behind its end.
\<close>

definition cyclictest_threads ::
  "bool \<times> bool \<Rightarrow> int \<Rightarrow> bool \<Rightarrow> string list \<Rightarrow> (nat \<Rightarrow> create_in)
     \<Rightarrow> (opt_exit + (options \<times> (thread_param \<times> thread_stat) list \<times> create_error option \<times> create_state)) option" where
  "cyclictest_threads mallocs max_cpus posix ws cis =
     (case ct_command mallocs max_cpus posix ws of
        Inl x \<Rightarrow> Some (Inl x)
      | Inr p \<Rightarrow>
          (case create_cfg_of p max_cpus of
             None \<Rightarrow> None
           | Some cfg \<Rightarrow>
               Some (Inr (p, create_threads cfg (map cis [0..<nat (o_num_threads (po_sc p))]) 0 (create_state_of p)))))"

section \<open>What reaches the threads\<close>

lemma create_threads_fields:
  assumes "create_threads cfg cis i cs = (ps, None, cs')" "k < length ps"
  shows "tp_max_cycles (fst (ps ! k)) = u64 (cc_max_cycles cfg) \<and> tp_mode (fst (ps ! k)) = cc_mode cfg \<and>
    tp_clock (fst (ps ! k)) = cc_clock cfg \<and> tp_timermode (fst (ps ! k)) = cc_timermode cfg \<and>
    tp_policy (fst (ps ! k)) =
      (if tp_prio (fst (ps ! k)) \<noteq> 0 \<and> cc_policy cfg \<in> {SCHED_FIFO, SCHED_RR} then cc_policy cfg else SCHED_OTHER)"
  using assms
proof (induction cis arbitrary: i cs ps k)
  case (Cons ci cis)
  obtain par s cs1 where c: "create_thread cfg ci i cs = Inr (par, s, cs1)"
    using Cons.prems(1) by (cases "create_thread cfg ci i cs") auto
  obtain qs where qs: "create_threads cfg cis (i + 1) cs1 = (qs, None, cs')" "ps = (par, s) # qs"
    using Cons.prems(1) c by (auto split: prod.splits)
  show ?case
  proof (cases k)
    case 0
    then show ?thesis using create_threadD [OF c] qs(2) by (auto simp: make_param_def wants_rt_def)
  next
    case (Suc j)
    then show ?thesis using Cons.IH [OF qs(1), of j] Cons.prems(2) qs(2) by simp
  qed
qed simp

text \<open>The thread function on quiet wake-ups, with a number of cycles to make.\<close>

lemma timerthread_max_cycles:
  assumes "0 < tp_interval par" "stat_wf cfg par s" "offset_ok cfg par" "ts_normal (si_globalt si)" "ts_normal (si_clock si)"
    "si_sched_ret si = 0" "\<forall>w \<in> set ws. wake_ok w \<and> wake_quiet w" "c_duration cfg = 0" "c_tracelimit cfg = 0"
    "tp_max_cycles par < 18446744073709551616" "sh_shutdown sh = 0" "st_cycles s = 0" "0 < tp_max_cycles par"
    "tp_max_cycles par \<le> int (length ws)"
  shows "\<exists>t. timerthread cfg par si ws s sh = Some (Exited t) \<and> st_cycles (t_stat t) = tp_max_cycles par \<and>
    st_threadstarted (t_stat t) = - 1"
proof -
  define now where "now = start_now cfg par (si_globalt si) (si_clock si)"
  define nxt where "nxt = first_deadline (thread_interval par) now"
  obtain log0 where pro: "timer_prologue par (si_tid si) (si_affinity_ret si) (si_sched_ret si) = (log0, True)"
    using assms(6) by (simp add: timer_prologue_def Let_def)
  define t0 where "t0 = \<lparr>t_now = now, t_next = nxt, t_stopped = 0,
      t_stat = s\<lparr>st_tid := si_tid si, st_threadstarted := st_threadstarted s + 1\<rparr>, t_sh = sh,
      t_log = log0 @ arm_timer par (thread_interval par) nxt\<rparr>"
  have per: "period_ok (thread_interval par)" by (rule period_ok_thread_interval [OF assms(1)])
  have "ts_normal nxt" unfolding nxt_def now_def by (intro first_deadline_normal [OF per] start_now_normal assms)
  then have wf: "thread_wf cfg par t0" using assms(2) by (simp add: t0_def thread_wf_def stat_wf_def)
  have "\<exists>t. timer_loop cfg par (thread_interval par) (stop_time cfg now) ws t0 = Exited t \<and>
      st_cycles (t_stat t) = tp_max_cycles par"
    using timer_loop_max_cycles [OF per assms(7-10) wf, of "stop_time cfg now"] assms(11-14) by (simp add: t0_def)
  moreover have "timerthread cfg par si ws s sh = Some (case timer_loop cfg par (thread_interval par) (stop_time cfg now) ws t0 of
      Exited t \<Rightarrow> Exited (timer_epilogue par t) | r \<Rightarrow> r)"
    using pro by (simp add: timerthread_def Let_def t0_def now_def nxt_def)
  ultimately show ?thesis by (auto simp: timer_epilogue_def)
qed



definition ex_words :: "string list" where
  "ex_words = [''-t2'', ''--priority'', ''80'', ''--priospread'', ''-l'', ''1'']"

definition ex_spelled_run :: "spelling list" where
  "ex_spelled_run = [Short CHR ''t'' (Some ''2''), LongApart 25 ''80'', LongName 28 None, ShortApart CHR ''l'' ''1'']"

definition ex_accepted :: options where
  "ex_accepted = default_options\<lparr>po_ti := (po_ti default_options)\<lparr>o_distance := 500, o_max_cycles := 1\<rparr>,
     po_sc := (po_sc default_options)\<lparr>o_num_threads := 2, o_priority := 80, o_policy := SCHED_FIFO, o_priospread := 1\<rparr>\<rparr>"

lemma ex_words_accepted: "ct_command (True, True) 4 posix ex_words = Inr ex_accepted"
proof -
  have ok: "\<forall>sp \<in> set ex_spelled_run. spelled_ok posix ct_optstring ct_rows sp" by code_simp
  have words: "spell_all ct_rows ex_spelled_run = ex_words" by code_simp
  have reqs: "ct_requests ex_spelled_run =
      [\<lparr>oe_opt = OPT_THREADS, oe_arg = Some ''2'', oe_next = Some ''--priority''\<rparr>,
       \<lparr>oe_opt = OPT_PRIORITY, oe_arg = Some ''80'', oe_next = Some ''--priospread''\<rparr>,
       \<lparr>oe_opt = OPT_PRIOSPREAD, oe_arg = None, oe_next = Some ''-l''\<rparr>,
       \<lparr>oe_opt = OPT_LOOPS, oe_arg = Some ''1'', oe_next = None\<rparr>]" by code_simp
  have n: "atoi ''2'' = 2" "atoi ''80'' = 80" "atoi ''1'' = 1" by code_simp+
  have "ct_command (True, True) 4 posix ex_words = process_options (True, True) 4 (ct_requests ex_spelled_run)"
    using getopt_reads_back [OF ct_rows_ok ok] ct_events_meanings [OF ok] words
    by (simp add: ct_command_def ct_getopt)
  also have "\<dots> = Inr ex_accepted" unfolding reqs
    by (simp add: process_options_def process_option_def late_option_def req_arg_def upd_defs opt_threads_def
        optional_number_def set_priority_def n check_options_def options_error_def fix_priority_def default_options_def
        ex_accepted_def Let_def)
  finally show ?thesis .
qed

definition ex_ccfg :: create_cfg where
  "ex_ccfg = the (create_cfg_of ex_accepted 4)"

definition ex_second :: thread_param where
  "ex_second = make_param ex_ccfg (-1) (-1) 1 (next_create_state ex_ccfg (create_state_of ex_accepted))"

lemma ex_ccfg: "create_cfg_of ex_accepted 4 = Some ex_ccfg"
  by (simp add: ex_ccfg_def create_cfg_of_def clocksource_def ex_accepted_def default_options_def c_read_def)

lemma ex_thread:
  "create_thread ex_ccfg ex_ci i cs =
     Inr (make_param ex_ccfg (-1) (-1) i cs, start_stat zero_stat, next_create_state ex_ccfg cs)"
  by (simp add: ex_ccfg_def create_cfg_of_def clocksource_def ex_accepted_def default_options_def c_read_def create_thread_def
      thread_node_def alloc_stat_def thread_cpu_def ex_ci_def)

lemma ex_two_threads:
  "cyclictest_threads (True, True) 4 False ex_words (\<lambda>_. ex_ci) =
     Some (Inr (ex_accepted, [(make_param ex_ccfg (-1) (-1) 0 (create_state_of ex_accepted), start_stat zero_stat),
       (ex_second, start_stat zero_stat)], None, \<lparr>cs_priority = 78, cs_interval = 2000, cs_force_other = 0\<rparr>))"
proof -
  have two: "[0..<nat (o_num_threads (po_sc ex_accepted))] = [0, 1]" by (simp add: ex_accepted_def upt_rec)
  have "next_create_state ex_ccfg (next_create_state ex_ccfg (create_state_of ex_accepted)) =
      \<lparr>cs_priority = 78, cs_interval = 2000, cs_force_other = 0\<rparr>"
    by (simp add: ex_ccfg_def create_cfg_of_def clocksource_def ex_accepted_def default_options_def c_read_def
        next_create_state_def create_state_of_def wants_rt_def c_int)
  then show ?thesis by (simp add: cyclictest_threads_def ex_words_accepted ex_ccfg two ex_thread ex_second_def)
qed


text \<open>
  With \<open>--priospread\<close> the priorities are counted down without regard to 0: a thread that gets a negative one keeps the
  real-time class, the kernel refuses it, and the thread stops the whole program with a fatal error.
\<close>

theorem priospread_below_zero:
  assumes "create_threads cfg cis 0 cs = (ps, None, cs')" "k < length ps" "cc_priospread cfg \<noteq> 0"
    "cc_policy cfg \<in> {SCHED_FIFO, SCHED_RR}" "tp_prio (fst (ps ! k)) < 0"
    "\<And>policy prio. policy \<in> {SCHED_FIFO, SCHED_RR} \<Longrightarrow> prio < 1 \<Longrightarrow> sched policy prio \<noteq> 0"
    "si_sched_ret si = sched (tp_policy (fst (ps ! k))) (tp_prio (fst (ps ! k)))"
  shows "timerthread cyc (fst (ps ! k)) si ws (snd (ps ! k)) sh = None"
proof -
  have "tp_policy (fst (ps ! k)) = cc_policy cfg" using create_threads_fields [OF assms(1,2)] assms(4,5) by auto
  then have "si_sched_ret si \<noteq> 0" using assms(4-7) by simp
  then show ?thesis by (simp add: timerthread_def timer_prologue_def Let_def)
qed

end
