(* ===== verification/SignalMain.thy ===== *)
theory SignalMain
  imports SignalTest
begin

text \<open>
  \<open>main\<close> of signaltest (\<^verbatim>\<open>src/signaltest/signaltest.c\<close>): its set-up with the exits, the creation of the threads, the
  wait until all have started, the first signal of the ring, and what is given back at the end.
\<close>

section \<open>Creation and start\<close>

record sg_env =
  ge_privs :: int
  ge_mlockall :: int
  ge_par :: bool
  ge_stat :: bool
  ge_values :: "int \<Rightarrow> bool"

datatype sg_main_op =
    GoPrivs | GoMlockall | GoCheckKernel | GoHandlers | GoAllocPar | GoAllocStat | GoCreate int | GoNoBuffer int
  | GoLink | GoFirstSignal | GoDisplay | GoStop "sg_stop_op list" | GoFreeStat | GoFreePar | GoMunlockall

text \<open>The result of \<open>pthread_create\<close> is not looked at; only a missing buffer ends the loop.\<close>

fun sg_create_all :: "sg_opts \<Rightarrow> (int \<Rightarrow> bool) \<Rightarrow> int \<Rightarrow> nat \<Rightarrow> sg_main_op list \<times> bool" where
  "sg_create_all p values_ok i 0 = ([], True)"
| "sg_create_all p values_ok i (Suc n) =
     (case sg_create p (values_ok i) i of
        None \<Rightarrow> ([GoNoBuffer i], False)
      | Some _ \<Rightarrow> (case sg_create_all p values_ok (i + 1) n of (ops, r) \<Rightarrow> (GoCreate i # ops, r)))"

text \<open>
  \<open>main\<close> looks at the threads again and again: what it finds each time, with the shutdown flag.
\<close>

datatype sg_wait_end = WaitMore | WaitLinked | WaitInterrupted

fun sg_wait :: "(bool \<times> sg_stat list) list \<Rightarrow> sg_wait_end" where
  "sg_wait [] = WaitMore"
| "sg_wait ((shutdown, ss) # obs) =
     (if shutdown then WaitInterrupted else if sg_allstarted ss then WaitLinked else sg_wait obs)"

section \<open>main\<close>

text \<open>
  The operations and the status, \<open>None\<close> while \<open>main\<close> still waits for its threads. \<open>finals\<close> are the threads' blocks
  when they are stopped; the rounds of the display, which an interrupt during the wait skips altogether, are
  \<open>sg_display_round\<close>.
\<close>

definition sg_main ::
  "sg_opts \<Rightarrow> sg_env \<Rightarrow> (bool \<times> sg_stat list) list \<Rightarrow> sg_stat list \<Rightarrow> sg_main_op list \<times> int option" where
  "sg_main p e obs finals =
     (let lock = (if so_lockall p \<noteq> 0 then [GoMlockall] else []);
          unlock = (if so_lockall p \<noteq> 0 then [GoMunlockall] else []);
          pre = [GoPrivs] @ lock @ [GoCheckKernel, GoHandlers, GoAllocPar];
          stop = [GoStop (sg_stop_threads (if so_quiet p \<noteq> 0 then 2 else 0) 0 finals), GoFreeStat, GoFreePar] @ unlock
      in if ge_privs e \<noteq> 0 then ([GoPrivs], Some (- 1))
         else if so_lockall p \<noteq> 0 \<and> ge_mlockall e = - 1 then ([GoPrivs] @ lock @ unlock, Some (- 1))
         else if \<not> ge_par e then (pre @ unlock, Some (- 1))
         else if \<not> ge_stat e then (pre @ [GoAllocStat, GoFreePar] @ unlock, Some (- 1))
         else case sg_create_all p (ge_values e) 0 (nat (so_threads p)) of
                (ops, False) \<Rightarrow> (pre @ [GoAllocStat] @ ops @ stop, Some (- 1))
              | (ops, True) \<Rightarrow>
                  (case sg_wait obs of
                     WaitMore \<Rightarrow> (pre @ [GoAllocStat] @ ops, None)
                   | WaitLinked \<Rightarrow> (pre @ [GoAllocStat] @ ops @ [GoLink, GoFirstSignal, GoDisplay] @ stop, Some 0)
                   | WaitInterrupted \<Rightarrow> (pre @ [GoAllocStat] @ ops @ [GoFirstSignal] @ stop, Some 0)))"

section \<open>Properties\<close>

lemma sg_wait_more: "\<forall>o1 \<in> set obs. \<not> fst o1 \<and> \<not> sg_allstarted (snd o1) \<Longrightarrow> sg_wait obs = WaitMore"
  by (induction obs rule: sg_wait.induct) auto

lemma create_all_ops:
  "set (fst (sg_create_all p ok i n)) \<subseteq> range GoCreate \<union> range GoNoBuffer"
  by (induction p ok i n rule: sg_create_all.induct) (auto split: option.splits prod.splits)

text \<open>
  A thread that could not be created, or does not get to run, is never counted as started: \<open>main\<close> looks for it for
  ever, at full speed, until the user interrupts it. If that happens the first thread gets its signal though the ring
  is not closed, and it passes it on to a thread id that was never set.
\<close>

theorem missing_thread_spins:
  assumes "ge_privs e = 0" "ge_mlockall e \<noteq> - 1" "ge_par e" "ge_stat e"
    "snd (sg_create_all p (ge_values e) 0 (nat (so_threads p)))"
    "\<forall>o1 \<in> set obs. \<not> fst o1 \<and> (\<exists>s \<in> set (snd o1). sg_threadstarted s \<noteq> 2)"
  shows "snd (sg_main p e obs finals) = None \<and>
    GoFirstSignal \<in> set (fst (sg_main p e (obs @ [(True, ss)]) finals)) \<and>
    GoLink \<notin> set (fst (sg_main p e (obs @ [(True, ss)]) finals))"
proof -
  have no: "\<forall>o1 \<in> set obs. \<not> fst o1 \<and> \<not> sg_allstarted (snd o1)"
    using assms(6) by (auto simp: sg_allstarted_def list_all_iff)
  then have w: "sg_wait obs = WaitMore" by (rule sg_wait_more)
  have i: "sg_wait (obs @ [(True, ss)]) = WaitInterrupted"
    using no by (induction obs rule: sg_wait.induct) auto
  obtain ops where c: "sg_create_all p (ge_values e) 0 (nat (so_threads p)) = (ops, True)"
    using assms(5) by (cases "sg_create_all p (ge_values e) 0 (nat (so_threads p))") auto
  then have ops: "set ops \<subseteq> range GoCreate \<union> range GoNoBuffer"
    using create_all_ops [of p "ge_values e" 0 "nat (so_threads p)"] by simp
  show ?thesis
    using assms(1-4) w i c ops by (auto simp: sg_main_def Let_def)
qed

text \<open>
  On every path out of \<open>main\<close> the two arrays are given back if they were allocated, and the memory is unlocked if
  that was asked for; the status is 0 exactly when the first signal was sent.
\<close>

theorem signaltest_main_exits:
  assumes "sg_main p e obs finals = (ops, Some c)" "ge_privs e = 0"
  shows "(GoFreePar \<in> set ops \<longleftrightarrow> GoAllocPar \<in> set ops \<and> ge_par e) \<and>
    (GoFreeStat \<in> set ops \<longleftrightarrow> GoAllocStat \<in> set ops \<and> ge_stat e) \<and>
    (GoMunlockall \<in> set ops \<longleftrightarrow> so_lockall p \<noteq> 0) \<and>
    (c = 0 \<longleftrightarrow> GoFirstSignal \<in> set ops) \<and> (c = 0 \<or> c = - 1)"
proof -
  obtain cs ok where c: "sg_create_all p (ge_values e) 0 (nat (so_threads p)) = (cs, ok)" by fastforce
  then have ops: "set cs \<subseteq> range GoCreate \<union> range GoNoBuffer"
    using create_all_ops [of p "ge_values e" 0 "nat (so_threads p)"] by simp
  then have none: "GoFreePar \<notin> set cs" "GoAllocPar \<notin> set cs" "GoFreeStat \<notin> set cs" "GoAllocStat \<notin> set cs"
    "GoMunlockall \<notin> set cs" "GoFirstSignal \<notin> set cs"
    by auto
  show ?thesis
    using assms c none by (cases ok) (auto simp: sg_main_def Let_def split: if_splits sg_wait_end.splits)
qed

end
