(* ===== verification/CommandLines.thy ===== *)
theory CommandLines
  imports RtGetopt SignalMain SendmeMain HackbenchMain PiStress MigrateSystem ClassicPi CyclicMinimal
begin

text \<open>
  The command lines of signaltest, sendme, hackbench, rt-migrate-test, cyclictest_minimal, pi_stress and classic_pi: their
  tables of long options and option strings, between \<open>getopt_long\<close> and the functions for the options.
\<close>

definition needed :: "got \<Rightarrow> string" where
  "needed g = (case g_arg g of Some a \<Rightarrow> a | None \<Rightarrow> [])"

section \<open>signaltest\<close>

definition sg_rows :: "long_option list" where
  "sg_rows =
     [(''breaktrace'', RequiredArgument, letter CHR ''b''),
      (''loops'', RequiredArgument, letter CHR ''l''),
      (''priority'', RequiredArgument, letter CHR ''p''),
      (''quiet'', NoArgument, letter CHR ''q''),
      (''threads'', RequiredArgument, letter CHR ''t''),
      (''verbose'', NoArgument, letter CHR ''v''),
      (''mlockall'', NoArgument, letter CHR ''m''),
      (''help'', NoArgument, letter CHR ''?'')]"

definition sg_optstring :: string where
  "sg_optstring = ''b:c:d:i:l:np:qrsmt:v''"

definition sg_event :: "got \<Rightarrow> sg_opt" where
  "sg_event g =
     (if g_val g = letter CHR ''b'' then SgB (needed g)
      else if g_val g = letter CHR ''l'' then SgL (needed g)
      else if g_val g = letter CHR ''p'' then SgP (needed g)
      else if g_val g = letter CHR ''q'' then SgQ
      else if g_val g = letter CHR ''t'' then SgT (needed g)
      else if g_val g = letter CHR ''m'' then SgM
      else if g_val g = letter CHR ''v'' then SgV
      else if g_val g = opt_bad then SgHelp
      else SgIgnored)"

definition sg_command :: "bool \<Rightarrow> string list \<Rightarrow> sg_opts option" where
  "sg_command posix ws = sg_options (map sg_event (getopt_long posix sg_optstring sg_rows ws))"

section \<open>sendme\<close>

definition sm_rows :: "long_option list" where
  "sm_rows =
     [(''affinity'', OptionalArgument, letter CHR ''a''),
      (''breaktrace'', RequiredArgument, letter CHR ''b''),
      (''interval'', RequiredArgument, letter CHR ''i''),
      (''loops'', RequiredArgument, letter CHR ''l''),
      (''priority'', RequiredArgument, letter CHR ''p''),
      (''help'', NoArgument, letter CHR ''?'')]"

definition sm_optstring :: string where
  "sm_optstring = ''a::b:i:l:p:''"

text \<open>The \<open>switch\<close> has a case for every value the tables can give.\<close>

definition sm_event :: "got \<Rightarrow> sm_opt" where
  "sm_event g =
     (if g_val g = letter CHR ''a'' then SmA (g_arg g) (g_next g)
      else if g_val g = letter CHR ''b'' then SmB (needed g)
      else if g_val g = letter CHR ''i'' then SmI (needed g)
      else if g_val g = letter CHR ''l'' then SmL (needed g)
      else if g_val g = letter CHR ''p'' then SmP (needed g)
      else SmHelp)"

definition sm_command :: "int \<Rightarrow> bool \<Rightarrow> string list \<Rightarrow> sm_opts option" where
  "sm_command max_cpus posix ws = sendme_options max_cpus (map sm_event (getopt_long posix sm_optstring sm_rows ws))"

section \<open>hackbench\<close>

definition hb_rows :: "long_option list" where
  "hb_rows =
     [(''pipe'', NoArgument, letter CHR ''p''),
      (''datasize'', RequiredArgument, letter CHR ''s''),
      (''loops'', RequiredArgument, letter CHR ''l''),
      (''groups'', RequiredArgument, letter CHR ''g''),
      (''fds'', RequiredArgument, letter CHR ''f''),
      (''threads'', NoArgument, letter CHR ''T''),
      (''processes'', NoArgument, letter CHR ''P''),
      (''fifo'', NoArgument, letter CHR ''F''),
      (''help'', NoArgument, letter CHR ''h'')]"

definition hb_optstring :: string where
  "hb_optstring = ''ps:l:g:f:TPFh''"

definition hb_event :: "got \<Rightarrow> bool \<times> hb_opt" where
  "hb_event g =
     (g_row g \<noteq> None,
      if g_val g = letter CHR ''p'' then HbPipe
      else if g_val g = letter CHR ''s'' then HbSize (needed g)
      else if g_val g = letter CHR ''l'' then HbLoops (needed g)
      else if g_val g = letter CHR ''g'' then HbGroups (needed g)
      else if g_val g = letter CHR ''f'' then HbFds (needed g)
      else if g_val g = letter CHR ''T'' then HbThreads
      else if g_val g = letter CHR ''P'' then HbProcesses
      else if g_val g = letter CHR ''F'' then HbFifo
      else HbUnknown)"

text \<open>
  The options, or the exit status: 1 for the help, at once, and for an error, when all has been read. \<open>None\<close> when the
  code reads behind the words of the command line.
\<close>

definition hb_command :: "bool \<Rightarrow> string list \<Rightarrow> (int + hb_opts) option" where
  "hb_command posix ws =
     (let gs = getopt_long posix hb_optstring hb_rows ws;
          before = takeWhile (\<lambda>g. g_val g \<noteq> letter CHR ''h'') gs
      in case hb_option_loop (Suc (length ws)) (map hb_event before) hb_defaults of
           None \<Rightarrow> None
         | Some p \<Rightarrow> Some (if before \<noteq> gs \<or> hb_error p then Inl 1 else Inr p))"

section \<open>rt-migrate-test\<close>

definition mg_rows :: "long_option list" where
  "mg_rows =
     [(''prio'', RequiredArgument, letter CHR ''p''),
      (''run-time'', RequiredArgument, letter CHR ''r''),
      (''sleep-time'', RequiredArgument, letter CHR ''s''),
      (''maxerr'', RequiredArgument, letter CHR ''m''),
      (''loops'', RequiredArgument, letter CHR ''l''),
      (''check'', NoArgument, letter CHR ''c''),
      (''help'', NoArgument, letter CHR ''?'')]"

definition mg_optstring :: string where
  "mg_optstring = ''p:r:s:m:l:ch''"

definition mg_event :: "got \<Rightarrow> mg_opt" where
  "mg_event g =
     (if g_val g = letter CHR ''p'' then MgP (needed g)
      else if g_val g = letter CHR ''r'' then MgR (needed g)
      else if g_val g = letter CHR ''s'' then MgS (needed g)
      else if g_val g = letter CHR ''l'' then MgL (needed g)
      else if g_val g = letter CHR ''m'' then MgM (needed g)
      else if g_val g = letter CHR ''c'' then MgC
      else MgHelp)"

definition mg_command :: "bool \<Rightarrow> string list \<Rightarrow> mg_opts option" where
  "mg_command posix ws = mg_parse_options (map mg_event (getopt_long posix mg_optstring mg_rows ws))"

text \<open>The number of tasks is the first word behind the options, if there is one.\<close>

definition mg_tasks :: "bool \<Rightarrow> string list \<Rightarrow> string list \<Rightarrow> int" where
  "mg_tasks posix ws cpuinfo = mg_nr_tasks (first_word (getopt_operands posix mg_optstring mg_rows ws)) cpuinfo"

section \<open>cyclictest\_minimal\<close>

definition mc_rows :: "long_option list" where
  "mc_rows =
     [(''breaktrace'', RequiredArgument, letter CHR ''b''),
      (''clock'', RequiredArgument, letter CHR ''c''),
      (''distance'', RequiredArgument, letter CHR ''d''),
      (''ftrace'', NoArgument, letter CHR ''f''),
      (''interval'', RequiredArgument, letter CHR ''i''),
      (''loops'', RequiredArgument, letter CHR ''l''),
      (''nanosleep'', NoArgument, letter CHR ''n''),
      (''priority'', RequiredArgument, letter CHR ''p''),
      (''quiet'', NoArgument, letter CHR ''q''),
      (''relative'', NoArgument, letter CHR ''r''),
      (''system'', NoArgument, letter CHR ''s''),
      (''threads'', RequiredArgument, letter CHR ''t''),
      (''verbose'', NoArgument, letter CHR ''v''),
      (''help'', NoArgument, letter CHR ''?'')]"

definition mc_optstring :: string where
  "mc_optstring = ''b:c:d:fi:l:np:qrst:v''"

definition mc_event :: "got \<Rightarrow> mc_opt" where
  "mc_event g =
     (if g_val g = letter CHR ''b'' then McB (needed g)
      else if g_val g = letter CHR ''c'' then McC (needed g)
      else if g_val g = letter CHR ''d'' then McD (needed g)
      else if g_val g = letter CHR ''f'' then McF
      else if g_val g = letter CHR ''i'' then McI (needed g)
      else if g_val g = letter CHR ''l'' then McL (needed g)
      else if g_val g = letter CHR ''n'' then McN
      else if g_val g = letter CHR ''p'' then McP (needed g)
      else if g_val g = letter CHR ''q'' then McQ
      else if g_val g = letter CHR ''r'' then McR
      else if g_val g = letter CHR ''s'' then McS
      else if g_val g = letter CHR ''t'' then McT (needed g)
      else if g_val g = letter CHR ''v'' then McV
      else McHelp)"

definition mc_command :: "bool \<Rightarrow> string list \<Rightarrow> mc_opts option" where
  "mc_command posix ws = mc_options (map mc_event (getopt_long posix mc_optstring mc_rows ws))"

section \<open>pi\_stress and classic\_pi\<close>

definition pi_rows :: "long_option list" where
  "pi_rows =
     [(''duration'', RequiredArgument, letter CHR ''t''),
      (''verbose'', NoArgument, letter CHR ''v''),
      (''quiet'', NoArgument, letter CHR ''q''),
      (''groups'', RequiredArgument, letter CHR ''g''),
      (''inversions'', RequiredArgument, letter CHR ''i''),
      (''rr'', NoArgument, letter CHR ''r''),
      (''sched'', RequiredArgument, letter CHR ''s''),
      (''uniprocessor'', NoArgument, letter CHR ''u''),
      (''prompt'', NoArgument, letter CHR ''p''),
      (''debug'', NoArgument, letter CHR ''d''),
      (''version'', NoArgument, letter CHR ''V''),
      (''mlockall'', NoArgument, letter CHR ''m''),
      (''help'', NoArgument, letter CHR ''h'')]"

text \<open>Both programs have an option string without letters.\<close>

definition pi_optstring :: string where
  "pi_optstring = ''+''"

definition pi_event :: "got \<Rightarrow> pi_opt" where
  "pi_event g =
     (if g_val g = letter CHR ''t'' then PiT (needed g)
      else if g_val g = letter CHR ''v'' then PiV
      else if g_val g = letter CHR ''q'' then PiQ
      else if g_val g = letter CHR ''i'' then PiI (needed g)
      else if g_val g = letter CHR ''g'' then PiG (needed g)
      else if g_val g = letter CHR ''r'' then PiR
      else if g_val g = letter CHR ''s'' then PiS (needed g)
      else if g_val g = letter CHR ''p'' then PiP
      else if g_val g = letter CHR ''d'' then PiD
      else if g_val g = letter CHR ''V'' then PiVersion
      else if g_val g = letter CHR ''u'' then PiU
      else if g_val g = letter CHR ''m'' then PiM
      else PiHelp)"

definition pi_command :: "bool \<Rightarrow> string list \<Rightarrow> pi_opts \<Rightarrow> pi_opts option" where
  "pi_command posix ws p = process_command_line (map pi_event (getopt_long posix pi_optstring pi_rows ws)) p"

text \<open>
  The table of classic_pi lacks the row of zeros at its end: what follows it in memory is looked at for a name that is
  none of the four in full, here as if nothing were found.
\<close>

definition classic_rows :: "long_option list" where
  "classic_rows =
     [(''verbose'', NoArgument, letter CHR ''v''),
      (''quiet'', NoArgument, letter CHR ''q''),
      (''no-pi'', NoArgument, letter CHR ''n''),
      (''inversions'', RequiredArgument, letter CHR ''i'')]"

definition classic_event :: "got \<Rightarrow> char \<times> string" where
  "classic_event g = (char_of (g_val g), needed g)"

definition classic_command :: "bool \<Rightarrow> string list \<Rightarrow> classic_opts \<Rightarrow> classic_opts option" where
  "classic_command posix ws p = classic_options (map classic_event (getopt_long posix pi_optstring classic_rows ws)) p"

section \<open>Properties\<close>

interpretation sg_line: command_line sg_optstring sg_rows by unfold_locales code_simp
interpretation sm_line: command_line sm_optstring sm_rows by unfold_locales code_simp
interpretation hb_line: command_line hb_optstring hb_rows by unfold_locales code_simp
interpretation mg_line: command_line mg_optstring mg_rows by unfold_locales code_simp
interpretation mc_line: command_line mc_optstring mc_rows by unfold_locales code_simp
interpretation pi_line: command_line pi_optstring pi_rows by unfold_locales code_simp
interpretation classic_line: command_line pi_optstring classic_rows by unfold_locales code_simp

text \<open>
  In the programs whose values are letters each long option has its letter, with the same kind of argument.
\<close>

lemma all_letters_agree:
  "letters_agree sg_optstring sg_rows" "letters_agree sm_optstring sm_rows" "letters_agree hb_optstring hb_rows"
  "letters_agree mg_optstring mg_rows" "letters_agree mc_optstring mc_rows"
  by code_simp+

lemma letters_of:
  "in_order posix sg_optstring = posix" "optstring_letters sg_optstring = sg_optstring"
  "in_order posix sm_optstring = posix" "optstring_letters sm_optstring = sm_optstring"
  "in_order posix hb_optstring = posix" "optstring_letters hb_optstring = hb_optstring"
  "in_order posix mg_optstring = posix" "optstring_letters mg_optstring = mg_optstring"
  "in_order posix mc_optstring = posix" "optstring_letters mc_optstring = mc_optstring"
  "in_order posix pi_optstring = True" "optstring_letters pi_optstring = []"
  by (simp_all add: in_order_def optstring_letters_def sg_optstring_def sm_optstring_def hb_optstring_def mg_optstring_def
      mc_optstring_def pi_optstring_def)

text \<open>
  However their options are spelled, the programs get them as they are spelled, in their order; pi\_stress and classic\_pi,
  whose option string has no letters, only by their long names.
\<close>

theorem programs_command_line:
  assumes "\<forall>sp \<in> set s1. spelled_ok posix sg_optstring sg_rows sp" "\<forall>sp \<in> set s2. spelled_ok posix sm_optstring sm_rows sp"
    "\<forall>sp \<in> set s3. spelled_ok posix mg_optstring mg_rows sp" "\<forall>sp \<in> set s4. spelled_ok posix mc_optstring mc_rows sp"
    "\<forall>sp \<in> set s5. spelled_ok True [] pi_rows sp" "\<forall>sp \<in> set s6. spelled_ok True [] classic_rows sp"
  shows "sg_command posix (spell_all sg_rows s1) = sg_options (map sg_event (meanings sg_rows s1)) \<and>
    sm_command n posix (spell_all sm_rows s2) = sendme_options n (map sm_event (meanings sm_rows s2)) \<and>
    mg_command posix (spell_all mg_rows s3) = mg_parse_options (map mg_event (meanings mg_rows s3)) \<and>
    mc_command posix (spell_all mc_rows s4) = mc_options (map mc_event (meanings mc_rows s4)) \<and>
    pi_command posix (spell_all pi_rows s5) p = process_command_line (map pi_event (meanings pi_rows s5)) p \<and>
    classic_command posix (spell_all classic_rows s6) q = classic_options (map classic_event (meanings classic_rows s6)) q"
  using assms sg_line.reads_back sm_line.reads_back mg_line.reads_back mc_line.reads_back pi_line.reads_back
    classic_line.reads_back
  by (simp add: sg_command_def sm_command_def mg_command_def mc_command_def pi_command_def classic_command_def letters_of)

text \<open>
  Rt-migrate-test takes the number of its tasks from wherever it stands between the options, and from the number of
  CPUs when there is no such word.
\<close>

theorem migrate_tasks_operand:
  assumes "\<forall>sp \<in> set sps. spelled_ok posix mg_optstring mg_rows sp" "concat (map operand_of sps) = ops"
  shows "mg_tasks posix (spell_all mg_rows sps) cpuinfo =
    (case ops of w # _ \<Rightarrow> atoi w | [] \<Rightarrow> s32 (count_cpus cpuinfo + 1))"
  using assms mg_line.reads_operands [of sps posix]
  by (simp add: mg_tasks_def mg_nr_tasks_def letters_of first_word_def split: list.split)

text \<open>
  A letter, also one of those the manual page of pi\_stress and the usage of classic\_pi name, is an unknown option for both:
  the program shows its usage and ends.
\<close>

lemma no_letters:
  assumes "c \<noteq> CHR ''-''"
  shows "pi_command posix ((''-'' @ c # cs) # ws) p = None" "classic_command posix ((''-'' @ c # cs) # ws) q = None"
proof -
  obtain gs n where w: "get_short [] (''-'' @ c # cs) cs ws = (gs, n)" by fastforce
  have g: "get_word [] rows (''-'' @ c # cs) ws =
      (\<lparr>g_val = opt_bad, g_arg = None, g_row = None, g_next = (if cs = [] then first_word ws else Some (''-'' @ c # cs))\<rparr> # gs, n)"
    for rows using assms w by (simp add: get_word_def Let_def)
  have "char_of (63 :: int) = CHR ''?''" by code_simp
  then show "pi_command posix ((''-'' @ c # cs) # ws) p = None" "classic_command posix ((''-'' @ c # cs) # ws) q = None"
    using pi_line.reads_option [of "''-'' @ c # cs" ws _ n posix] classic_line.reads_option [of "''-'' @ c # cs" ws _ n posix] g assms
    by (simp_all add: pi_command_def classic_command_def letters_of not_operand pi_event_def pi_option_def classic_event_def)
qed

text \<open>
  C38: \<open>hackbench --loops=n\<close> is refused though \<open>n\<close> is a number greater than 0, and with \<open>--groups=n\<close> the program reads behind its
  arguments: the word it tests for presence is not the argument but the one whose place is the number of the long option
  in the table. With the letter, \<open>-ln\<close>, the number is taken.
\<close>

theorem hackbench_equals_sign_refused:
  assumes "0 < atoi a"
  shows "hb_command posix [''--loops='' @ a] = Some (Inl 1) \<and> hb_command posix [''--groups='' @ a] = None \<and>
    (\<exists>p. hb_command posix [''-l'' @ a] = Some (Inr p) \<and> hb_loops p = atoi a)"
proof -
  have "atoi [] = 0" by code_simp
  then have a: "a \<noteq> []" using assms by auto
  have u: "u32 (atoi a) = atoi a" using assms atoi_range [of a] by (simp add: c_int)
  have row: "hb_rows ! 2 = (''loops'', RequiredArgument, letter CHR ''l'')" "hb_rows ! 3 = (''groups'', RequiredArgument, letter CHR ''g'')"
    "2 < length hb_rows" "3 < length hb_rows" by (simp_all add: hb_rows_def)
  have k: "short_kind hb_optstring CHR ''l'' = Some RequiredArgument" by code_simp
  note long = long_word(2) [OF hb_line.rows_ok, where sh = hb_optstring and ws = "[]" and a = a]
  have "getopt_long posix hb_optstring hb_rows [''--loops='' @ a] =
      [\<lparr>g_val = letter CHR ''l'', g_arg = Some a, g_row = Some 2, g_next = None\<rparr>]"
    using hb_line.reads_option [of "''--loops='' @ a" "[]" _ 0 posix] long [OF row(3,1)]
    by (simp add: letters_of not_operand hb_line.reads_nothing first_word_def)
  moreover have "getopt_long posix hb_optstring hb_rows [''--groups='' @ a] =
      [\<lparr>g_val = letter CHR ''g'', g_arg = Some a, g_row = Some 3, g_next = None\<rparr>]"
    using hb_line.reads_option [of "''--groups='' @ a" "[]" _ 0 posix] long [OF row(4,2)]
    by (simp add: letters_of not_operand hb_line.reads_nothing first_word_def)
  moreover have "getopt_long posix hb_optstring hb_rows [''-l'' @ a] =
      [\<lparr>g_val = letter CHR ''l'', g_arg = Some a, g_row = None, g_next = None\<rparr>]"
    using hb_line.reads_option [of "''-l'' @ a" "[]" _ 0 posix] short_word(2) [OF _ k _ a, where rows = hb_rows and ws = "[]"]
    by (simp add: letters_of not_operand hb_line.reads_nothing first_word_def)
  ultimately show ?thesis
    using assms u by (simp add: hb_command_def hb_event_def needed_def hb_option_def number_option_def argv_present_def
        hb_defaults_def Let_def)
qed

theorem hackbench_equals_sign_refused_witness:
  "hb_command False [''--loops=5''] = Some (Inl 1) \<and> hb_command False [''--groups=5''] = None"
proof -
  have "atoi ''5'' = 5" by code_simp
  then show ?thesis using hackbench_equals_sign_refused [of "''5''" False] by simp
qed

end
