(* ===== verification/Spec2Isabelle.thy ===== *)
theory Spec2Isabelle
  imports CyclicMinimal CyclicControl CyclicMemory SendmeMain HackbenchMain PiThread TstMutex PipStress PairSetup
    MigrateSystem SigTest RtSys CyclicRun CommandLines
begin

text \<open>
  A verification development for rt-tests, a collection of C programs that measure and stress the
  real-time behaviour of a Linux kernel.

  \<^bold>\<open>The programs.\<close> The programs are independent of each other; some share a small library,
  \<^verbatim>\<open>src/lib/rt-utils.c\<close> (tracing directory, events, privileges, policy names). All paths are below \<^verbatim>\<open>src/\<close>.

  \<^item> cyclictest (\<^verbatim>\<open>src/cyclictest/cyclictest.c\<close>, \<^verbatim>\<open>rt_numa.h\<close>): \<open>main\<close> reads the options, prepares the
    kernel's tracing, starts one \<open>timerthread\<close> for each CPU or request, and prints their statistics until it is
    told to stop or a thread has made its cycles. The threads share the flag \<open>shutdown\<close>, the record of
    who hit the latency limit, and for each thread its \<open>thread_stat\<close>, which \<open>main\<close> reads while the
    thread writes. \<^verbatim>\<open>cyclictest_minimal.c\<close> is an older and smaller version of it.
  \<^item> signaltest: a ring of threads that pass a signal on. ptsematest, pmqtest, sigwaittest and svsematest: pairs of
    a sender and a receiver that measure the way of a mutex, a message, a signal or a semaphore.
  \<^item> backfire and sendme (\<^verbatim>\<open>src/backfire\<close>): a character device that sends a signal to who writes to it and
    remembers when, and the client that measures both ways.
  \<^item> hackbench: groups of senders and receivers that exchange messages.
  \<^item> rt-migrate-test: more tasks than CPUs, of ascending priorities, and the check that none was passed over.
  \<^item> \<^verbatim>\<open>src/pi_tests\<close>: pi_stress, groups of three threads that provoke priority inversions on a mutex, watched by
    a reporter; classic_pi and tst-mutexpi10, one inversion with and without inheritance; pip_stress, three processes;
    sigtest, a timer and its signal.

  \<^bold>\<open>The theories.\<close>

  \<^item> \<open>RtPrelude\<close>: C integers as integers with \<open>signed_take_bit\<close> and \<open>take_bit\<close> written where the code
    converts or stores, the library's number parsers and string comparisons, C arrays as lists with
    partial access (\<open>c_read\<close>, \<open>c_write\<close>), sequences of fallible calls (\<open>seq_calls\<close>), reachability, and
    interfaces as locales: \<open>machine\<close> (a step relation with an invariant), \<open>latency_stats\<close> (a minimum,
    maximum and sum of samples), \<open>sample_ring\<close> (a ring buffer between one writer and one reader).
  \<^item> \<open>RtGetopt\<close>: \<open>getopt_long\<close> as its manual describes it, and the ways to spell an option; the locale
    \<open>command_line\<close> is what a program's tables have to satisfy for a command line to be read as it was spelled.
    \<open>CyclicCommand\<close>, \<open>PairCommand\<close>, \<open>CommandLines\<close>: the tables of the programs, from the words of the command line
    to their option variables.
  \<^item> \<open>RtTime\<close>: \<open>struct timespec\<close>, \<open>tsnorm\<close>, \<open>tsgreater\<close>, \<open>calcdiff\<close>, \<open>calcdiff_ns\<close>, and the loop that
    moves a deadline past the current time; the locale \<open>ts_normaliser\<close> is the contract of \<open>tsnorm\<close>.
  \<^item> \<open>CyclicTimer\<close>: \<open>timerthread\<close> in the order of the code, one definition for each of its parts, composed as
    \<open>timer_prologue\<close>, \<open>start_now\<close>, \<open>arm_timer\<close>, \<open>timer_iter\<close> (one cycle), \<open>timer_loop\<close> and \<open>timer_epilogue\<close>.
    \<open>thread_stat\<close> and \<open>thread_param\<close> are the C structures; \<open>cyc_cfg\<close> and \<open>cyc_shared\<close> the file-level
    variables the thread reads and writes. What the clock, the sleeps, the signals and the other
    threads do in a cycle is its input \<open>wake\<close>; the calls the thread makes are its output. \<open>CyclicLoop\<close> has
    the invariants of the loop.
  \<^item> \<open>CyclicReport\<close>: \<open>print_stat\<close>, \<open>print_hist\<close>, \<open>print_tids\<close>. \<open>RtNuma\<close>: the CPU masks of the build
    without libnuma and the distribution of threads over CPUs. \<open>CyclicOptions\<close>: \<open>process_options\<close>, the
    policies and the scheduler calls. \<open>CyclicMain\<close>: the creation, display and stopping of the threads.
    \<open>CyclicTrace\<close>: kernel variables and their backup, \<open>setup_tracer\<close>. \<open>CyclicControl\<close>: the start and the
    ends of \<open>main\<close>, the signal handler, the status fifo, and the display loop with its condition variable as a
    step relation \<open>disp_step\<close>. \<open>CyclicRun\<close>: the command line, the options, the creation of the threads and
    their loops put together. \<open>CyclicMemory\<close>: the threads' blocks and their release.
    \<open>MinimalVars\<close>, \<open>CyclicMinimal\<close>: cyclictest_minimal.
  \<^item> \<open>SignalTest\<close>: the ring and its statistics; \<open>SignalMain\<close>: \<open>main\<close> of signaltest, with its wait and its exits.
    \<open>PairMachine\<close>: the programs of a pair as lists of operations on channels, run in any order;
    \<open>PairMain\<close>: their option variables and figures; \<open>PtSema\<close>, \<open>PmqTest\<close>, \<open>SigWait\<close>, \<open>SvSema\<close>: the four
    programs; the locale \<open>exchange\<close> is what a pair promises. \<open>PairSetup\<close>: their start, and both sides of the
    mode in which they start themselves as separate programs.
  \<^item> \<open>RtUtils\<close>: the shared library; \<open>RtSys\<close>: its error reports and the search for the CPU of a thread, with the
    wrappers of \<^verbatim>\<open>rt_numa.h\<close> that report libnuma's errors. \<open>Backfire\<close>: driver and client, \<open>SendmeMain\<close>: the client's set-up, and client
    and driver put together. \<open>Hackbench\<close>, \<open>HackbenchMain\<close>: transfer, workers, groups; \<open>main\<close> with its exits and
    the start of the workers as a step relation \<open>hbstep\<close>. \<open>MigrateTest\<close>, \<open>MigrateSystem\<close>: tasks and check;
    \<open>main\<close> and its tasks with their barriers as a step relation \<open>mgstep\<close>.
  \<^item> \<open>PiGroup\<close>: the threads of a group of pi_stress as a step relation \<open>gstep\<close> over all interleavings.
    \<open>PiStress\<close>: options, set-up, watchdog, reporter. \<open>PiSystem\<close>: all groups and \<open>main\<close> as one step
    relation \<open>sysstep\<close>. \<open>PiThread\<close>: the thread functions with their error returns. \<open>ClassicPi\<close>, \<open>TstMutex\<close>,
    \<open>PipStress\<close>, \<open>SigTest\<close>: the small programs.

  \<^bold>\<open>What the lemmas show.\<close>

  \<^item> A timer thread on a well-formed statistics block never leaves its buffers, always returns from a
    cycle when its interval is positive, counts every cycle once in the histogram or as an overflow,
    keeps its deadlines on the grid of its first one, makes exactly the cycles asked for, and stops
    the measurement at the first latency over the limit. Its minimum, maximum and sum are those of its
    samples, if no difference is negative; that one negative difference spoils them is proved too.
    cyclictest_minimal computes the same figures, in the modes and clocks that are stated.
  \<^item> The display reads every sample of the ring exactly once as long as the thread is less than one
    ring ahead; the histogram's totals are the sums of its rows and agree with the counted cycles. A signal ends
    the display within two steps, but for one window with \<open>--refresh_on_max\<close>, where \<open>main\<close> is shown to hang.
  \<^item> A command line is read as the options it spells, however it spells them; the letters of cyclictest that
    do not work, and hackbench's long options, are shown to end the program.
  \<^item> Option processing gives only values the rest relies on, with the exceptions that are stated;
    from an accepted command line on, the threads that are created get the priorities, intervals, modes and buffers
    it asks for, and make the number of cycles it asks for; and
    every block of theirs is released once, to the allocator it came from.
  \<^item> Restoring undoes any sequence of at most 32 settings of kernel variables with short names.
  \<^item> Each program of pairs uses every time of its sender once and in order (svsematest but for one order of the two
    threads), and its figures are those of the differences; a started program finds its own entry.
  \<^item> The device admits one exclusive opener, and then no other for ever; client and driver together measure the
    delays of both ways when these are below a second.
  \<^item> Senders and receivers of hackbench agree on the number of bytes, over any kernel that makes
    progress; the workers start together and the start is over after a bounded number of steps, unless one dies.
  \<^item> rt-migrate-test checks only complete rows, ends, and fails exactly when a task was passed over.
  \<^item> A group of pi_stress never deadlocks, provokes the inversion in every round, and ends; the thread functions go
    through the places of that model; the whole program stops within a bounded number of steps once it is told to,
    but hangs at its first barrier when a thread fails to start. classic_pi completes with inheritance and
    deadlocks without; tst-mutexpi10 is the same program; the verdict of pip_stress is right.

  \<^bold>\<open>Bounds and fuel.\<close> Deadline arithmetic is on unbounded integers (64-bit seconds do not wrap for
  billions of years); differences, counters and options wrap where the code's types do. The loop that
  catches up with the clock is \<open>while_option\<close>, where \<open>None\<close> means that it does not end: it is proved when it does.
  The transfer loops of hackbench take fuel, because they need not end; the size of a message is proved to be
  enough where the kernel makes progress, and no fuel is enough where the code hangs. \<open>timer_loop\<close> and the loops
  like it recurse over the list of what happens in each cycle. The step relations have measures, whose bounds
  are part of the theorems. The double \<open>avg\<close> stands for an exact sum: it is exact below \<open>2 ^ 53\<close>.

  \<^bold>\<open>Not modelled\<close> are the Python front end hwlatdetect and the two wrappers of \<^verbatim>\<open>src/lib/rt-sched.c\<close>, which only pass
  their arguments to a system call; of the modelled programs the usage
  texts and formats they print, the wrappers around libnuma's
  bit masks, signal masks where nothing depends on them, debugging output, and the kernel behind the calls.
\<close>

end
